(* ===== verification/Prelude.thy ===== *)
theory Prelude
  imports Main "HOL-Library.Code_Target_Nat"
begin

text \<open>
  The prelude of the development: programs that pass a state along, their
  weakest-precondition calculus, and the list lemmas the components share.

  A C function that changes state is a \<open>prog\<close>: it takes the state and returns the
  result with the new state. The result is an \<open>option\<close> because the daemon's loops
  (\<^verbatim>\<open>while (!*stop_requested)\<close>, \<^verbatim>\<open>for (;;)\<close>) have no bound of their own: they
  run on fuel, and \<open>None\<close> means that the run was cut off there. The state reached at
  the cut is kept, so an invariant proved of every result covers every prefix of a run
  that never ends.
\<close>

subsection \<open>Programs\<close>

type_synonym ('s, 'a) prog = "'s \<Rightarrow> 'a option \<times> 's"

definition ret :: "'a \<Rightarrow> ('s, 'a) prog" where
  "ret x = (\<lambda>s. (Some x, s))"

definition cut :: "('s, 'a) prog" where
  "cut = (\<lambda>s. (None, s))"

definition bind :: "('s, 'a) prog \<Rightarrow> ('a \<Rightarrow> ('s, 'b) prog) \<Rightarrow> ('s, 'b) prog" where
  "bind m f = (\<lambda>s. case m s of (None, s') \<Rightarrow> (None, s') | (Some x, s') \<Rightarrow> f x s')"

definition gets :: "('s \<Rightarrow> 'a) \<Rightarrow> ('s, 'a) prog" where
  "gets f = (\<lambda>s. (Some (f s), s))"

definition modify :: "('s \<Rightarrow> 's) \<Rightarrow> ('s, unit) prog" where
  "modify f = (\<lambda>s. (Some (), f s))"

definition returns :: "('s, 'a) prog \<Rightarrow> 's \<Rightarrow> bool" where
  "returns m s \<longleftrightarrow> fst (m s) \<noteq> None"

subsection \<open>Weakest preconditions\<close>

text \<open>
  \<open>wp m Q C s\<close>: running \<open>m\<close> from \<open>s\<close> ends in a result and state that satisfy \<open>Q\<close>,
  or is cut off in a state that satisfies \<open>C\<close>.
\<close>

definition wp ::
  "('s, 'a) prog \<Rightarrow> ('a \<Rightarrow> 's \<Rightarrow> bool) \<Rightarrow> ('s \<Rightarrow> bool) \<Rightarrow> 's \<Rightarrow> bool" where
  "wp m Q C s = (case m s of (None, s') \<Rightarrow> C s' | (Some x, s') \<Rightarrow> Q x s')"

named_theorems wp_rules

lemma wp_ret [wp_rules]: "wp (ret x) Q C s = Q x s"
  by (simp add: wp_def ret_def)

lemma wp_cut [wp_rules]: "wp cut Q C s = C s"
  by (simp add: wp_def cut_def)

lemma wp_bind [wp_rules]: "wp (bind m f) Q C s = wp m (\<lambda>x. wp (f x) Q C) C s"
  by (auto simp: wp_def bind_def split: option.splits prod.splits)

lemma wp_gets [wp_rules]: "wp (gets f) Q C s = Q (f s) s"
  by (simp add: wp_def gets_def)

lemma wp_modify [wp_rules]: "wp (modify f) Q C s = Q () (f s)"
  by (simp add: wp_def modify_def)

lemma wp_if [wp_rules]:
  "wp (if b then m else m') Q C s = (if b then wp m Q C s else wp m' Q C s)"
  by simp

lemma wp_case_option [wp_rules]:
  "wp (case v of None \<Rightarrow> m | Some x \<Rightarrow> f x) Q C s =
   (case v of None \<Rightarrow> wp m Q C s | Some x \<Rightarrow> wp (f x) Q C s)"
  by (cases v) simp_all

lemma wp_case_prod [wp_rules]:
  "wp (case p of (x, y) \<Rightarrow> f x y) Q C s = (case p of (x, y) \<Rightarrow> wp (f x y) Q C s)"
  by (cases p) simp

lemma wp_let [wp_rules]: "wp (let x = v in f x) Q C s = (let x = v in wp (f x) Q C s)"
  by (simp add: Let_def)

lemma wp_mono:
  assumes "wp m Q C s" and "\<And>x t. Q x t \<Longrightarrow> Q' x t" and "\<And>t. C t \<Longrightarrow> C' t"
  shows "wp m Q' C' s"
  using assms by (auto simp: wp_def split: option.splits prod.splits)

lemma wp_conj:
  "wp m Q C s \<Longrightarrow> wp m Q' C' s \<Longrightarrow> wp m (\<lambda>x t. Q x t \<and> Q' x t) (\<lambda>t. C t \<and> C' t) s"
  by (auto simp: wp_def split: option.splits prod.splits)

lemma wp_True: "wp m (\<lambda>_ _. True) (\<lambda>_. True) s"
  by (simp add: wp_def split: option.splits prod.splits)

lemma wp_Some: "wp m Q C s \<Longrightarrow> m s = (Some x, t) \<Longrightarrow> Q x t"
  by (simp add: wp_def)

lemma wp_None: "wp m Q C s \<Longrightarrow> m s = (None, t) \<Longrightarrow> C t"
  by (simp add: wp_def)

lemma wp_snd: "wp m (\<lambda>_. R) R s \<Longrightarrow> R (snd (m s))"
  by (auto simp: wp_def split: option.splits prod.splits)

text \<open>Programs that keep an invariant, at every result and every cut.\<close>

definition keeps :: "('s \<Rightarrow> bool) \<Rightarrow> ('s, 'a) prog \<Rightarrow> bool" where
  "keeps J m \<longleftrightarrow> (\<forall>s. J s \<longrightarrow> wp m (\<lambda>_. J) J s)"

lemma keepsI: "(\<And>s. J s \<Longrightarrow> wp m (\<lambda>_. J) J s) \<Longrightarrow> keeps J m"
  by (simp add: keeps_def)

lemma keepsD: "keeps J m \<Longrightarrow> J s \<Longrightarrow> wp m (\<lambda>_. J) J s"
  by (simp add: keeps_def)

lemma keeps_ret: "keeps J (ret x)"
  by (simp add: keeps_def wp_ret)

lemma keeps_cut: "keeps J cut"
  by (simp add: keeps_def wp_cut)

lemma keeps_gets: "keeps J (gets f)"
  by (simp add: keeps_def wp_gets)

lemma keeps_modify: "(\<And>s. J s \<Longrightarrow> J (f s)) \<Longrightarrow> keeps J (modify f)"
  by (simp add: keeps_def wp_modify)

lemma keeps_bind:
  assumes "keeps J m" and "\<And>x. keeps J (f x)"
  shows "keeps J (bind m f)"
  using wp_mono [OF keepsD [OF assms(1)]] keepsD [OF assms(2)] by (auto simp: keeps_def wp_bind)

lemma keeps_if: "(b \<Longrightarrow> keeps J m) \<Longrightarrow> (\<not> b \<Longrightarrow> keeps J m') \<Longrightarrow> keeps J (if b then m else m')"
  by simp

lemma keeps_case_option:
  "keeps J m \<Longrightarrow> (\<And>x. keeps J (f x)) \<Longrightarrow> keeps J (case v of None \<Rightarrow> m | Some x \<Rightarrow> f x)"
  by (cases v) simp_all

lemma keeps_case_prod: "(\<And>x y. keeps J (f x y)) \<Longrightarrow> keeps J (case p of (x, y) \<Rightarrow> f x y)"
  by (cases p) simp

lemma keeps_let: "keeps J (f v) \<Longrightarrow> keeps J (let x = v in f x)"
  by simp

lemmas keeps_rules =
  keeps_ret keeps_cut keeps_gets keeps_bind keeps_if keeps_case_option keeps_case_prod keeps_let

lemma returns_wp: "returns m s \<longleftrightarrow> wp m (\<lambda>_ _. True) (\<lambda>_. False) s"
  by (auto simp: returns_def wp_def split: option.splits prod.splits)

lemma bind_ret: "bind (ret x) f = f x"
  by (simp add: bind_def ret_def)

lemma bind_assoc: "bind (bind m f) g = bind m (\<lambda>x. bind (f x) g)"
  by (auto simp: bind_def fun_eq_iff split: option.splits prod.splits)

subsection \<open>Lists\<close>

lemma takeWhile_append_stop: "\<forall>x \<in> set xs. P x \<Longrightarrow> \<not> P y \<Longrightarrow> takeWhile P (xs @ y # ys) = xs"
  by (induction xs) auto

lemma dropWhile_append_stop:
  "\<forall>x \<in> set xs. P x \<Longrightarrow> \<not> P y \<Longrightarrow> dropWhile P (xs @ y # ys) = y # ys"
  by (induction xs) auto

lemma dropWhile_hd: "dropWhile P xs = y # ys \<Longrightarrow> \<not> P y"
  by (induction xs) (auto split: if_splits)

lemma takeWhile_dropWhile_Cons:
  "dropWhile P xs = y # ys \<Longrightarrow> xs = takeWhile P xs @ y # ys"
  by (metis takeWhile_dropWhile_id)

lemma length_dropWhile_Cons: "dropWhile P xs = y # ys \<Longrightarrow> length ys < length xs"
  by (metis length_Cons length_dropWhile_le Suc_le_eq)

subsection \<open>Search loops\<close>

text \<open>
  \<^verbatim>\<open>for (i = 0; i < n; ++i) if (P(a[i])) return i; return -1;\<close>
\<close>

fun index_from :: "('a \<Rightarrow> bool) \<Rightarrow> nat \<Rightarrow> 'a list \<Rightarrow> int" where
  "index_from P i [] = - 1"
| "index_from P i (x # xs) = (if P x then int i else index_from P (Suc i) xs)"

lemma index_from_Some:
  assumes "0 \<le> index_from P i xs"
  shows "\<exists>k < length xs. index_from P i xs = int (i + k) \<and> P (xs ! k) \<and> (\<forall>j < k. \<not> P (xs ! j))"
  using assms
proof (induction xs arbitrary: i)
  case (Cons x xs)
  show ?case
  proof (cases "P x")
    case False
    with Cons.prems Cons.IH [of "Suc i"] obtain k where
      "k < length xs" "index_from P (Suc i) xs = int (Suc i + k)" "P (xs ! k)"
      "\<forall>j < k. \<not> P (xs ! j)" by auto
    with False show ?thesis by (intro exI [of _ "Suc k"]) (auto simp: less_Suc_eq_0_disj)
  qed auto
qed simp

lemma index_from_None: "index_from P i xs < 0 \<longleftrightarrow> (\<forall>x \<in> set xs. \<not> P x)"
  by (induction xs arbitrary: i) auto

lemma index_from_range: "- 1 \<le> index_from P i xs \<and> index_from P i xs < int (i + length xs)"
proof (induction xs arbitrary: i)
  case (Cons x xs)
  from Cons.IH [of "Suc i"] show ?case by auto
qed simp

lemma index_from_first:
  "k < length xs \<Longrightarrow> P (xs ! k) \<Longrightarrow> (\<And>j. j < k \<Longrightarrow> \<not> P (xs ! j)) \<Longrightarrow> index_from P i xs = int (i + k)"
proof (induction xs arbitrary: i k)
  case (Cons x xs)
  show ?case
  proof (cases k)
    case 0
    with Cons.prems show ?thesis by simp
  next
    case (Suc m)
    then have "\<not> P x" using Cons.prems(3) [of 0] by simp
    moreover have "index_from P (Suc i) xs = int (Suc i + m)"
      using Cons.prems Suc by (intro Cons.IH) fastforce+
    ultimately show ?thesis using Suc by simp
  qed
qed simp

end
