(* ===== verification/CLib.thy ===== *)
theory CLib
  imports Prelude "HOL-Library.Word" "HOL-Library.Char_ord"
begin

text \<open>
  The parts of the C library the program calls, in the "C" locale (the program never
  calls \<^verbatim>\<open>setlocale\<close>). A C string is the list of its characters before the
  terminating NUL; \<open>cstr\<close> reads that list off a byte buffer. \<^verbatim>\<open>unsigned long\<close>
  has 64 bits and \<^verbatim>\<open>unsigned\<close> has 32.
\<close>

subsection \<open>Characters and strings\<close>

definition ord :: "char \<Rightarrow> nat" where
  "ord c = of_char c"

definition chr :: "nat \<Rightarrow> char" where
  "chr n = char_of n"

definition NUL :: char where
  "NUL = CHR 0x00"

definition cstr :: "string \<Rightarrow> string" where
  "cstr bytes = takeWhile (\<lambda>c. c \<noteq> NUL) bytes"

definition isdigit :: "char \<Rightarrow> bool" where
  "isdigit c \<longleftrightarrow> 48 \<le> ord c \<and> ord c \<le> 57"

definition isupper :: "char \<Rightarrow> bool" where
  "isupper c \<longleftrightarrow> 65 \<le> ord c \<and> ord c \<le> 90"

definition islower :: "char \<Rightarrow> bool" where
  "islower c \<longleftrightarrow> 97 \<le> ord c \<and> ord c \<le> 122"

definition isalnum :: "char \<Rightarrow> bool" where
  "isalnum c \<longleftrightarrow> isdigit c \<or> isupper c \<or> islower c"

definition isspace :: "char \<Rightarrow> bool" where
  "isspace c \<longleftrightarrow> ord c = 32 \<or> 9 \<le> ord c \<and> ord c \<le> 13"

definition tolower :: "char \<Rightarrow> char" where
  "tolower c = (if isupper c then chr (ord c + 32) else c)"

text \<open>\<^verbatim>\<open>strcasecmp(a, b) == 0\<close>.\<close>

definition strcasecmp_eq :: "string \<Rightarrow> string \<Rightarrow> bool" where
  "strcasecmp_eq a b \<longleftrightarrow> map tolower a = map tolower b"

text \<open>\<^verbatim>\<open>strncmp(s, prefix, strlen(prefix)) == 0\<close>.\<close>

definition starts_with :: "string \<Rightarrow> string \<Rightarrow> bool" where
  "starts_with prefix s \<longleftrightarrow> take (length prefix) s = prefix"

text \<open>\<^verbatim>\<open>snprintf(buffer, n, "%s", s)\<close> leaves the first \<open>n - 1\<close> characters.\<close>

definition snprintf_str :: "nat \<Rightarrow> string \<Rightarrow> string" where
  "snprintf_str n s = take (n - 1) s"

subsection \<open>Numbers in text\<close>

definition digit_char :: "nat \<Rightarrow> char" where
  "digit_char d = chr (48 + d)"

text \<open>\<^verbatim>\<open>%u\<close>.\<close>

fun dec_string :: "nat \<Rightarrow> string" where
  "dec_string n = (if n < 10 then [digit_char n] else dec_string (n div 10) @ [digit_char (n mod 10)])"

declare dec_string.simps [simp del]

definition xdigit_value :: "char \<Rightarrow> nat option" where
  "xdigit_value c =
     (if isdigit c then Some (ord c - 48)
      else if 97 \<le> ord c \<and> ord c \<le> 102 then Some (ord c - 87)
      else if 65 \<le> ord c \<and> ord c \<le> 70 then Some (ord c - 55)
      else None)"

definition is_digit_of :: "nat \<Rightarrow> char \<Rightarrow> bool" where
  "is_digit_of base c = (case xdigit_value c of None \<Rightarrow> False | Some d \<Rightarrow> d < base)"

definition digit_value :: "char \<Rightarrow> nat" where
  "digit_value c = (case xdigit_value c of None \<Rightarrow> 0 | Some d \<Rightarrow> d)"

definition digits_value :: "nat \<Rightarrow> string \<Rightarrow> nat" where
  "digits_value base ds = foldl (\<lambda>n c. n * base + digit_value c) 0 ds"

definition skip_space :: "string \<Rightarrow> string" where
  "skip_space s = dropWhile isspace s"

text \<open>An optional sign: whether it is a minus, and what follows.\<close>

definition read_sign :: "string \<Rightarrow> bool \<times> string" where
  "read_sign s =
     (case s of
        [] \<Rightarrow> (False, [])
      | c # cs \<Rightarrow> if c = CHR ''-'' then (True, cs) else if c = CHR ''+'' then (False, cs) else (False, s))"

text \<open>The optional \<^verbatim>\<open>0x\<close> of base 16; it is skipped only before a hexadecimal digit.\<close>

definition skip_0x :: "nat \<Rightarrow> string \<Rightarrow> string" where
  "skip_0x base s =
     (case s of
        z # x # d # cs \<Rightarrow>
          if base = 16 \<and> z = CHR ''0'' \<and> tolower x = CHR ''x'' \<and> is_digit_of 16 d
          then d # cs else s
      | _ \<Rightarrow> s)"

text \<open>
  \<^verbatim>\<open>strtoul(s, &end, base)\<close> with \<^verbatim>\<open>errno\<close> cleared before: the value, the text at
  \<open>end\<close>, and whether \<^verbatim>\<open>errno\<close> became \<open>ERANGE\<close>. Without digits \<open>end\<close> is \<open>s\<close>
  itself; a minus sign negates the value in \<^verbatim>\<open>unsigned long\<close>.
\<close>

record strtoul_result =
  ul_value :: "64 word"
  ul_end :: string
  ul_erange :: bool

definition strtoul :: "string \<Rightarrow> nat \<Rightarrow> strtoul_result" where
  "strtoul s base =
     (let (neg, s1) = read_sign (skip_space s);
          s2 = skip_0x base s1;
          ds = takeWhile (is_digit_of base) s2;
          n = digits_value base ds
      in if ds = [] then \<lparr>ul_value = 0, ul_end = s, ul_erange = False\<rparr>
         else if 2 ^ 64 \<le> n
         then \<lparr>ul_value = - 1, ul_end = dropWhile (is_digit_of base) s2, ul_erange = True\<rparr>
         else \<lparr>ul_value = (if neg then - of_nat n else of_nat n),
               ul_end = dropWhile (is_digit_of base) s2, ul_erange = False\<rparr>)"

subsection \<open>IPv4 addresses in text\<close>

text \<open>
  \<^verbatim>\<open>inet_pton(AF_INET, s, &address)\<close>: four decimal numbers of at most 255 between dots,
  none with a leading zero. \<open>Some\<close> the four bytes is the result 1.
\<close>

fun split_on :: "char \<Rightarrow> string \<Rightarrow> string list" where
  "split_on d [] = [[]]"
| "split_on d (c # cs) =
     (if c = d then [] # split_on d cs
      else case split_on d cs of [] \<Rightarrow> [[c]] | w # ws \<Rightarrow> (c # w) # ws)"

definition octet_ok :: "string \<Rightarrow> bool" where
  "octet_ok w \<longleftrightarrow>
     w \<noteq> [] \<and> list_all isdigit w \<and> (hd w = CHR ''0'' \<longrightarrow> length w = 1) \<and> digits_value 10 w \<le> 255"

definition inet_pton4 :: "string \<Rightarrow> nat list option" where
  "inet_pton4 s =
     (let ws = split_on (CHR ''.'') s
      in if length ws = 4 \<and> list_all octet_ok ws then Some (map (digits_value 10) ws) else None)"

subsection \<open>Facts about the C library\<close>

lemma ord_chr [simp]: "n < 256 \<Longrightarrow> ord (chr n) = n"
  by (simp add: ord_def chr_def)

lemma chr_ord [simp]: "chr (ord c) = c"
  by (simp add: ord_def chr_def)

lemma ord_inj [simp]: "ord c = ord d \<longleftrightarrow> c = d"
  by (metis chr_ord)

lemma ord_less [simp]: "ord c < 256"
  by (simp add: ord_def)

lemma cstr_no_NUL: "NUL \<notin> set (cstr bytes)"
  by (auto simp: cstr_def dest: set_takeWhileD)

lemma cstr_id: "NUL \<notin> set s \<Longrightarrow> cstr s = s"
  by (induction s) (auto simp: cstr_def)

lemma length_cstr: "length (cstr bytes) \<le> length bytes"
  by (simp add: cstr_def length_takeWhile_le)

lemma strcasecmp_eq_refl [simp, intro]: "strcasecmp_eq a a"
  by (simp add: strcasecmp_eq_def)

lemma strcasecmp_eq_sym: "strcasecmp_eq a b \<Longrightarrow> strcasecmp_eq b a"
  by (simp add: strcasecmp_eq_def)

lemma strcasecmp_eq_commute: "strcasecmp_eq a b \<longleftrightarrow> strcasecmp_eq b a"
  by (auto simp: strcasecmp_eq_def)

lemma strcasecmp_eq_trans: "strcasecmp_eq a b \<Longrightarrow> strcasecmp_eq b c \<Longrightarrow> strcasecmp_eq a c"
  by (simp add: strcasecmp_eq_def)

lemma strcasecmp_eq_length: "strcasecmp_eq a b \<Longrightarrow> length a = length b"
  by (metis strcasecmp_eq_def length_map)

lemma strcasecmp_eq_Nil [simp]: "strcasecmp_eq [] b \<longleftrightarrow> b = []" "strcasecmp_eq b [] \<longleftrightarrow> b = []"
  by (auto simp: strcasecmp_eq_def)

lemma starts_with_iff: "starts_with p s \<longleftrightarrow> (\<exists>r. s = p @ r)"
  by (metis append_take_drop_id append_eq_conv_conj starts_with_def)

lemma length_snprintf_str: "0 < n \<Longrightarrow> length (snprintf_str n s) < n"
  by (auto simp: snprintf_str_def min_def)

lemma snprintf_str_fits: "length s < n \<Longrightarrow> snprintf_str n s = s"
  by (simp add: snprintf_str_def)

lemma digit_char_value: "d < 10 \<Longrightarrow> isdigit (digit_char d) \<and> digit_value (digit_char d) = d"
  by (simp add: isdigit_def digit_char_def digit_value_def xdigit_value_def)

lemma isdigit_is_digit_of: "is_digit_of 10 c \<longleftrightarrow> isdigit c"
  by (auto simp: is_digit_of_def xdigit_value_def isdigit_def)

lemma digits_value_append:
  "digits_value base (ds @ [c]) = digits_value base ds * base + digit_value c"
  by (simp add: digits_value_def)

lemma digits_value_dec_string: "digits_value 10 (dec_string n) = n"
proof (induction n rule: dec_string.induct)
  case (1 n)
  show ?case
  proof (cases "n < 10")
    case True
    then show ?thesis
      by (simp add: dec_string.simps [of n] digits_value_def digit_char_value)
  next
    case False
    with 1 show ?thesis
      by (simp add: dec_string.simps [of n] digits_value_append digit_char_value)
  qed
qed

lemma dec_string_digits: "list_all isdigit (dec_string n)"
proof (induction n rule: dec_string.induct)
  case (1 n)
  then show ?case
    by (cases "n < 10") (simp_all add: dec_string.simps [of n] digit_char_value)
qed

lemma dec_string_nonempty [simp]: "dec_string n \<noteq> []"
  by (subst dec_string.simps) simp

lemma dec_string_length: "n < 10 ^ k \<Longrightarrow> 0 < k \<Longrightarrow> length (dec_string n) \<le> k"
proof (induction n arbitrary: k rule: dec_string.induct)
  case (1 n)
  show ?case
  proof (cases "n < 10")
    case True
    with "1.prems" show ?thesis by (simp add: dec_string.simps [of n])
  next
    case False
    with "1.prems" obtain j where k: "k = Suc j" "0 < j"
      by (cases k; cases "k - 1") auto
    with "1.prems" have "n div 10 < 10 ^ j" by simp
    with "1.IH" False k have "length (dec_string (n div 10)) \<le> j" by blast
    with False k show ?thesis by (simp add: dec_string.simps [of n])
  qed
qed

lemma isdigit_not_special:
  "isdigit c \<Longrightarrow> \<not> isspace c \<and> c \<noteq> CHR ''-'' \<and> c \<noteq> CHR ''+'' \<and> c \<noteq> CHR ''.'' \<and> c \<noteq> NUL
     \<and> c \<noteq> CHR ''|'' \<and> c \<noteq> CHR '' ''"
  by (auto simp: isdigit_def isspace_def ord_def NUL_def)

lemma strtoul_dec:
  assumes ds: "ds \<noteq> []" "list_all isdigit ds" and fits: "digits_value 10 ds < 2 ^ 64"
    and rest: "\<And>c cs. rest = c # cs \<Longrightarrow> \<not> isdigit c"
  shows "strtoul (ds @ rest) 10 =
    \<lparr>ul_value = of_nat (digits_value 10 ds), ul_end = rest, ul_erange = False\<rparr>"
proof -
  obtain d ds' where d: "ds = d # ds'" using ds(1) by (cases ds) auto
  then have "isdigit d" using ds(2) by simp
  then have sp: "skip_space (ds @ rest) = ds @ rest" "read_sign (ds @ rest) = (False, ds @ rest)"
    using d isdigit_not_special [of d] by (simp_all add: skip_space_def read_sign_def)
  have x: "skip_0x 10 (ds @ rest) = ds @ rest"
    by (simp add: skip_0x_def split: list.splits)
  have "takeWhile isdigit (ds @ rest) = ds \<and> dropWhile isdigit (ds @ rest) = rest"
    using ds(2) rest by (cases rest) (auto simp: list_all_iff takeWhile_append_stop dropWhile_append_stop
      takeWhile_eq_all_conv)
  moreover have "is_digit_of 10 = isdigit" by (simp add: fun_eq_iff isdigit_is_digit_of)
  ultimately show ?thesis using sp x ds fits by (simp add: strtoul_def Let_def)
qed

end
