(* ===== verification/Binary64.thy ===== *)
theory Binary64
  imports CLib Complex_Main
begin

text \<open>
  The \<^verbatim>\<open>double\<close> of C: IEEE binary64 values with their comparison, rounding to nearest
  (ties to even), and \<^verbatim>\<open>strtod\<close>. A finite value is its exact rational number; the sign
  of zero is not kept (no comparison of the program sees it).

  The last part shows that rounding is monotone, so that a comparison of two rounded
  decimals decides as the exact decimals do, unless rounding makes them equal.
\<close>

subsection \<open>Values and comparison\<close>

datatype binary64 = Finite rat | Infinite (negative: bool) | NotANumber

instantiation binary64 :: ord
begin

fun less_eq_binary64 :: "binary64 \<Rightarrow> binary64 \<Rightarrow> bool" where
  "less_eq_binary64 NotANumber y = False"
| "less_eq_binary64 x NotANumber = False"
| "less_eq_binary64 (Finite a) (Finite b) = (a \<le> b)"
| "less_eq_binary64 (Finite a) (Infinite n) = (\<not> n)"
| "less_eq_binary64 (Infinite n) (Finite b) = n"
| "less_eq_binary64 (Infinite n) (Infinite m) = (n \<or> \<not> m)"

fun less_binary64 :: "binary64 \<Rightarrow> binary64 \<Rightarrow> bool" where
  "less_binary64 NotANumber y = False"
| "less_binary64 x NotANumber = False"
| "less_binary64 (Finite a) (Finite b) = (a < b)"
| "less_binary64 (Finite a) (Infinite n) = (\<not> n)"
| "less_binary64 (Infinite n) (Finite b) = n"
| "less_binary64 (Infinite n) (Infinite m) = (n \<and> \<not> m)"

instance ..

end

subsection \<open>Rounding to nearest, ties to even\<close>

definition round_half_even :: "rat \<Rightarrow> int" where
  "round_half_even x =
     (let f = \<lfloor>x\<rfloor>; r = x - of_int f
      in if r < 1 / 2 then f else if 1 / 2 < r then f + 1 else if even f then f else f + 1)"

text \<open>The number of bits of a positive integer, by doubling \<open>p = 2 ^ k\<close>.\<close>

function bits_from :: "int \<Rightarrow> int \<Rightarrow> int \<Rightarrow> int" where
  "bits_from p k n = (if p \<le> 0 \<or> n < p then k else bits_from (2 * p) (k + 1) n)"
  by pat_completeness auto
termination
  by (relation "measure (\<lambda>(p, k, n). nat (n + 1 - p))") auto

declare bits_from.simps [simp del]

definition bit_length :: "int \<Rightarrow> int" where
  "bit_length n = bits_from 1 0 n"

text \<open>The exponent \<open>k\<close> with \<open>2 ^ k \<le> q < 2 ^ (k + 1)\<close>, for a positive \<open>q\<close>.\<close>

definition binade :: "rat \<Rightarrow> int" where
  "binade q =
     (let (n, d) = quotient_of q; k = bit_length n - bit_length d
      in if 2 powi k \<le> q then k else k - 1)"

text \<open>
  The exponent of the last place: 53 significant bits, and no place below \<open>2 ^ -1074\<close>.
\<close>

definition last_place :: "rat \<Rightarrow> int" where
  "last_place q = max (binade q - 52) (- 1074)"

definition round_finite :: "rat \<Rightarrow> rat" where
  "round_finite q =
     (if q \<le> 0 then 0
      else of_int (round_half_even (q * 2 powi (- last_place q))) * 2 powi (last_place q))"

text \<open>
  A result overflows from \<open>2 ^ 1024\<close> on, and is below the normal numbers under
  \<open>2 ^ -1022\<close>; both are read off the binade (\<open>overflows_iff\<close>, \<open>subnormal_iff\<close>).
\<close>

definition overflows :: "rat \<Rightarrow> bool" where
  "overflows r \<longleftrightarrow> 0 < r \<and> 1024 \<le> binade r"

definition subnormal :: "rat \<Rightarrow> bool" where
  "subnormal r \<longleftrightarrow> \<not> (0 < r \<and> - 1022 \<le> binade r)"

text \<open>The rounding of \<open>q\<close>, negated if \<open>neg\<close>, for a \<open>q\<close> that is not negative.\<close>

definition round_binary64 :: "bool \<Rightarrow> rat \<Rightarrow> binary64" where
  "round_binary64 neg q =
     (let r = round_finite q
      in if overflows r then Infinite neg else Finite (if neg then - r else r))"

text \<open>\<^verbatim>\<open>ERANGE\<close>: overflow, or an inexact result below the normal numbers.\<close>

definition range_error :: "rat \<Rightarrow> bool" where
  "range_error q \<longleftrightarrow>
     overflows (round_finite q) \<or> subnormal (round_finite q) \<and> round_finite q \<noteq> q"

text \<open>A floating constant of the source, written as a decimal fraction.\<close>

definition double_literal :: "rat \<Rightarrow> binary64" where
  "double_literal q = round_binary64 False q"

text \<open>\<^verbatim>\<open>(int)x\<close> truncates towards zero.\<close>

definition truncate_rat :: "rat \<Rightarrow> int" where
  "truncate_rat x = (if 0 \<le> x then \<lfloor>x\<rfloor> else \<lceil>x\<rceil>)"

subsection \<open>strtod\<close>

text \<open>An optional exponent part after the mark \<open>e\<close> (or \<open>p\<close>): its value and the rest.\<close>

definition read_exponent :: "char \<Rightarrow> string \<Rightarrow> int \<times> string" where
  "read_exponent e s =
     (case s of
        [] \<Rightarrow> (0, s)
      | c # cs \<Rightarrow>
          if tolower c \<noteq> e then (0, s)
          else let (neg, t) = read_sign cs; ds = takeWhile isdigit t
            in if ds = [] then (0, s)
               else (if neg then - int (digits_value 10 ds) else int (digits_value 10 ds),
                     dropWhile isdigit t))"

text \<open>
  Digits with an optional radix point: the digits before and after it, and the rest.
  Without any digit nothing is read.
\<close>

definition read_mantissa :: "nat \<Rightarrow> string \<Rightarrow> (string \<times> string \<times> string) option" where
  "read_mantissa base s =
     (let d1 = takeWhile (is_digit_of base) s; r1 = dropWhile (is_digit_of base) s;
          (d2, r2) = (case r1 of
              [] \<Rightarrow> ([], [])
            | c # cs \<Rightarrow> if c = CHR ''.''
                       then (takeWhile (is_digit_of base) cs, dropWhile (is_digit_of base) cs)
                       else ([], r1))
      in if d1 = [] \<and> d2 = [] then None else Some (d1, d2, r2))"

definition read_decimal :: "string \<Rightarrow> (rat \<times> string) option" where
  "read_decimal s =
     (case read_mantissa 10 s of
        None \<Rightarrow> None
      | Some (d1, d2, r) \<Rightarrow>
          let (e, r') = read_exponent (CHR ''e'') r
          in Some (of_nat (digits_value 10 (d1 @ d2)) * 10 powi (e - int (length d2)), r'))"

definition read_hex :: "string \<Rightarrow> (rat \<times> string) option" where
  "read_hex s =
     (case read_mantissa 16 s of
        None \<Rightarrow> None
      | Some (d1, d2, r) \<Rightarrow>
          let (e, r') = read_exponent (CHR ''p'') r
          in Some (of_nat (digits_value 16 (d1 @ d2)) * 2 powi (e - 4 * int (length d2)), r'))"

definition has_prefix_nocase :: "string \<Rightarrow> string \<Rightarrow> bool" where
  "has_prefix_nocase p s \<longleftrightarrow> map tolower (take (length p) s) = p"

text \<open>What follows \<^verbatim>\<open>nan\<close>: an optional \<^verbatim>\<open>(n-char-sequence)\<close>.\<close>

definition skip_nan_payload :: "string \<Rightarrow> string" where
  "skip_nan_payload s =
     (case s of
        [] \<Rightarrow> s
      | c # cs \<Rightarrow>
          if c \<noteq> CHR ''('' then s
          else case dropWhile (\<lambda>c. isalnum c \<or> c = CHR ''_'') cs of
                 [] \<Rightarrow> s
               | d # ds \<Rightarrow> if d = CHR '')'' then ds else s)"

text \<open>
  \<^verbatim>\<open>strtod(s, &end)\<close> with \<^verbatim>\<open>errno\<close> cleared before: the value, the text at \<open>end\<close>
  (\<open>s\<close> itself when there is no number), and whether \<^verbatim>\<open>errno\<close> became \<open>ERANGE\<close>.
\<close>

record strtod_result =
  d_value :: binary64
  d_end :: string
  d_erange :: bool

definition number_result :: "bool \<Rightarrow> rat \<Rightarrow> string \<Rightarrow> strtod_result" where
  "number_result neg q rest =
     \<lparr>d_value = round_binary64 neg q, d_end = rest, d_erange = range_error q\<rparr>"

definition strtod :: "string \<Rightarrow> strtod_result" where
  "strtod s =
     (let (neg, t) = read_sign (skip_space s)
      in if has_prefix_nocase ''infinity'' t
         then \<lparr>d_value = Infinite neg, d_end = drop 8 t, d_erange = False\<rparr>
         else if has_prefix_nocase ''inf'' t
         then \<lparr>d_value = Infinite neg, d_end = drop 3 t, d_erange = False\<rparr>
         else if has_prefix_nocase ''nan'' t
         then \<lparr>d_value = NotANumber, d_end = skip_nan_payload (drop 3 t), d_erange = False\<rparr>
         else if has_prefix_nocase ''0x'' t \<and> read_hex (drop 2 t) \<noteq> None
         then case read_hex (drop 2 t) of
                None \<Rightarrow> \<lparr>d_value = Finite 0, d_end = s, d_erange = False\<rparr>
              | Some (q, rest) \<Rightarrow> number_result neg q rest
         else case read_decimal t of
                None \<Rightarrow> \<lparr>d_value = Finite 0, d_end = s, d_erange = False\<rparr>
              | Some (q, rest) \<Rightarrow> number_result neg q rest)"

subsection \<open>Rounding is monotone\<close>

lemma round_half_even_of_int [simp]: "round_half_even (of_int n) = n"
  by (simp add: round_half_even_def)

lemma round_half_even_bounds:
  "\<lfloor>x\<rfloor> \<le> round_half_even x" "round_half_even x \<le> \<lfloor>x\<rfloor> + 1"
  by (simp_all add: round_half_even_def Let_def)

lemma round_half_even_mono:
  assumes "x \<le> y"
  shows "round_half_even x \<le> round_half_even y"
proof (cases "\<lfloor>x\<rfloor> = \<lfloor>y\<rfloor>")
  case True
  then show ?thesis using assms by (auto simp: round_half_even_def Let_def)
next
  case False
  with assms have "\<lfloor>x\<rfloor> + 1 \<le> \<lfloor>y\<rfloor>" by (simp add: floor_mono order_less_le zless_imp_add1_zle)
  then show ?thesis using round_half_even_bounds [of x] round_half_even_bounds [of y] by linarith
qed

lemma powi_two_mono: "a \<le> b \<Longrightarrow> (2::rat) powi a \<le> 2 powi b"
  by (rule power_int_increasing) auto

lemma powi_two_add: "(2::rat) powi (a + b) = 2 powi a * 2 powi b"
  by (rule power_int_add) simp

lemma powi_two_cancel: "(x * 2 powi (- a)) * (2::rat) powi a = x"
  by (simp add: power_int_minus)

lemma powi_two_nat: "a \<le> k \<Longrightarrow> (of_int (2 ^ nat (k - a)) :: rat) = 2 powi k * 2 powi (- a)"
  using powi_two_add [of k "- a"] by (simp add: power_int_def)

lemma powi_two_nat_diff: "a \<le> k \<Longrightarrow> (of_int (2 ^ nat (k - a)) :: rat) = 2 powi (k - a)"
  by (simp add: power_int_def)

lemma bits_from_bounds:
  assumes "p = 2 ^ nat k" "0 \<le> k" "n < p \<longrightarrow> p \<le> 2 * n" "0 < n"
  shows "2 powi (bits_from p k n - 1) \<le> (of_int n :: rat) \<and> (of_int n :: rat) < 2 powi bits_from p k n"
  using assms
proof (induction p k n rule: bits_from.induct)
  case (1 p k n)
  have pos: "0 < p" using "1.prems" by simp
  show ?case
  proof (cases "n < p")
    case True
    have e: "of_int p = (2::rat) powi k" using "1.prems" by (simp add: power_int_def)
    have "(of_int p :: rat) \<le> of_int (2 * n)"
      using True "1.prems"(3) by (simp only: of_int_le_iff)
    then have "(2::rat) powi k \<le> 2 * of_int n" by (simp add: e)
    moreover have "(2::rat) powi k = 2 * 2 powi (k - 1)"
      using powi_two_add [of 1 "k - 1"] by simp
    moreover have "(of_int n :: rat) < of_int p" using True by simp
    ultimately show ?thesis using True e by (simp add: bits_from.simps [of p k n])
  next
    case False
    have "2 * p = 2 ^ nat (k + 1)" using "1.prems" by (simp add: nat_add_distrib)
    then have "2 powi (bits_from (2 * p) (k + 1) n - 1) \<le> (of_int n :: rat)
        \<and> (of_int n :: rat) < 2 powi bits_from (2 * p) (k + 1) n"
      using False pos "1.prems" by (intro "1.IH") auto
    then show ?thesis using False pos by (simp add: bits_from.simps [of p k n])
  qed
qed

lemma bit_length_bounds:
  assumes "0 < n"
  shows "2 powi (bit_length n - 1) \<le> (of_int n :: rat)" and "(of_int n :: rat) < 2 powi bit_length n"
  using bits_from_bounds [of 1 0 n] assms by (auto simp: bit_length_def)

lemma binade_bounds:
  assumes "0 < q"
  shows "2 powi binade q \<le> q" and "q < 2 powi (binade q + 1)"
proof -
  obtain n d where nd: "quotient_of q = (n, d)" by force
  then have d: "0 < d" and q: "q = of_int n / of_int d"
    by (auto intro: quotient_of_denom_pos quotient_of_div)
  with assms have n: "0 < n" by (simp add: zero_less_divide_iff)
  define fn fd where "fn = bit_length n" and "fd = bit_length d"
  note bn = bit_length_bounds [OF n, folded fn_def] and bd = bit_length_bounds [OF d, folded fd_def]
  have d': "(0::rat) < of_int d" using d by simp
  have lo: "2 powi (fn - fd - 1) \<le> q"
  proof -
    have "2 powi (fn - fd - 1) * of_int d \<le> 2 powi (fn - fd - 1) * (2::rat) powi fd"
      using bd(2) by (intro mult_left_mono) auto
    also have "\<dots> = 2 powi (fn - 1)" by (simp flip: powi_two_add)
    also note bn(1)
    finally show ?thesis using d' by (simp add: q pos_le_divide_eq)
  qed
  have hi: "q < 2 powi (fn - fd + 1)"
  proof -
    note bn(2)
    also have "(2::rat) powi fn = 2 powi (fn - fd + 1) * 2 powi (fd - 1)"
      by (simp flip: powi_two_add)
    also have "\<dots> \<le> 2 powi (fn - fd + 1) * of_int d"
      using bd(1) by (intro mult_left_mono) auto
    finally show ?thesis using d' by (simp add: q pos_divide_less_eq)
  qed
  have b: "binade q = (if 2 powi (fn - fd) \<le> q then fn - fd else fn - fd - 1)"
    by (simp add: binade_def nd fn_def fd_def Let_def)
  from lo show "2 powi binade q \<le> q" by (simp add: b)
  from hi show "q < 2 powi (binade q + 1)" by (auto simp: b not_le)
qed

lemma binade_ge_iff:
  assumes "0 < q"
  shows "k \<le> binade q \<longleftrightarrow> 2 powi k \<le> q"
proof
  assume "k \<le> binade q"
  then have "(2::rat) powi k \<le> 2 powi binade q" by (rule powi_two_mono)
  also note binade_bounds(1) [OF assms]
  finally show "2 powi k \<le> q" .
next
  assume k: "2 powi k \<le> q"
  show "k \<le> binade q"
  proof (rule ccontr)
    assume "\<not> k \<le> binade q"
    then have "(2::rat) powi (binade q + 1) \<le> 2 powi k" by (intro powi_two_mono) simp
    then show False using k binade_bounds(2) [OF assms] by linarith
  qed
qed

lemma powi_two_pos: "0 < (2::rat) powi k"
  by simp

lemma overflows_iff: "overflows r \<longleftrightarrow> 2 powi 1024 \<le> r"
  using binade_ge_iff [of r 1024] powi_two_pos [of 1024] unfolding overflows_def by linarith

lemma subnormal_iff: "subnormal r \<longleftrightarrow> r < 2 powi (- 1022)"
  using binade_ge_iff [of r "- 1022"] powi_two_pos [of "- 1022"] unfolding subnormal_def by linarith

lemma binade_mono:
  assumes "0 < p" "p \<le> q"
  shows "binade p \<le> binade q"
proof (rule ccontr)
  assume "\<not> binade p \<le> binade q"
  then have "binade q + 1 \<le> binade p" by simp
  then have "(2::rat) powi (binade q + 1) \<le> 2 powi binade p" by (rule powi_two_mono)
  then show False using binade_bounds(1) [of p] binade_bounds(2) [of q] assms by linarith
qed

lemma round_finite_nonneg: "0 \<le> round_finite q"
proof (cases "q \<le> 0")
  case False
  then have "0 \<le> round_half_even (q * 2 powi (- last_place q))"
    using round_half_even_mono [of 0 "q * 2 powi (- last_place q)"] round_half_even_of_int [of 0]
    by (simp del: round_half_even_of_int)
  then show ?thesis by (simp add: round_finite_def)
qed (simp add: round_finite_def)

lemma round_finite_le_power:
  assumes "0 < q" "q \<le> 2 powi k" "last_place q \<le> k"
  shows "round_finite q \<le> 2 powi k"
proof -
  let ?e = "last_place q"
  have "q * 2 powi (- ?e) \<le> 2 powi k * 2 powi (- ?e)"
    using assms(2) by (intro mult_right_mono) auto
  also have "(2::rat) powi k * 2 powi (- ?e) = of_int (2 ^ nat (k - ?e))"
    using assms(3) by (simp only: powi_two_nat)
  finally have "round_half_even (q * 2 powi (- ?e)) \<le> 2 ^ nat (k - ?e)"
    using round_half_even_mono round_half_even_of_int by metis
  then have "(of_int (round_half_even (q * 2 powi (- ?e))) :: rat) \<le> of_int (2 ^ nat (k - ?e))"
    by (simp only: of_int_le_iff)
  also have "\<dots> = 2 powi (k - ?e)" using assms(3) by (simp only: powi_two_nat_diff)
  finally have "of_int (round_half_even (q * 2 powi (- ?e))) * (2::rat) powi ?e
      \<le> 2 powi (k - ?e) * 2 powi ?e"
    by (intro mult_right_mono) auto
  also have "\<dots> = 2 powi k" by (simp flip: powi_two_add)
  finally show ?thesis using assms(1) by (simp add: round_finite_def)
qed

lemma round_finite_ge_power:
  assumes "2 powi k \<le> q" "last_place q \<le> k"
  shows "2 powi k \<le> round_finite q"
proof -
  let ?e = "last_place q"
  have pos: "0 < q" using assms(1) zero_less_power_int [of "2::rat" k] by linarith
  have "(of_int (2 ^ nat (k - ?e)) :: rat) = 2 powi k * 2 powi (- ?e)"
    using assms(2) by (simp only: powi_two_nat)
  also have "\<dots> \<le> q * 2 powi (- ?e)" using assms(1) by (intro mult_right_mono) auto
  finally have "2 ^ nat (k - ?e) \<le> round_half_even (q * 2 powi (- ?e))"
    using round_half_even_mono round_half_even_of_int by metis
  then have "(of_int (2 ^ nat (k - ?e)) :: rat) \<le> of_int (round_half_even (q * 2 powi (- ?e)))"
    by (simp only: of_int_le_iff)
  then have "2 powi (k - ?e) \<le> (of_int (round_half_even (q * 2 powi (- ?e))) :: rat)"
    by (simp only: powi_two_nat_diff [OF assms(2)])
  then have "2 powi (k - ?e) * 2 powi ?e
      \<le> of_int (round_half_even (q * 2 powi (- ?e))) * (2::rat) powi ?e"
    by (intro mult_right_mono) auto
  then show ?thesis using pos by (simp add: round_finite_def flip: powi_two_add)
qed

lemma round_finite_mono:
  assumes "p \<le> q"
  shows "round_finite p \<le> round_finite q"
proof (cases "p \<le> 0")
  case True
  then show ?thesis using round_finite_nonneg by (simp add: round_finite_def)
next
  case False
  with assms have pos: "0 < p" "0 < q" by auto
  then have le: "last_place p \<le> last_place q"
    using binade_mono [OF pos(1) assms] by (auto simp: last_place_def)
  show ?thesis
  proof (cases "last_place p = last_place q")
    case True
    have "p * 2 powi (- last_place q) \<le> q * 2 powi (- last_place q)"
      using assms by (intro mult_right_mono) auto
    then have "round_half_even (p * 2 powi (- last_place q))
        \<le> round_half_even (q * 2 powi (- last_place q))"
      by (rule round_half_even_mono)
    then show ?thesis using pos True by (simp add: round_finite_def mult_right_mono)
  next
    case False
    with le have lt: "last_place p < last_place q" by simp
    then have e: "last_place q = binade q - 52" and b: "binade p + 1 \<le> binade q"
      by (auto simp: last_place_def max_def split: if_splits)
    have "p \<le> 2 powi binade q"
      using binade_bounds(2) [OF pos(1)] powi_two_mono [OF b] by linarith
    then have "round_finite p \<le> 2 powi binade q"
      using lt e by (intro round_finite_le_power [OF pos(1)]) auto
    also have "\<dots> \<le> round_finite q"
      using e by (intro round_finite_ge_power binade_bounds(1) [OF pos(2)]) simp
    finally show ?thesis .
  qed
qed

lemma double_literal_mono: "p \<le> q \<Longrightarrow> double_literal p \<le> double_literal q"
  using round_finite_mono [of p q]
  by (auto simp: double_literal_def round_binary64_def Let_def overflows_iff)

subsection \<open>Rounding error\<close>

lemma round_half_even_error: "\<bar>of_int (round_half_even x) - x\<bar> \<le> 1 / 2"
proof -
  have "of_int \<lfloor>x\<rfloor> \<le> x" "x < of_int \<lfloor>x\<rfloor> + 1" by linarith+
  then show ?thesis by (auto simp: round_half_even_def Let_def abs_le_iff)
qed

lemma round_finite_error:
  assumes "0 < q"
  shows "\<bar>round_finite q - q\<bar> \<le> 2 powi (last_place q) / 2"
proof -
  let ?e = "last_place q" and ?x = "q * 2 powi (- last_place q)"
  have q: "q = ?x * 2 powi ?e" by (rule powi_two_cancel [symmetric])
  have "round_finite q - q = (of_int (round_half_even ?x) - ?x) * 2 powi ?e"
    using assms q by (simp add: round_finite_def algebra_simps)
  then have "\<bar>round_finite q - q\<bar> = \<bar>of_int (round_half_even ?x) - ?x\<bar> * 2 powi ?e"
    by (simp add: abs_mult)
  also have "\<dots> \<le> 1 / 2 * 2 powi ?e"
    using round_half_even_error by (intro mult_right_mono) auto
  finally show ?thesis by simp
qed

lemma round_finite_error_64:
  assumes "0 < q" "q < 64"
  shows "round_finite q \<le> q + 1 / 2 ^ 48" and "q \<le> round_finite q + 1 / 2 ^ 48"
proof -
  have "\<not> 6 \<le> binade q" using assms by (simp add: binade_ge_iff)
  then have "last_place q \<le> - 47" by (simp add: last_place_def)
  then have "(2::rat) powi (last_place q) / 2 \<le> 2 powi (- 47) / 2"
    by (intro divide_right_mono powi_two_mono) auto
  also have "\<dots> = 1 / 2 ^ 48" by (simp add: power_int_minus field_simps)
  finally have "\<bar>round_finite q - q\<bar> \<le> 1 / 2 ^ 48" using round_finite_error [OF assms(1)] by linarith
  then show "round_finite q \<le> q + 1 / 2 ^ 48" and "q \<le> round_finite q + 1 / 2 ^ 48" by linarith+
qed

lemma round_finite_lt_64: "0 < q \<Longrightarrow> q < 64 \<Longrightarrow> round_finite q < 65"
  using round_finite_error_64 (1) [of q] by simp

lemma double_literal_small:
  assumes "0 < q" "q < 64"
  shows "double_literal q = Finite (round_finite q)"
proof -
  have "round_finite q < 65" using round_finite_lt_64 [OF assms] .
  moreover have "(65::rat) \<le> 2 powi 1024"
    using powi_two_mono [of 7 1024] by simp
  ultimately have "\<not> overflows (round_finite q)" unfolding overflows_iff by linarith
  then show ?thesis by (simp add: double_literal_def round_binary64_def)
qed

text \<open>
  Two decimals that differ by \<open>10 ^ -14\<close> or more below 64 are still in order after
  rounding: a frequency in MHz outside a band by that much is outside it as a double.
\<close>

lemma double_literal_separates:
  assumes "0 < p" "p < 63" "p + 1 / 10 ^ 14 \<le> q"
  shows "\<not> double_literal q \<le> double_literal p"
proof -
  let ?r = "p + 1 / 10 ^ 14"
  have r: "0 < ?r" "?r < 64" using assms by simp_all
  have "round_finite p < round_finite ?r"
    using round_finite_error_64(1) [of p] round_finite_error_64(2) [OF r] assms(1,2) by simp
  also have "\<dots> \<le> round_finite q" by (rule round_finite_mono [OF assms(3)])
  finally show ?thesis
    using double_literal_small [of p] assms(1,2)
    by (auto simp: double_literal_def round_binary64_def Let_def)
qed

end
