(* ===== verification/World.thy ===== *)
theory World
  imports Binary64
begin

text \<open>
  What the daemon sees of the operating system, and \<^verbatim>\<open>src/log.c\<close>.

  The environment \<open>env\<close> is arbitrary: for each system call it says what the call returns
  at each tick. Every call, and every read of the stop flag, takes one tick, so a signal
  may arrive and the clock may move between any two of them. The outcome of a call is all
  that is assumed of it.

  The state \<open>world\<close> counts the ticks, holds the stop flag, and records the trace of what
  the daemon did, newest first: its \<^verbatim>\<open>ag_log\<close> calls, the bytes the kernel took from it,
  the sockets it closed, the text it printed.
\<close>

subsection \<open>The environment\<close>

datatype errno = EINTR | EINPROGRESS | EOTHER nat

datatype 'a sysret = Sys_error errno | Sys_ok 'a

record poll_events =
  POLLIN :: bool
  POLLOUT :: bool
  POLLERR :: bool
  POLLHUP :: bool
  POLLNVAL :: bool

text \<open>\<^verbatim>\<open>poll\<close> on one descriptor: -1 with \<open>errno\<close>, 0, or 1 with the returned events.\<close>

datatype poll_result = Poll_error errno | Poll_timeout | Poll_ready poll_events

record env =
  env_signal :: "nat \<Rightarrow> bool"                 \<comment> \<open>\<open>SIGINT\<close> or \<open>SIGTERM\<close> arrived\<close>
  env_clock :: "nat \<Rightarrow> int \<times> int"            \<comment> \<open>\<open>tv_sec\<close> and \<open>tv_nsec\<close>\<close>
  env_poll :: "nat \<Rightarrow> poll_result"
  env_recv :: "nat \<Rightarrow> string sysret"
  env_send :: "nat \<Rightarrow> nat sysret"             \<comment> \<open>how many bytes the kernel would take\<close>
  env_getaddrinfo :: "nat \<Rightarrow> nat sysret"      \<comment> \<open>how many addresses\<close>
  env_socket :: "nat \<Rightarrow> nat sysret"           \<comment> \<open>the descriptor\<close>
  env_fcntl :: "nat \<Rightarrow> unit sysret"
  env_connect :: "nat \<Rightarrow> unit sysret"
  env_so_error :: "nat \<Rightarrow> int sysret"         \<comment> \<open>\<open>getsockopt(SO_ERROR)\<close>\<close>
  env_setsockopt :: "nat \<Rightarrow> unit sysret"
  env_bind :: "nat \<Rightarrow> unit sysret"
  env_nanosleep :: "nat \<Rightarrow> unit sysret"

subsection \<open>Log messages\<close>

datatype ag_log_level = AG_LOG_INFO | AG_LOG_WARNING | AG_LOG_ERROR | AG_LOG_DEBUG

text \<open>
  One constructor per format string passed to \<^verbatim>\<open>ag_log\<close>, with its arguments. The first
  argument of a decision message is \<open>observe_only\<close>, which selects the label.
\<close>

datatype (plugins only: code) log_message =
    Msg_cannot_resolve string
  | Msg_line_too_large
  | Msg_unterminated_line
  | Msg_buffer_exceeded
  | Msg_cache_full
  | Msg_rejected string "64 word"
  | Msg_nested
  | Msg_command_too_long
  | Msg_command string                       \<comment> \<open>\<^verbatim>\<open>"> %s"\<close>\<close>
  | Msg_send_failed
  | Msg_no_answer
  | Msg_closed_awaiting
  | Msg_line string                          \<comment> \<open>\<^verbatim>\<open>"< %s"\<close>\<close>
  | Msg_allowed bool string string binary64
  | Msg_incomplete bool
  | Msg_outside bool binary64
  | Msg_blocked bool string string binary64
  | Msg_invalid_antenna
  | Msg_observed_ended
  | Msg_ended
  | Msg_observed_outside string binary64
  | Msg_fault
  | Msg_observed_transmitting string string binary64
  | Msg_transmitting string string binary64
  | Msg_observe_active
  | Msg_antenna_list_too_long
  | Msg_no_interlock_id
  | Msg_armed string
  | Msg_removed string
  | Msg_cleanup_unconfirmed
  | Msg_connecting string "16 word"
  | Msg_could_not_connect string "16 word"
  | Msg_connected string "16 word"
  | Msg_connection_lost
  | Msg_discovery_socket_failed
  | Msg_discovery_configure_failed
  | Msg_discovery_bind_failed
  | Msg_discovery_listener_failed
  | Msg_starting bool
  | Msg_waiting_discovery
  | Msg_discovered string string string string "16 word"
  | Msg_session_ended
  | Msg_unavailable "32 word" "32 word"
  | Msg_reconnecting "32 word"
  | Msg_stopped

datatype event =
    Log ag_log_level log_message
  | Sent string
  | Closed nat
  | Slept                        \<comment> \<open>one interval of 200 ms\<close>
  | Set_verbose bool
  | Stdout string
  | Stderr string

record world =
  tick :: nat
  stop_requested :: bool
  trace :: "event list"

subsection \<open>System calls and logging\<close>

definition sys :: "(nat \<Rightarrow> 'a) \<Rightarrow> ('w world_scheme, 'a) prog" where
  "sys f = (\<lambda>s. (Some (f (tick s)), s\<lparr>tick := Suc (tick s)\<rparr>))"

definition emit :: "event \<Rightarrow> ('w world_scheme, unit) prog" where
  "emit e = modify (\<lambda>s. s\<lparr>trace := e # trace s\<rparr>)"

definition ag_log :: "ag_log_level \<Rightarrow> log_message \<Rightarrow> ('w world_scheme, unit) prog" where
  "ag_log level msg = emit (Log level msg)"

text \<open>
  \<open>handle_signal\<close> of \<^verbatim>\<open>src/main.c\<close> sets the flag, and nothing clears it. A signal that
  arrived before a read of the flag has run its handler by then.
\<close>

definition handle_signal :: "'w world_scheme \<Rightarrow> 'w world_scheme" where
  "handle_signal s = s\<lparr>stop_requested := True\<rparr>"

definition read_stop :: "env \<Rightarrow> ('w world_scheme, bool) prog" where
  "read_stop E =
     bind (sys (env_signal E)) (\<lambda>signal.
     bind (modify (\<lambda>s. if signal then handle_signal s else s)) (\<lambda>_.
     gets stop_requested))"

definition close_fd :: "nat \<Rightarrow> ('w world_scheme, unit) prog" where
  "close_fd fd = emit (Closed fd)"

text \<open>
  \<^verbatim>\<open>monotonic_milliseconds\<close> (the same function in \<^verbatim>\<open>flex.c\<close> and \<^verbatim>\<open>main.c\<close>).
\<close>

definition monotonic_milliseconds :: "env \<Rightarrow> ('w world_scheme, int) prog" where
  "monotonic_milliseconds E =
     bind (sys (env_clock E)) (\<lambda>(sec, nsec). ret (sec * 1000 + nsec div 1000000))"

lemma wp_sys [wp_rules]: "wp (sys f) Q C s = Q (f (tick s)) (s\<lparr>tick := Suc (tick s)\<rparr>)"
  by (simp add: wp_def sys_def)

lemma wp_emit [wp_rules]: "wp (emit e) Q C s = Q () (s\<lparr>trace := e # trace s\<rparr>)"
  by (simp add: emit_def wp_rules)

lemma wp_ag_log [wp_rules]: "wp (ag_log l m) Q C s = Q () (s\<lparr>trace := Log l m # trace s\<rparr>)"
  by (simp add: ag_log_def wp_rules)

definition stop_seen :: "env \<Rightarrow> 'w world_scheme \<Rightarrow> bool" where
  "stop_seen E s \<longleftrightarrow> stop_requested s \<or> env_signal E (tick s)"

lemma wp_read_stop [wp_rules]:
  "wp (read_stop E) Q C s =
   Q (stop_seen E s) (s\<lparr>tick := Suc (tick s), stop_requested := stop_seen E s\<rparr>)"
  by (simp add: read_stop_def wp_rules handle_signal_def stop_seen_def)

lemma wp_close_fd [wp_rules]: "wp (close_fd fd) Q C s = Q () (s\<lparr>trace := Closed fd # trace s\<rparr>)"
  by (simp add: close_fd_def wp_rules)

definition clock_at :: "env \<Rightarrow> nat \<Rightarrow> int" where
  "clock_at E t = (case env_clock E t of (sec, nsec) \<Rightarrow> sec * 1000 + nsec div 1000000)"

lemma wp_monotonic [wp_rules]:
  "wp (monotonic_milliseconds E) Q C s = Q (clock_at E (tick s)) (s\<lparr>tick := Suc (tick s)\<rparr>)"
  by (simp add: monotonic_milliseconds_def wp_rules clock_at_def split: prod.splits)

subsection \<open>What the log prints\<close>

text \<open>
  \<^verbatim>\<open>ag_log\<close> of \<^verbatim>\<open>src/log.c\<close>: nothing for a debug message unless verbose, else one line
  of time stamp, padded label and text, as bytes for \<^verbatim>\<open>stderr\<close>. The time stamp is
  the result of \<^verbatim>\<open>strftime\<close>; the text, of \<^verbatim>\<open>vfprintf\<close>, is modelled in \<open>Log_Text\<close>.
\<close>

record log_state =
  verbose_enabled :: bool

definition ag_log_set_verbose :: "bool \<Rightarrow> log_state \<Rightarrow> log_state" where
  "ag_log_set_verbose v st = st\<lparr>verbose_enabled := v\<rparr>"

fun log_label :: "ag_log_level \<Rightarrow> string" where
  "log_label AG_LOG_INFO = ''INFO''"
| "log_label AG_LOG_WARNING = ''WARN''"
| "log_label AG_LOG_ERROR = ''ERROR''"
| "log_label AG_LOG_DEBUG = ''DEBUG''"

definition pad_right :: "nat \<Rightarrow> string \<Rightarrow> string" where
  "pad_right n s = s @ replicate (n - length s) (CHR '' '')"

definition ag_log_output :: "log_state \<Rightarrow> ag_log_level \<Rightarrow> string \<Rightarrow> string \<Rightarrow> string" where
  "ag_log_output st level timestamp text =
     (if level = AG_LOG_DEBUG \<and> \<not> verbose_enabled st then []
      else timestamp @ '' '' @ pad_right 5 (log_label level) @ '' '' @ text @ [CHR 0x0A])"

end
