(* ===== verification/Config_Types.thy ===== *)
theory Config_Types
  imports CLib
begin

text \<open>
  The configuration record of \<^verbatim>\<open>include/ag_config.h\<close> and the antenna lookup of
  \<^verbatim>\<open>src/config.c\<close>. A \<^verbatim>\<open>char\<close> array is the C string it holds; the array
  \<^verbatim>\<open>antennas\<close> with \<^verbatim>\<open>antenna_count\<close> is the list of its used entries.
\<close>

definition AG_MAX_ANTENNAS :: nat where "AG_MAX_ANTENNAS = 8"
definition AG_MAX_ANTENNA_ID :: nat where "AG_MAX_ANTENNA_ID = 31"
definition AG_MAX_HOST :: nat where "AG_MAX_HOST = 255"
definition AG_MAX_RADIO_SERIAL :: nat where "AG_MAX_RADIO_SERIAL = 63"
definition AG_MAX_IPV4_TEXT :: nat where "AG_MAX_IPV4_TEXT = 15"
definition AG_ERROR_SIZE :: nat where "AG_ERROR_SIZE = 512"

lemmas config_limits [simp] =
  AG_MAX_ANTENNAS_def AG_MAX_ANTENNA_ID_def AG_MAX_HOST_def AG_MAX_RADIO_SERIAL_def
  AG_MAX_IPV4_TEXT_def AG_ERROR_SIZE_def

datatype ag_radio_mode = AG_RADIO_DIRECT | AG_RADIO_DISCOVERY

record ag_antenna_policy =
  antenna_id :: string
  allowed_bands :: "16 word"

record ag_config =
  radio_mode :: ag_radio_mode
  host :: string
  radio_serial :: string
  discovery_ip :: string
  port :: "16 word"
  reconnect_seconds :: "32 word"
  reconnect_max_seconds :: "32 word"
  reconnect_log_seconds :: "32 word"
  antennas :: "ag_antenna_policy list"

definition antenna_count :: "ag_config \<Rightarrow> nat" where
  "antenna_count cfg = length (antennas cfg)"

definition ag_config_find_antenna :: "ag_config \<Rightarrow> string \<Rightarrow> ag_antenna_policy option" where
  "ag_config_find_antenna cfg i = find (\<lambda>p. strcasecmp_eq (antenna_id p) i) (antennas cfg)"

lemma find_antenna_Some:
  "ag_config_find_antenna cfg i = Some p \<Longrightarrow> p \<in> set (antennas cfg) \<and> strcasecmp_eq (antenna_id p) i"
  by (auto simp: ag_config_find_antenna_def find_Some_iff)

lemma find_antenna_None:
  "ag_config_find_antenna cfg i = None \<longleftrightarrow> (\<forall>p \<in> set (antennas cfg). \<not> strcasecmp_eq (antenna_id p) i)"
  by (auto simp: ag_config_find_antenna_def find_None_iff)

lemma find_antenna_cong:
  "strcasecmp_eq i j \<Longrightarrow> ag_config_find_antenna cfg i = ag_config_find_antenna cfg j"
  by (simp add: ag_config_find_antenna_def strcasecmp_eq_def)

end
