(* ===== verification/Payload_Fields.thy ===== *)
theory Payload_Fields
  imports CLib
begin

text \<open>
  The \<^verbatim>\<open>key=value\<close> payloads of Flex status lines and discovery packets. Both
  \<^verbatim>\<open>src/flex.c\<close> and \<^verbatim>\<open>src/discovery.c\<close> have a \<^verbatim>\<open>field_value\<close> that scans the
  tokens the same way and differs in what it does with a long or an empty value.
\<close>

abbreviation SP :: char where "SP \<equiv> CHR '' ''"
abbreviation EQ :: char where "EQ \<equiv> CHR ''=''"

subsection \<open>The scan\<close>

text \<open>The text after the first \<open>=\<close> of the first token whose text before it is \<open>field\<close>.\<close>

function field_raw :: "string \<Rightarrow> string \<Rightarrow> string option" where
  "field_raw field cursor =
     (if cursor = [] then None
      else
        let start = dropWhile (\<lambda>c. c = SP) cursor;
            token = takeWhile (\<lambda>c. c \<noteq> SP) start;
            key = takeWhile (\<lambda>c. c \<noteq> EQ) token
        in if EQ \<in> set token \<and> length key = length field \<and> key = field
           then Some (drop (length field + 1) token)
           else field_raw field (dropWhile (\<lambda>c. c \<noteq> SP) start))"
  by pat_completeness auto
termination
proof (relation "measure (\<lambda>(field, cursor). length cursor)", goal_cases)
  case (2 field cursor start token key)
  obtain c cs where c: "cursor = c # cs" using 2 by (cases cursor) auto
  have "length (dropWhile (\<lambda>c. c \<noteq> SP) start) \<le> length cs"
    by (cases "c = SP") (auto simp: 2(2) c intro: order_trans [OF length_dropWhile_le] length_dropWhile_le)
  then show ?case by (simp add: c)
qed simp

declare field_raw.simps [simp del]

text \<open>\<^verbatim>\<open>field_value\<close> of \<^verbatim>\<open>src/flex.c\<close>: a long value is cut to the buffer.\<close>

definition flex_field_value :: "string \<Rightarrow> string \<Rightarrow> nat \<Rightarrow> string option" where
  "flex_field_value payload field value_size =
     (case field_raw field payload of
        None \<Rightarrow> None
      | Some v \<Rightarrow> Some (if value_size \<le> length v then take (value_size - 1) v else v))"

text \<open>\<^verbatim>\<open>field_value\<close> of \<^verbatim>\<open>src/discovery.c\<close>: an empty or a long value is refused.\<close>

definition discovery_field_value :: "string \<Rightarrow> string \<Rightarrow> nat \<Rightarrow> string option" where
  "discovery_field_value payload field value_size =
     (case field_raw field payload of
        None \<Rightarrow> None
      | Some v \<Rightarrow> if length v = 0 \<or> value_size \<le> length v then None else Some v)"

subsection \<open>Rendering\<close>

text \<open>A payload as the radio writes it: tokens \<open>key=value\<close> with a space between.\<close>

fun render_fields :: "(string \<times> string) list \<Rightarrow> string" where
  "render_fields [] = []"
| "render_fields [(k, v)] = k @ EQ # v"
| "render_fields ((k, v) # kv # kvs) = k @ EQ # v @ SP # render_fields (kv # kvs)"

definition plain_field :: "string \<times> string \<Rightarrow> bool" where
  "plain_field = (\<lambda>(k, v). SP \<notin> set k \<and> EQ \<notin> set k \<and> SP \<notin> set v)"

lemma field_raw_Nil [simp]: "field_raw f [] = None"
  by (simp add: field_raw.simps)

lemma field_raw_token:
  assumes "plain_field (k, v)" and "rest = [] \<or> (\<exists>r. rest = SP # r)"
  shows "field_raw f (k @ EQ # v @ rest) = (if k = f then Some v else field_raw f rest)"
proof -
  let ?tok = "k @ EQ # v"
  have nosp: "\<forall>c \<in> set ?tok. c \<noteq> SP" using assms(1) by (auto simp: plain_field_def)
  have start: "dropWhile (\<lambda>c. c = SP) (?tok @ rest) = ?tok @ rest"
    using nosp by (cases k) auto
  have "takeWhile (\<lambda>c. c \<noteq> SP) (?tok @ rest) = ?tok \<and> dropWhile (\<lambda>c. c \<noteq> SP) (?tok @ rest) = rest"
    using assms(2)
  proof
    assume "rest = []"
    then show ?thesis using nosp takeWhile_eq_all_conv [of _ ?tok] dropWhile_eq_Nil_conv [of _ ?tok]
      by simp
  next
    assume "\<exists>r. rest = SP # r"
    then obtain r where r: "rest = SP # r" ..
    show ?thesis unfolding r
      using takeWhile_append_stop [of ?tok "\<lambda>c. c \<noteq> SP" SP r]
        dropWhile_append_stop [of ?tok "\<lambda>c. c \<noteq> SP" SP r] nosp by blast
  qed
  then have token: "takeWhile (\<lambda>c. c \<noteq> SP) (?tok @ rest) = ?tok"
    and after: "dropWhile (\<lambda>c. c \<noteq> SP) (?tok @ rest) = rest" by blast+
  have key: "takeWhile (\<lambda>c. c \<noteq> EQ) ?tok = k"
    using assms(1) by (intro takeWhile_append_stop) (auto simp: plain_field_def)
  have "field_raw f (?tok @ rest) =
      (if ?tok @ rest = [] then None
       else if EQ \<in> set ?tok \<and> length k = length f \<and> k = f
       then Some (drop (length f + 1) ?tok) else field_raw f rest)"
    by (subst field_raw.simps) (simp only: Let_def start token key after)
  then show ?thesis by auto
qed

lemma field_raw_space: "field_raw f (SP # r) = field_raw f r"
proof (cases "r = []")
  case True
  then show ?thesis by (simp add: field_raw.simps [of f "[SP]"])
next
  case False
  then show ?thesis by (simp add: field_raw.simps [of f "SP # r"] field_raw.simps [of f r])
qed

lemma field_raw_render:
  "list_all plain_field kvs \<Longrightarrow> field_raw f (render_fields kvs) = map_of kvs f"
proof (induction kvs rule: render_fields.induct)
  case (2 k v)
  then show ?case using field_raw_token [of k v "[]" f] by auto
next
  case (3 k v kv kvs)
  then show ?case
    using field_raw_token [of k v "SP # render_fields (kv # kvs)" f] by (auto simp: field_raw_space)
qed simp

lemma field_raw_no_space: "field_raw f s = Some v \<Longrightarrow> SP \<notin> set v"
proof (induction f s rule: field_raw.induct)
  case (1 field cursor)
  from "1.prems" have ne: "cursor \<noteq> []" by auto
  define start where "start = dropWhile (\<lambda>c. c = SP) cursor"
  define token where "token = takeWhile (\<lambda>c. c \<noteq> SP) start"
  have tok: "SP \<notin> set token" by (auto simp: token_def dest: set_takeWhileD)
  show ?case
  proof (cases "EQ \<in> set token \<and> takeWhile (\<lambda>c. c \<noteq> EQ) token = field")
    case True
    then have "v = drop (length field + 1) token"
      using "1.prems" ne by (subst (asm) field_raw.simps) (auto simp: Let_def start_def token_def)
    then show ?thesis using tok by (auto dest: in_set_dropD)
  next
    case False
    then have "field_raw field (dropWhile (\<lambda>c. c \<noteq> SP) start) = Some v"
      using "1.prems" ne by (subst (asm) field_raw.simps) (auto simp: Let_def start_def token_def)
    then show ?thesis
      using "1.IH" ne False unfolding start_def token_def by auto
  qed
qed

subsection \<open>The interface\<close>

text \<open>
  What both callers rely on: a value that is found fits the caller's buffer and is the
  text of the first matching token, cut at most at its end; short values come through whole.
\<close>

locale field_reader =
  fixes get :: "string \<Rightarrow> string \<Rightarrow> nat \<Rightarrow> string option"
  assumes fits: "0 < n \<Longrightarrow> get p f n = Some v \<Longrightarrow> length v < n"
    and found: "get p f n = Some v \<Longrightarrow> \<exists>raw. field_raw f p = Some raw \<and> v = take (length v) raw"
    and whole: "field_raw f p = Some raw \<Longrightarrow> raw \<noteq> [] \<Longrightarrow> length raw < n \<Longrightarrow> get p f n = Some raw"
begin

lemma value_no_space: "get p f n = Some v \<Longrightarrow> SP \<notin> set v"
  using found [of p f n v] field_raw_no_space [of f p] by (metis in_set_takeD)

lemma absent: "field_raw f p = None \<Longrightarrow> get p f n = None"
  using found [of p f n] by (cases "get p f n") auto

lemma get_rendered:
  assumes "list_all plain_field kvs" "map_of kvs f = Some v" "v \<noteq> []" "length v < n"
  shows "get (render_fields kvs) f n = Some v"
  using assms by (intro whole) (simp_all add: field_raw_render)

lemma get_rendered_absent:
  assumes "list_all plain_field kvs" "map_of kvs f = None"
  shows "get (render_fields kvs) f n = None"
  using assms by (intro absent) (simp add: field_raw_render)

end

interpretation flex_field: field_reader flex_field_value
  by unfold_locales (auto simp: flex_field_value_def split: option.splits if_splits)

interpretation discovery_field: field_reader discovery_field_value
  by unfold_locales (auto simp: discovery_field_value_def split: option.splits if_splits)

end
