(* ===== verification/Discovery.thy ===== *)
theory Discovery
  imports World Config_Types Payload_Fields
begin

text \<open>
  UDP discovery, \<^verbatim>\<open>src/discovery.c\<close>: the VITA-49 envelope of an announcement, its fields,
  the selectors of the configuration, and the loop that waits for a match.
\<close>

subsection \<open>The announcement\<close>

definition AG_DISCOVERY_PACKET_MAX :: nat where "AG_DISCOVERY_PACKET_MAX = 4096"
definition AG_VITA_EXT_DATA_WITH_STREAM :: "32 word" where "AG_VITA_EXT_DATA_WITH_STREAM = 3"
definition AG_VITA_CLASS_PRESENT :: "32 word" where "AG_VITA_CLASS_PRESENT = 0x08000000"
definition AG_VITA_DISCOVERY_STREAM :: "32 word" where "AG_VITA_DISCOVERY_STREAM = 0x00000800"
definition AG_VITA_DISCOVERY_CLASS :: "32 word" where "AG_VITA_DISCOVERY_CLASS = 0x534cffff"
definition AG_MAX_RADIO_MODEL :: nat where "AG_MAX_RADIO_MODEL = 63"
definition AG_MAX_RADIO_NAME :: nat where "AG_MAX_RADIO_NAME = 63"

lemmas vita_constants =
  AG_VITA_EXT_DATA_WITH_STREAM_def AG_VITA_CLASS_PRESENT_def AG_VITA_DISCOVERY_STREAM_def
  AG_VITA_DISCOVERY_CLASS_def

record ag_discovered_radio =
  radio_host :: string
  radio_port :: "16 word"
  serial :: string
  model :: string
  radio_name :: string

text \<open>Four bytes in network order.\<close>

definition read_network_word :: "string \<Rightarrow> 32 word" where
  "read_network_word bytes = foldl (\<lambda>w b. w * 256 + of_nat (ord b)) 0 (take 4 bytes)"

text \<open>
  The payload of a discovery packet, or \<open>None\<close> if the envelope is not one. The optional
  timestamps of VITA-49 move the payload; the trailing NULs that pad it are dropped.
\<close>

definition packet_payload :: "string \<Rightarrow> string option" where
  "packet_payload packet =
     (if length packet < 16 then None
      else
        let header = read_network_word packet;
            packet_size = unat (and header 0xffff) * 4
        in if drop_bit 28 header \<noteq> AG_VITA_EXT_DATA_WITH_STREAM
              \<or> and header AG_VITA_CLASS_PRESENT = 0
              \<or> length packet < packet_size \<or> packet_size < 16
              \<or> read_network_word (drop 4 packet) \<noteq> AG_VITA_DISCOVERY_STREAM
           then None
           else if read_network_word (drop 12 packet) \<noteq> AG_VITA_DISCOVERY_CLASS then None
           else
        let payload_offset = 16 + (if and (drop_bit 22 header) 3 \<noteq> 0 then 4 else 0)
              + (if and (drop_bit 20 header) 3 \<noteq> 0 then 8 else 0)
        in if packet_size \<le> payload_offset then None
           else
        let payload = rev (dropWhile (\<lambda>c. c = NUL) (rev (drop payload_offset (take packet_size packet))))
        in if payload = [] \<or> AG_DISCOVERY_PACKET_MAX < length payload \<or> NUL \<in> set payload then None
           else Some payload)"

text \<open>\<^verbatim>\<open>strtoul\<close> on the whole field, in the range of a port.\<close>

definition parse_port :: "string \<Rightarrow> 16 word option" where
  "parse_port port_text =
     (let r = strtoul port_text 10
      in if ul_erange r \<or> ul_end r = port_text \<or> ul_end r \<noteq> [] \<or> ul_value r < 1 \<or> 65535 < ul_value r
         then None
         else Some (ucast (ul_value r)))"

definition field_or_empty :: "string option \<Rightarrow> string" where
  "field_or_empty v = (case v of None \<Rightarrow> [] | Some s \<Rightarrow> s)"

definition parse_fields :: "string \<Rightarrow> ag_discovered_radio option" where
  "parse_fields payload =
     (case discovery_field_value payload ''serial'' (AG_MAX_RADIO_SERIAL + 1) of
        None \<Rightarrow> None
      | Some serial_text \<Rightarrow>
     (case discovery_field_value payload ''ip'' (AG_MAX_IPV4_TEXT + 1) of
        None \<Rightarrow> None
      | Some ip_text \<Rightarrow>
     (case discovery_field_value payload ''port'' 16 of
        None \<Rightarrow> None
      | Some port_text \<Rightarrow>
          if inet_pton4 ip_text = None then None
          else case parse_port port_text of
            None \<Rightarrow> None
          | Some p \<Rightarrow>
              Some \<lparr>radio_host = ip_text, radio_port = p, serial = serial_text,
                model = field_or_empty (discovery_field_value payload ''model'' (AG_MAX_RADIO_MODEL + 1)),
                radio_name =
                  (case discovery_field_value payload ''nickname'' (AG_MAX_RADIO_NAME + 1) of
                     Some nickname \<Rightarrow> nickname
                   | None \<Rightarrow> field_or_empty
                       (discovery_field_value payload ''name'' (AG_MAX_RADIO_NAME + 1)))\<rparr>)))"

definition parse_packet :: "string \<Rightarrow> ag_discovered_radio option" where
  "parse_packet packet =
     (case packet_payload packet of None \<Rightarrow> None | Some payload \<Rightarrow> parse_fields payload)"

definition matches_selector :: "ag_config \<Rightarrow> ag_discovered_radio \<Rightarrow> bool" where
  "matches_selector cfg radio \<longleftrightarrow>
     (radio_serial cfg = [] \<or> strcasecmp_eq (radio_serial cfg) (serial radio))
       \<and> (discovery_ip cfg = [] \<or> discovery_ip cfg = radio_host radio)"

subsection \<open>Waiting\<close>

datatype ag_discovery_result =
    AG_DISCOVERY_STOPPED
  | AG_DISCOVERY_MATCHED ag_discovered_radio
  | AG_DISCOVERY_ERROR

fun discovery_poll :: "env \<Rightarrow> nat \<Rightarrow> ag_config \<Rightarrow> nat \<Rightarrow> ('w world_scheme, ag_discovery_result) prog" where
  "discovery_poll E 0 cfg fd =
     bind (read_stop E) (\<lambda>stop.
       if stop then bind (close_fd fd) (\<lambda>_. ret AG_DISCOVERY_STOPPED) else cut)"
| "discovery_poll E (Suc n) cfg fd =
     bind (read_stop E) (\<lambda>stop.
       if stop then bind (close_fd fd) (\<lambda>_. ret AG_DISCOVERY_STOPPED)
       else
     bind (sys (env_poll E)) (\<lambda>polled.
       case polled of
         Poll_error e \<Rightarrow>
           if e = EINTR then discovery_poll E n cfg fd
           else bind (ag_log AG_LOG_ERROR Msg_discovery_listener_failed)
                  (\<lambda>_. bind (close_fd fd) (\<lambda>_. ret AG_DISCOVERY_ERROR))
       | Poll_timeout \<Rightarrow> discovery_poll E n cfg fd
       | Poll_ready ev \<Rightarrow>
           if \<not> POLLIN ev then discovery_poll E n cfg fd
           else bind (sys (env_recv E)) (\<lambda>received.
             case received of
               Sys_error e \<Rightarrow> discovery_poll E n cfg fd
             | Sys_ok bytes \<Rightarrow>
                 (case parse_packet (take AG_DISCOVERY_PACKET_MAX bytes) of
                    None \<Rightarrow> discovery_poll E n cfg fd
                  | Some radio \<Rightarrow>
                      if matches_selector cfg radio
                      then bind (close_fd fd) (\<lambda>_. ret (AG_DISCOVERY_MATCHED radio))
                      else discovery_poll E n cfg fd))))"

text \<open>
  An empty datagram is no packet: \<open>parse_packet []\<close> is \<open>None\<close>, as for \<^verbatim>\<open>received > 0\<close>.
\<close>

definition ag_discovery_wait ::
  "env \<Rightarrow> nat \<Rightarrow> ag_config \<Rightarrow> ('w world_scheme, ag_discovery_result) prog" where
  "ag_discovery_wait E n cfg =
     bind (sys (env_socket E)) (\<lambda>socket.
       case socket of
         Sys_error e \<Rightarrow>
           bind (ag_log AG_LOG_ERROR Msg_discovery_socket_failed) (\<lambda>_. ret AG_DISCOVERY_ERROR)
       | Sys_ok fd \<Rightarrow>
     bind (sys (env_setsockopt E)) (\<lambda>reuse.
       if reuse \<noteq> Sys_ok ()
       then bind (ag_log AG_LOG_ERROR Msg_discovery_configure_failed)
              (\<lambda>_. bind (close_fd fd) (\<lambda>_. ret AG_DISCOVERY_ERROR))
       else
     bind (sys (env_bind E)) (\<lambda>bound.
       if bound \<noteq> Sys_ok ()
       then bind (ag_log AG_LOG_ERROR Msg_discovery_bind_failed)
              (\<lambda>_. bind (close_fd fd) (\<lambda>_. ret AG_DISCOVERY_ERROR))
       else discovery_poll E n cfg fd)))"

end
