(* ===== verification/Retry.thy ===== *)
theory Retry
  imports Prelude "HOL-Library.Word"
begin

text \<open>
  \<^verbatim>\<open>src/retry.c\<close>: the next delay of the exponential back-off, on 32-bit unsigned
  numbers, its interface as a locale, and the delays of a run of failures.
\<close>

definition ag_retry_next_delay :: "32 word \<Rightarrow> 32 word \<Rightarrow> 32 word" where
  "ag_retry_next_delay current_seconds maximum_seconds =
     (if maximum_seconds \<le> current_seconds
         \<or> maximum_seconds - current_seconds < current_seconds
      then maximum_seconds
      else current_seconds * 2)"

text \<open>The code never wraps around: the delay is the smaller of twice the current and the maximum.\<close>

lemma next_delay_unat:
  "unat (ag_retry_next_delay c m) = min (2 * unat c) (unat m)"
proof (cases "m \<le> c \<or> m - c < c")
  case True
  then have "unat m \<le> 2 * unat c"
  proof
    assume "m \<le> c"
    then show ?thesis by (simp add: word_le_nat_alt)
  next
    assume *: "m - c < c"
    show ?thesis
    proof (cases "c \<le> m")
      case True
      then have "unat (m - c) = unat m - unat c" by (rule unat_sub)
      then show ?thesis using * by (simp add: word_less_nat_alt)
    next
      case False
      then show ?thesis by (simp add: word_le_nat_alt)
    qed
  qed
  then show ?thesis using True by (simp add: ag_retry_next_delay_def)
next
  case False
  then have le: "c \<le> m" and "c \<le> m - c" by auto
  then have two: "2 * unat c \<le> unat m"
    by (simp add: word_le_nat_alt unat_sub)
  moreover have "unat m < 2 ^ 32" using unsigned_less [of m, where ?'a = nat] by simp
  ultimately have "unat (c * 2) = 2 * unat c"
    by (simp add: unat_word_ariths)
  then show ?thesis using False two by (simp add: ag_retry_next_delay_def)
qed

lemma min_scale:
  assumes "1 \<le> (p::nat)"
  shows "min (p * min a b) b = min (p * a) b"
proof (cases "a \<le> b")
  case False
  have b: "b \<le> p * b" using mult_le_mono1 [OF assms, of b] by simp
  also have "p * b \<le> p * a" using False by simp
  finally have "min (p * a) b = b" by simp
  moreover have "min (p * min a b) b = b" using b False by simp
  ultimately show ?thesis by simp
qed simp

text \<open>What the reconnect loop of \<^verbatim>\<open>src/main.c\<close> relies on.\<close>

locale backoff =
  fixes next_delay :: "'d \<Rightarrow> 'd \<Rightarrow> 'd" and seconds :: "'d \<Rightarrow> nat"
  assumes next_delay: "seconds (next_delay c m) = min (2 * seconds c) (seconds m)"
begin

fun delays :: "nat \<Rightarrow> 'd \<Rightarrow> 'd \<Rightarrow> 'd list" where
  "delays 0 c m = []"
| "delays (Suc k) c m = c # delays k (next_delay c m) m"

lemma length_delays [simp]: "length (delays k c m) = k"
  by (induction k arbitrary: c) simp_all

lemma delays_nth:
  assumes "seconds c \<le> seconds m" "i < k"
  shows "seconds (delays k c m ! i) = min (2 ^ i * seconds c) (seconds m)"
  using assms
proof (induction k arbitrary: c i)
  case (Suc k)
  show ?case
  proof (cases i)
    case 0
    then show ?thesis using Suc.prems by simp
  next
    case (Suc j)
    have "seconds (delays k (next_delay c m) m ! j)
        = min (2 ^ j * seconds (next_delay c m)) (seconds m)"
      using Suc.prems \<open>i = Suc j\<close> by (intro Suc.IH) (simp_all add: next_delay)
    also have "\<dots> = min (2 ^ i * seconds c) (seconds m)"
      using min_scale [of "2 ^ j" "2 * seconds c" "seconds m"] \<open>i = Suc j\<close>
      by (simp add: next_delay mult.assoc mult.left_commute)
    finally show ?thesis using \<open>i = Suc j\<close> by simp
  qed
qed simp

lemma delays_bounded:
  "seconds c \<le> seconds m \<Longrightarrow> i < k \<Longrightarrow> seconds (delays k c m ! i) \<le> seconds m"
  by (simp add: delays_nth)

end

interpretation retry: backoff ag_retry_next_delay unat
  by unfold_locales (rule next_delay_unat)

text \<open>
  The delays before the retries of a run of failures, as the loop computes them: each step
  sleeps for the current delay and then replaces it.
\<close>

fun retry_delays :: "nat \<Rightarrow> 32 word \<Rightarrow> 32 word \<Rightarrow> 32 word list" where
  "retry_delays 0 c m = []"
| "retry_delays (Suc k) c m = c # retry_delays k (ag_retry_next_delay c m) m"

lemma retry_delays_eq: "retry_delays k c m = retry.delays k c m"
  by (induction k arbitrary: c) (simp_all add: retry.delays.simps)

text \<open>
  The next delay is the smaller of twice the current delay and the maximum, as numbers:
  the 32-bit arithmetic of the code never wraps around, for any two words.
\<close>

lemma ag_retry_next_delay_exact:
  "unat (ag_retry_next_delay c m) = min (2 * unat c) (unat m)"
  by (rule next_delay_unat)

text \<open>
  C37. In a run of failures the delay before retry \<open>i\<close> is \<open>2 ^ i\<close> times the initial delay, capped
  at the maximum.
\<close>

theorem retry_delays_exponential:
  assumes "unat c \<le> unat m" and "i < k"
  shows "unat (retry_delays k c m ! i) = min (2 ^ i * unat c) (unat m)"
  using retry.delays_nth [OF assms] by (simp add: retry_delays_eq)

theorem retry_delays_exponential_witness:
  "retry_delays 5 3 30 = [3, 6, 12, 24, 30] \<and> unat (retry_delays 5 3 30 ! 4) = min (2 ^ 4 * 3) 30"
proof
  show "retry_delays 5 3 30 = [3, 6, 12, 24, 30]" by code_simp
  have "unat (retry_delays 5 3 30 ! 4) = min (2 ^ 4 * unat (3 :: 32 word)) (unat (30 :: 32 word))"
    by (rule retry_delays_exponential) simp_all
  then show "unat (retry_delays 5 3 30 ! 4) = min (2 ^ 4 * 3) 30" by simp
qed

end
