(* ===== verification/Json.thy ===== *)
theory Json
  imports CLib Binary64
begin

text \<open>
  JSON items of \<^verbatim>\<open>third_party/cJSON\<close> as the configuration loader sees them: the item
  tree, the type tests and the lookups by name.
\<close>

subsection \<open>Items\<close>

text \<open>
  A \<^verbatim>\<open>cJSON\<close> node without its links: the type tag with the fields that are set for it. The
  \<^verbatim>\<open>child\<close> chain of an array or object is a list; each child carries its \<^verbatim>\<open>string\<close> (the
  name of an object member), which is \<open>None\<close> for the null pointer.
\<close>

datatype (plugins only: code size) cJSON =
    cJSON_NULL
  | cJSON_False
  | cJSON_True
  | cJSON_Number (valuedouble: binary64) (valueint: int)
  | cJSON_String (valuestring: string)
  | cJSON_Array (elements: "(string option \<times> cJSON) list")
  | cJSON_Object (members: "(string option \<times> cJSON) list")

type_synonym cjson_child = "string option \<times> cJSON"

text \<open>The \<^verbatim>\<open>child\<close> chain; it is null for scalars and absent items.\<close>

fun child :: "cJSON option \<Rightarrow> cjson_child list" where
  "child (Some (cJSON_Array xs)) = xs"
| "child (Some (cJSON_Object xs)) = xs"
| "child v = []"

fun cJSON_IsNumber :: "cJSON option \<Rightarrow> bool" where
  "cJSON_IsNumber (Some (cJSON_Number d i)) = True"
| "cJSON_IsNumber v = False"

fun cJSON_IsString :: "cJSON option \<Rightarrow> bool" where
  "cJSON_IsString (Some (cJSON_String s)) = True"
| "cJSON_IsString v = False"

fun cJSON_IsArray :: "cJSON option \<Rightarrow> bool" where
  "cJSON_IsArray (Some (cJSON_Array xs)) = True"
| "cJSON_IsArray v = False"

fun cJSON_IsObject :: "cJSON option \<Rightarrow> bool" where
  "cJSON_IsObject (Some (cJSON_Object xs)) = True"
| "cJSON_IsObject v = False"

text \<open>
  \<^verbatim>\<open>cJSON_GetArraySize\<close> counts in \<^verbatim>\<open>size_t\<close> and casts to \<^verbatim>\<open>int\<close>.
\<close>

definition cJSON_GetArraySize :: "cJSON option \<Rightarrow> int" where
  "cJSON_GetArraySize array = sint (word_of_nat (length (child array)) :: 32 word)"

subsection \<open>Lookup by name\<close>

text \<open>
  \<^verbatim>\<open>get_object_item\<close>: the case-sensitive loop stops at the first child without a name,
  the other one goes past it, because \<^verbatim>\<open>case_insensitive_strcmp\<close> of a null pointer is 1.
\<close>

definition case_insensitive_strcmp_zero :: "string \<Rightarrow> string option \<Rightarrow> bool" where
  "case_insensitive_strcmp_zero name s =
     (case s of None \<Rightarrow> False | Some s \<Rightarrow> map tolower name = map tolower s)"

definition get_object_item :: "cJSON option \<Rightarrow> string \<Rightarrow> bool \<Rightarrow> cJSON option" where
  "get_object_item object name case_sensitive =
     (let current =
        (if case_sensitive then dropWhile (\<lambda>c. fst c \<noteq> None \<and> fst c \<noteq> Some name) (child object)
         else dropWhile (\<lambda>c. \<not> case_insensitive_strcmp_zero name (fst c)) (child object))
      in case current of
           [] \<Rightarrow> None
         | (None, v) # _ \<Rightarrow> None
         | (Some s, v) # _ \<Rightarrow> Some v)"

definition cJSON_GetObjectItem :: "cJSON option \<Rightarrow> string \<Rightarrow> cJSON option" where
  "cJSON_GetObjectItem object name = get_object_item object name False"

definition cJSON_GetObjectItemCaseSensitive :: "cJSON option \<Rightarrow> string \<Rightarrow> cJSON option" where
  "cJSON_GetObjectItemCaseSensitive object name = get_object_item object name True"

subsection \<open>The contract of a lookup\<close>

definition all_named :: "cjson_child list \<Rightarrow> bool" where
  "all_named cs \<longleftrightarrow> list_all (\<lambda>c. fst c \<noteq> None) cs"

text \<open>
  What a parser promises of its trees: members have names, and no chain is longer than \<open>n\<close>.
\<close>

fun json_within :: "nat \<Rightarrow> cJSON \<Rightarrow> bool" where
  "json_within n (cJSON_Array xs) \<longleftrightarrow> length xs \<le> n \<and> (\<forall>x \<in> set xs. json_within n (snd x))"
| "json_within n (cJSON_Object xs) \<longleftrightarrow>
     length xs \<le> n \<and> all_named xs \<and> (\<forall>x \<in> set xs. json_within n (snd x))"
| "json_within n v \<longleftrightarrow> True"

lemma json_within_mono: "json_within n v \<Longrightarrow> n \<le> m \<Longrightarrow> json_within m v"
  by (induction n v rule: json_within.induct) auto

text \<open>
  Both lookups return the first member whose name is the same as the key, for their notion
  of sameness. With pairwise different names that member is the only one.
\<close>

locale member_lookup =
  fixes get :: "cJSON option \<Rightarrow> string \<Rightarrow> cJSON option"
    and same :: "string \<Rightarrow> string \<Rightarrow> bool"
  assumes same_refl: "same a a"
    and same_sym: "same a b \<Longrightarrow> same b a"
    and same_trans: "same a b \<Longrightarrow> same b c \<Longrightarrow> same a c"
    and get_first: "all_named (child obj) \<Longrightarrow>
      get obj k = map_option snd (find (\<lambda>c. same k (the (fst c))) (child obj))"
begin

definition names_distinct :: "cjson_child list \<Rightarrow> bool" where
  "names_distinct cs \<longleftrightarrow> (\<forall>i < length cs. \<forall>j < i. \<not> same (the (fst (cs ! j))) (the (fst (cs ! i))))"

lemma get_Some:
  assumes "all_named (child obj)" and "get obj k = Some v"
  shows "\<exists>s. (Some s, v) \<in> set (child obj) \<and> same k s"
proof -
  obtain c where c: "find (\<lambda>c. same k (the (fst c))) (child obj) = Some c" and v: "snd c = v"
    using assms get_first by auto
  have "c \<in> set (child obj)" "same k (the (fst c))"
    using c by (auto simp: find_Some_iff)
  moreover from this assms(1) have "fst c \<noteq> None"
    unfolding all_named_def list_all_iff by blast
  then obtain s where s: "fst c = Some s" by blast
  moreover have "c = (Some s, v)" using s v by (cases c) simp
  ultimately show ?thesis by (intro exI [of _ s]) simp
qed

lemma get_None:
  assumes "all_named (child obj)"
  shows "get obj k = None \<longleftrightarrow> (\<forall>s v. (Some s, v) \<in> set (child obj) \<longrightarrow> \<not> same k s)"
  using assms by (fastforce simp: get_first find_None_iff all_named_def list_all_iff)

lemma get_same:
  assumes "all_named (child obj)" and "same k k'"
  shows "get obj k = get obj k'"
proof -
  have "same k s \<longleftrightarrow> same k' s" for s using assms(2) same_sym same_trans by blast
  then show ?thesis using assms(1) by (simp add: get_first)
qed

end

lemma exact_first:
  "all_named cs \<Longrightarrow>
   (case dropWhile (\<lambda>c. fst c \<noteq> None \<and> fst c \<noteq> Some name) cs of
      [] \<Rightarrow> None | (None, v) # _ \<Rightarrow> None | (Some s, v) # _ \<Rightarrow> Some v) =
   map_option snd (find (\<lambda>c. name = the (fst c)) cs)"
  by (induction cs) (auto simp: all_named_def)

lemma nocase_first:
  "all_named cs \<Longrightarrow>
   (case dropWhile (\<lambda>c. \<not> case_insensitive_strcmp_zero name (fst c)) cs of
      [] \<Rightarrow> None | (None, v) # _ \<Rightarrow> None | (Some s, v) # _ \<Rightarrow> Some v) =
   map_option snd (find (\<lambda>c. strcasecmp_eq name (the (fst c))) cs)"
  by (induction cs) (auto simp: all_named_def case_insensitive_strcmp_zero_def strcasecmp_eq_def)

interpretation exact_lookup: member_lookup cJSON_GetObjectItemCaseSensitive "(=)"
  by unfold_locales
    (simp_all add: cJSON_GetObjectItemCaseSensitive_def get_object_item_def Let_def exact_first
      del: not_None_eq)

interpretation nocase_lookup: member_lookup cJSON_GetObjectItem strcasecmp_eq
  by unfold_locales
    (auto simp: cJSON_GetObjectItem_def get_object_item_def Let_def nocase_first
      intro: strcasecmp_eq_sym strcasecmp_eq_trans)

end
