(* ===== verification/Policy.thy ===== *)
theory Policy
  imports Config_Types Binary64
begin

text \<open>
  \<^verbatim>\<open>src/policy.c\<close> and \<^verbatim>\<open>include/ag_policy.h\<close>: the band table, the band of a
  frequency and of a name, and the transmit decision.
\<close>

unbundle bit_operations_syntax

subsection \<open>The code\<close>

record ag_band =
  b_name :: string
  lower_mhz :: binary64
  upper_mhz :: binary64

definition mk_band :: "string \<Rightarrow> rat \<Rightarrow> rat \<Rightarrow> ag_band" where
  "mk_band n lo hi = \<lparr>b_name = n, lower_mhz = double_literal lo, upper_mhz = double_literal hi\<rparr>"

text \<open>The decimal limits of the table, as the source writes them.\<close>

definition band_limits :: "(string \<times> rat \<times> rat) list" where
  "band_limits =
     [(''160m'', 1.8, 2.0), (''80m'', 3.5, 4.0), (''60m'', 5.25, 5.45), (''40m'', 7.0, 7.3),
      (''30m'', 10.1, 10.15), (''20m'', 14.0, 14.35), (''17m'', 18.068, 18.168),
      (''15m'', 21.0, 21.45), (''12m'', 24.89, 24.99), (''10m'', 28.0, 29.7), (''6m'', 50.0, 54.0)]"

definition BANDS :: "ag_band list" where
  "BANDS = map (\<lambda>(n, lo, hi). mk_band n lo hi) band_limits"

definition ag_band_count :: nat where
  "ag_band_count = length BANDS"

definition ag_band_name :: "nat \<Rightarrow> string option" where
  "ag_band_name i = (if i < ag_band_count then Some (b_name (BANDS ! i)) else None)"

definition ag_band_index :: "string \<Rightarrow> int" where
  "ag_band_index n = index_from (\<lambda>b. strcasecmp_eq n (b_name b)) 0 BANDS"

definition in_band :: "binary64 \<Rightarrow> ag_band \<Rightarrow> bool" where
  "in_band f b \<longleftrightarrow> lower_mhz b \<le> f \<and> f \<le> upper_mhz b"

definition band_for_frequency :: "binary64 \<Rightarrow> int" where
  "band_for_frequency f = index_from (in_band f) 0 BANDS"

datatype ag_decision_reason =
    AG_DECISION_ALLOWED
  | AG_DECISION_UNKNOWN_FREQUENCY
  | AG_DECISION_UNKNOWN_ANTENNA
  | AG_DECISION_OUTSIDE_KNOWN_BANDS
  | AG_DECISION_COMBINATION_BLOCKED

record ag_policy_decision =
  allowed :: bool
  reason :: ag_decision_reason
  band :: string

text \<open>\<^verbatim>\<open>(uint16_t)(1u << i)\<close>.\<close>

definition band_flag :: "nat \<Rightarrow> 16 word" where
  "band_flag i = ucast (push_bit i (1 :: 32 word))"

text \<open>\<open>None\<close> is the null pointer.\<close>

definition ag_policy_evaluate ::
  "ag_config \<Rightarrow> bool \<Rightarrow> binary64 \<Rightarrow> string option \<Rightarrow> ag_policy_decision" where
  "ag_policy_evaluate cfg has_freq f antenna =
     (if \<not> has_freq
      then \<lparr>allowed = False, reason = AG_DECISION_UNKNOWN_FREQUENCY, band = ''Unknown''\<rparr>
      else case antenna of
        None \<Rightarrow> \<lparr>allowed = False, reason = AG_DECISION_UNKNOWN_ANTENNA, band = ''Unknown''\<rparr>
      | Some a \<Rightarrow>
          if a = []
          then \<lparr>allowed = False, reason = AG_DECISION_UNKNOWN_ANTENNA, band = ''Unknown''\<rparr>
          else let i = band_for_frequency f
            in if i < 0
               then \<lparr>allowed = False, reason = AG_DECISION_OUTSIDE_KNOWN_BANDS, band = ''Unknown''\<rparr>
               else if (case ag_config_find_antenna cfg a of
                          None \<Rightarrow> False
                        | Some p \<Rightarrow> (allowed_bands p AND band_flag (nat i)) \<noteq> 0)
               then \<lparr>allowed = True, reason = AG_DECISION_ALLOWED, band = b_name (BANDS ! nat i)\<rparr>
               else \<lparr>allowed = False, reason = AG_DECISION_COMBINATION_BLOCKED,
                     band = b_name (BANDS ! nat i)\<rparr>)"

subsection \<open>The band table\<close>

lemma length_BANDS [simp]: "length BANDS = 11"
  by (simp add: BANDS_def band_limits_def)

lemma ag_band_count_eq [simp]: "ag_band_count = 11"
  by (simp add: ag_band_count_def)

lemma length_band_limits [simp]: "length band_limits = 11"
  by (simp add: band_limits_def)

lemma BANDS_nth:
  "i < 11 \<Longrightarrow> BANDS ! i = mk_band (fst (band_limits ! i)) (fst (snd (band_limits ! i))) (snd (snd (band_limits ! i)))"
  by (simp add: BANDS_def split: prod.splits)

definition lower_limit :: "nat \<Rightarrow> rat" where
  "lower_limit i = fst (snd (band_limits ! i))"

definition upper_limit :: "nat \<Rightarrow> rat" where
  "upper_limit i = snd (snd (band_limits ! i))"

lemma BANDS_limits:
  assumes "i < 11"
  shows "lower_mhz (BANDS ! i) = double_literal (lower_limit i)"
    and "upper_mhz (BANDS ! i) = double_literal (upper_limit i)"
  using assms by (simp_all add: BANDS_nth mk_band_def lower_limit_def upper_limit_def)

lemma band_limits_positive:
  "list_all (\<lambda>(n, lo, hi). 1 < lo \<and> lo < hi \<and> hi < 63) band_limits"
  by (simp add: band_limits_def)

lemma band_limits_apart:
  "sorted_wrt (\<lambda>(n, lo, hi) (n', lo', hi'). hi + 1 / 10 ^ 14 \<le> lo') band_limits"
  by (simp add: band_limits_def)

lemma limit_bounds:
  assumes "i < 11"
  shows "1 < lower_limit i" "lower_limit i < upper_limit i" "upper_limit i < 63"
  using band_limits_positive assms
  by (auto simp: list_all_length lower_limit_def upper_limit_def split_beta)

lemma limits_apart:
  assumes "i < j" "j < 11"
  shows "upper_limit i + 1 / 10 ^ 14 \<le> lower_limit j"
  using sorted_wrt_nth_less [OF band_limits_apart, of i j] assms
  by (simp add: lower_limit_def upper_limit_def split_beta)

lemma binary64_le_trans: "(x :: binary64) \<le> y \<Longrightarrow> y \<le> z \<Longrightarrow> x \<le> z"
  by (cases x; cases y; cases z) auto

lemma in_band_limits:
  "i < 11 \<Longrightarrow> in_band f (BANDS ! i) \<longleftrightarrow>
     double_literal (lower_limit i) \<le> f \<and> f \<le> double_literal (upper_limit i)"
  by (simp add: in_band_def BANDS_limits)

lemma bands_disjoint:
  assumes "i < 11" "j < 11" "in_band f (BANDS ! i)" "in_band f (BANDS ! j)"
  shows "i = j"
proof -
  have "\<not> a < b" if "a < 11" "b < 11" "in_band f (BANDS ! a)" "in_band f (BANDS ! b)" for a b
  proof
    assume "a < b"
    have "double_literal (lower_limit b) \<le> double_literal (upper_limit a)"
      using that binary64_le_trans by (auto simp: in_band_limits)
    moreover have "\<not> double_literal (lower_limit b) \<le> double_literal (upper_limit a)"
      using limits_apart [OF \<open>a < b\<close>] limit_bounds [of a] that
      by (intro double_literal_separates) auto
    ultimately show False by contradiction
  qed
  then show ?thesis using assms by (metis linorder_neqE_nat)
qed

lemma band_for_frequency_eq:
  assumes "i < 11"
  shows "band_for_frequency f = int i \<longleftrightarrow> in_band f (BANDS ! i)"
proof
  assume i: "band_for_frequency f = int i"
  then obtain k where "band_for_frequency f = int (0 + k)" "in_band f (BANDS ! k)"
    using index_from_Some [of "in_band f" 0 BANDS] unfolding band_for_frequency_def by auto
  then show "in_band f (BANDS ! i)" using i by simp
next
  assume f: "in_band f (BANDS ! i)"
  have "index_from (in_band f) 0 BANDS = int (0 + i)"
  proof (rule index_from_first)
    show "\<not> in_band f (BANDS ! j)" if "j < i" for j
      using bands_disjoint [of j i f] that f assms by auto
  qed (use assms f in simp_all)
  then show "band_for_frequency f = int i" by (simp add: band_for_frequency_def)
qed

lemma band_for_frequency_neg:
  "band_for_frequency f < 0 \<longleftrightarrow> (\<forall>i < 11. \<not> in_band f (BANDS ! i))"
  unfolding band_for_frequency_def index_from_None by (auto simp: all_set_conv_all_nth)

lemma band_for_frequency_cases:
  obtains "band_for_frequency f < 0" "\<forall>i < 11. \<not> in_band f (BANDS ! i)"
  | i where "i < 11" "band_for_frequency f = int i" "in_band f (BANDS ! i)"
proof (cases "band_for_frequency f < 0")
  case True
  then show ?thesis using that(1) band_for_frequency_neg by blast
next
  case False
  then obtain k where "k < 11" "band_for_frequency f = int (0 + k)" "in_band f (BANDS ! k)"
    using index_from_Some [of "in_band f" 0 BANDS] unfolding band_for_frequency_def by auto
  then show ?thesis using that(2) by simp
qed

lemma band_flag_bit:
  assumes "i < 16"
  shows "(w AND band_flag i) \<noteq> 0 \<longleftrightarrow> bit w i"
proof -
  have f: "bit (band_flag i) n \<longleftrightarrow> n = i" for n
    using assms by (auto simp: band_flag_def bit_simps)
  show ?thesis
    using bit_eq_iff [of "w AND band_flag i" 0] assms by (auto simp: bit_and_iff f)
qed

subsection \<open>The decision\<close>

lemma evaluate_unknown_frequency:
  "ag_policy_evaluate cfg False f a =
     \<lparr>allowed = False, reason = AG_DECISION_UNKNOWN_FREQUENCY, band = ''Unknown''\<rparr>"
  by (simp add: ag_policy_evaluate_def)

lemma evaluate_unknown_antenna:
  "a = None \<or> a = Some [] \<Longrightarrow> \<not> allowed (ag_policy_evaluate cfg h f a)"
  by (auto simp: ag_policy_evaluate_def)

text \<open>Past the first two checks the decision depends on the band and the antenna.\<close>

lemma evaluate_outside:
  "h \<Longrightarrow> s \<noteq> [] \<Longrightarrow> band_for_frequency f < 0 \<Longrightarrow>
     ag_policy_evaluate cfg h f (Some s) =
       \<lparr>allowed = False, reason = AG_DECISION_OUTSIDE_KNOWN_BANDS, band = ''Unknown''\<rparr>"
  by (simp add: ag_policy_evaluate_def)

definition band_permitted :: "ag_config \<Rightarrow> string \<Rightarrow> nat \<Rightarrow> bool" where
  "band_permitted cfg s i \<longleftrightarrow>
     (case ag_config_find_antenna cfg s of None \<Rightarrow> False | Some p \<Rightarrow> bit (allowed_bands p) i)"

lemma evaluate_in_band:
  assumes "h" "s \<noteq> []" "i < 11" "in_band f (BANDS ! i)"
  shows "ag_policy_evaluate cfg h f (Some s) =
    (if band_permitted cfg s i
     then \<lparr>allowed = True, reason = AG_DECISION_ALLOWED, band = b_name (BANDS ! i)\<rparr>
     else \<lparr>allowed = False, reason = AG_DECISION_COMBINATION_BLOCKED, band = b_name (BANDS ! i)\<rparr>)"
proof -
  have "band_for_frequency f = int i" using assms by (simp add: band_for_frequency_eq)
  then show ?thesis using assms
    by (cases "ag_config_find_antenna cfg s")
      (simp_all add: ag_policy_evaluate_def band_permitted_def band_flag_bit)
qed

lemma evaluate_allowed:
  "allowed (ag_policy_evaluate cfg h f a) \<longleftrightarrow>
     h \<and> (\<exists>s i. a = Some s \<and> s \<noteq> [] \<and> i < 11 \<and> in_band f (BANDS ! i) \<and> band_permitted cfg s i)"
proof (cases "h \<and> a \<noteq> None \<and> a \<noteq> Some []")
  case False
  then show ?thesis using evaluate_unknown_antenna by (auto simp: evaluate_unknown_frequency)
next
  case True
  then obtain s where s: "h" "a = Some s" "s \<noteq> []" by auto
  show ?thesis
  proof (cases f rule: band_for_frequency_cases)
    case 1
    then show ?thesis using s by (auto simp: evaluate_outside)
  next
    case (2 i)
    have "(\<exists>t j. a = Some t \<and> t \<noteq> [] \<and> j < 11 \<and> in_band f (BANDS ! j) \<and> band_permitted cfg t j)
        \<longleftrightarrow> band_permitted cfg s i"
      using s 2 bands_disjoint [of _ i f] by blast
    then show ?thesis using s by (simp add: evaluate_in_band [OF _ _ 2(1,3)])
  qed
qed

lemma evaluate_cong_antenna:
  assumes "strcasecmp_eq s t"
  shows "ag_policy_evaluate cfg h f (Some s) = ag_policy_evaluate cfg h f (Some t)"
proof -
  have "s = [] \<longleftrightarrow> t = []" using assms by (auto simp: strcasecmp_eq_def)
  then show ?thesis by (simp add: ag_policy_evaluate_def Let_def find_antenna_cong [OF assms])
qed

lemma evaluate_antennas_only:
  assumes "antennas cfg = antennas cfg'"
  shows "ag_policy_evaluate cfg h f a = ag_policy_evaluate cfg' h f a"
proof -
  have "ag_config_find_antenna cfg = ag_config_find_antenna cfg'"
    using assms by (simp add: ag_config_find_antenna_def fun_eq_iff)
  then show ?thesis unfolding ag_policy_evaluate_def by (simp only:)
qed

text \<open>
  What the interlock relies on: a decision function that refuses whenever the frequency
  or the antenna is not known.
\<close>

locale fail_closed_policy =
  fixes decide :: "bool \<Rightarrow> binary64 \<Rightarrow> string option \<Rightarrow> ag_policy_decision"
  assumes no_frequency: "\<not> allowed (decide False f a)"
    and no_antenna: "\<not> allowed (decide h f (Some []))"
    and reason_allowed: "reason (decide h f a) = AG_DECISION_ALLOWED \<longleftrightarrow> allowed (decide h f a)"
begin

lemma allowed_known:
  "allowed (decide h f (Some a)) \<Longrightarrow> h \<and> a \<noteq> []"
  using no_frequency no_antenna by (cases h) auto

end

interpretation ag_policy: fail_closed_policy "ag_policy_evaluate cfg" for cfg
  by unfold_locales
    (auto simp: ag_policy_evaluate_def Let_def split: option.splits)

subsection \<open>Names and numbers of bands\<close>

lemma band_names_distinct: "distinct (map (\<lambda>b. map tolower (b_name b)) BANDS)"
proof -
  have "map (\<lambda>b. map tolower (b_name b)) BANDS = map (\<lambda>(n, lo, hi). map tolower n) band_limits"
    by (simp add: BANDS_def mk_band_def split_beta)
  moreover have "distinct (map (\<lambda>(n, lo, hi). map tolower n) band_limits)"
    by code_simp
  ultimately show ?thesis by simp
qed

lemma band_names_differ:
  assumes "i < 11" "j < 11" "strcasecmp_eq s (b_name (BANDS ! i))" "strcasecmp_eq s (b_name (BANDS ! j))"
  shows "i = j"
  using band_names_distinct assms unfolding distinct_conv_nth strcasecmp_eq_def
  by (metis (mono_tags, lifting) length_BANDS length_map nth_map)

lemma ag_band_index_range: "- 1 \<le> ag_band_index s \<and> ag_band_index s < 11"
  using index_from_range [of _ 0 BANDS] by (simp add: ag_band_index_def)

text \<open>The names alone decide, so evaluation need not compute the limits.\<close>

lemma ag_band_index_code [code]:
  "ag_band_index n = index_from (\<lambda>(nm, lo, hi). strcasecmp_eq n nm) 0 band_limits"
proof -
  have "index_from P k (map f xs) = index_from (P \<circ> f) k xs"
    for P k and xs :: "(string \<times> rat \<times> rat) list" and f :: "_ \<Rightarrow> ag_band"
    by (induction xs arbitrary: k) simp_all
  moreover have "(\<lambda>(nm, lo :: rat, hi :: rat). strcasecmp_eq n nm) = (\<lambda>x. strcasecmp_eq n (fst x))"
    by auto
  ultimately show ?thesis
    by (simp add: ag_band_index_def BANDS_def comp_def mk_band_def case_prod_beta)
qed

lemma ag_band_index_nonneg:
  assumes "0 \<le> ag_band_index s"
  shows "nat (ag_band_index s) < 11 \<and> strcasecmp_eq s (b_name (BANDS ! nat (ag_band_index s)))"
proof -
  obtain k where "k < 11" "ag_band_index s = int (0 + k)" "strcasecmp_eq s (b_name (BANDS ! k))"
    using index_from_Some [OF assms [unfolded ag_band_index_def]]
    unfolding ag_band_index_def by auto
  then show ?thesis by simp
qed

lemma ag_band_index_eq:
  assumes "i < 11"
  shows "ag_band_index s = int i \<longleftrightarrow> strcasecmp_eq s (b_name (BANDS ! i))"
proof
  assume "ag_band_index s = int i"
  then show "strcasecmp_eq s (b_name (BANDS ! i))" using ag_band_index_nonneg [of s] by simp
next
  assume n: "strcasecmp_eq s (b_name (BANDS ! i))"
  have "index_from (\<lambda>b. strcasecmp_eq s (b_name b)) 0 BANDS = int (0 + i)"
  proof (rule index_from_first)
    show "\<not> strcasecmp_eq s (b_name (BANDS ! j))" if "j < i" for j
      using band_names_differ [of j i s] that n assms by auto
  qed (use assms n in simp_all)
  then show "ag_band_index s = int i" by (simp add: ag_band_index_def)
qed

subsection \<open>Frequencies given to the hertz\<close>

lemma limits_in_hertz:
  assumes "i < 11"
  shows "lower_limit i * 10 ^ 6 \<in> \<int>" and "upper_limit i * 10 ^ 6 \<in> \<int>"
proof -
  have "list_all (\<lambda>(n, lo, hi). lo * 10 ^ 6 \<in> \<int> \<and> hi * 10 ^ 6 \<in> \<int>) band_limits"
    by (simp add: band_limits_def)
  then show "lower_limit i * 10 ^ 6 \<in> \<int>" and "upper_limit i * 10 ^ 6 \<in> \<int>"
    using assms by (auto simp: list_all_length lower_limit_def upper_limit_def split_beta)
qed

lemma hertz_gap:
  assumes "x * 10 ^ 6 \<in> \<int>" "(x::rat) < of_nat n / 10 ^ 6"
  shows "x + 1 / 10 ^ 14 \<le> of_nat n / 10 ^ 6"
proof -
  obtain k where k: "x * 10 ^ 6 = of_int k" using assms(1) by (auto elim: Ints_cases)
  then have "of_int k < (of_int (int n) :: rat)" using assms(2) by (simp add: field_simps)
  then have "k + 1 \<le> int n" by (simp only: of_int_less_iff)
  then have "of_int (k + 1) \<le> (of_int (int n) :: rat)" by (simp only: of_int_le_iff)
  then show ?thesis using k by (simp add: field_simps)
qed

lemma hertz_gap':
  assumes "x * 10 ^ 6 \<in> \<int>" "of_nat n / 10 ^ 6 < (x::rat)"
  shows "of_nat n / 10 ^ 6 + 1 / 10 ^ 14 \<le> x"
proof -
  obtain k where k: "x * 10 ^ 6 = of_int k" using assms(1) by (auto elim: Ints_cases)
  then have "(of_int (int n) :: rat) < of_int k" using assms(2) by (simp add: field_simps)
  then have "int n + 1 \<le> k" by (simp only: of_int_less_iff)
  then have "(of_int (int n + 1) :: rat) \<le> of_int k" by (simp only: of_int_le_iff)
  then show ?thesis using k by (simp add: field_simps)
qed

lemma in_band_hertz:
  assumes "i < 11"
  shows "in_band (double_literal (of_nat n / 10 ^ 6)) (BANDS ! i) \<longleftrightarrow>
    lower_limit i \<le> of_nat n / 10 ^ 6 \<and> of_nat n / 10 ^ 6 \<le> upper_limit i"
    (is "in_band (double_literal ?q) _ \<longleftrightarrow> _")
proof -
  note b = limit_bounds [OF assms] and z = limits_in_hertz [OF assms]
  have lo: "lower_limit i \<le> ?q" if "double_literal (lower_limit i) \<le> double_literal ?q"
  proof (rule ccontr)
    assume "\<not> lower_limit i \<le> ?q"
    then have gap: "?q + 1 / 10 ^ 14 \<le> lower_limit i" and lt: "?q < lower_limit i"
      using hertz_gap' [OF z(1)] by auto
    show False
    proof (cases "n = 0")
      case True
      have "round_finite 1 \<le> round_finite (lower_limit i)" using b by (intro round_finite_mono) simp
      moreover have "round_finite 1 = 1" by code_simp
      ultimately show False using that True b double_literal_small [of "lower_limit i"]
        by (simp add: double_literal_def round_binary64_def overflows_iff round_finite_def)
    next
      case False
      then show False using double_literal_separates [OF _ _ gap] lt b that by simp
    qed
  qed
  have hi: "?q \<le> upper_limit i" if "double_literal ?q \<le> double_literal (upper_limit i)"
    using hertz_gap [OF z(2), of n] double_literal_separates [of "upper_limit i" ?q] b that
    by (cases "upper_limit i < ?q") auto
  show ?thesis using lo hi double_literal_mono in_band_limits [OF assms] by blast
qed

subsection \<open>Properties\<close>

text \<open>
  C6. The decision is "allowed" exactly when the frequency is known, the antenna is named, and
  the antenna's row of the allow matrix holds a band whose limits enclose the frequency.
\<close>

theorem policy_allows_exactly:
  "allowed (ag_policy_evaluate cfg has_freq f a) \<longleftrightarrow>
     has_freq \<and> (\<exists>s i p. a = Some s \<and> s \<noteq> [] \<and> i < ag_band_count
       \<and> lower_mhz (BANDS ! i) \<le> f \<and> f \<le> upper_mhz (BANDS ! i)
       \<and> ag_config_find_antenna cfg s = Some p \<and> bit (allowed_bands p) i)"
  unfolding evaluate_allowed band_permitted_def in_band_def ag_band_count_eq
  by (auto split: option.splits)

text \<open>
  The reason given with a decision: each check of the code names its own reason, in the
  order of the checks, and the reason is "allowed" exactly for an allowed decision.
\<close>

lemma policy_reason:
  "reason (ag_policy_evaluate cfg has_freq f a) =
     (if \<not> has_freq then AG_DECISION_UNKNOWN_FREQUENCY
      else if a = None \<or> a = Some [] then AG_DECISION_UNKNOWN_ANTENNA
      else if \<not> list_ex (in_band f) BANDS then AG_DECISION_OUTSIDE_KNOWN_BANDS
      else if allowed (ag_policy_evaluate cfg has_freq f a) then AG_DECISION_ALLOWED
      else AG_DECISION_COMBINATION_BLOCKED)"
proof -
  have "list_ex (in_band f) BANDS \<longleftrightarrow> \<not> band_for_frequency f < 0"
    by (simp add: band_for_frequency_def index_from_None list_ex_iff)
  then show ?thesis by (auto simp: ag_policy_evaluate_def Let_def split: option.splits)
qed

text \<open>
  C28. A frequency given to the hertz is put in its band exactly: the comparison of the rounded
  doubles decides as the decimal limits of the table do, for every number of hertz.
\<close>

theorem band_of_hertz_exact:
  "band_for_frequency (double_literal (of_nat n / 10 ^ 6)) =
     index_from (\<lambda>(nm, lo, hi). lo \<le> of_nat n / 10 ^ 6 \<and> of_nat n / 10 ^ 6 \<le> hi) 0 band_limits"
proof -
  have eq: "index_from P k xs = index_from Q k ys"
    if "length xs = length ys" "\<And>i. i < length xs \<Longrightarrow> P (xs ! i) = Q (ys ! i)"
    for P Q k and xs :: "'x list" and ys :: "'y list"
    using that
  proof (induction xs ys arbitrary: k rule: list_induct2)
    case (Cons x xs y ys)
    from Cons.prems [of 0] Cons.prems [of "Suc i" for i] Cons.IH show ?case by auto
  qed simp
  show ?thesis unfolding band_for_frequency_def
  proof (rule eq)
    fix i assume "i < length BANDS"
    then show "in_band (double_literal (of_nat n / 10 ^ 6)) (BANDS ! i) =
      (case band_limits ! i of (nm, lo, hi) \<Rightarrow> lo \<le> of_nat n / 10 ^ 6 \<and> of_nat n / 10 ^ 6 \<le> hi)"
      using in_band_hertz [of i n] by (simp add: lower_limit_def upper_limit_def split_beta)
  qed simp
qed

text \<open>
  A frequency that is not a number, or infinite, is never allowed, whatever the
  configuration and the antenna.
\<close>

lemma policy_blocks_nonfinite:
  "\<not> allowed (ag_policy_evaluate cfg h NotANumber a)
     \<and> \<not> allowed (ag_policy_evaluate cfg h (Infinite neg) a)"
proof -
  have "\<not> in_band (Infinite neg) (BANDS ! i)" if "i < 11" for i neg
    using that limit_bounds [of i] double_literal_small
    by (cases neg) (auto simp: in_band_limits)
  then show ?thesis by (auto simp: evaluate_allowed in_band_def)
qed

text \<open>
  Looking a band up by name finds index \<open>i\<close> exactly for the names that equal the name of
  band \<open>i\<close> up to case; in particular it inverts \<open>ag_band_name\<close>.
\<close>

lemma ag_band_index_inverts_name:
  "ag_band_index s = int i \<longleftrightarrow>
     (\<exists>n. ag_band_name i = Some n \<and> strcasecmp_eq s n)"
proof (cases "i < 11")
  case True
  then show ?thesis by (simp add: ag_band_index_eq ag_band_name_def)
next
  case False
  then show ?thesis using ag_band_index_range [of s] by (auto simp: ag_band_name_def)
qed

end
