(* ===== verification/Config.thy ===== *)
theory Config
  imports Json Policy
begin

text \<open>
  The configuration loader, \<^verbatim>\<open>src/config.c\<close>, from the file's bytes to an \<open>ag_config\<close> or the
  first error. The JSON parser is the parameter \<open>parse\<close> here; \<open>Load\<close> supplies cJSON's.
\<close>

subsection \<open>Errors\<close>

text \<open>One constructor per call of \<^verbatim>\<open>fail\<close>, with the arguments of its format.\<close>

datatype (plugins only: code) config_error =
    Cannot_open string string
  | File_invalid
  | Out_of_memory
  | Read_incomplete
  | Not_an_object
  | Unknown_key string "string option"
  | Duplicate_key string string
  | Radio_not_object
  | Selector_missing
  | Selectors_mixed
  | Host_invalid
  | Serial_invalid
  | Discovery_ip_invalid
  | Port_invalid
  | Reconnect_invalid
  | Reconnect_max_invalid
  | Reconnect_max_too_small
  | Reconnect_with_discovery
  | Reconnect_log_invalid
  | Interlock_not_object
  | Antenna_count_invalid
  | Antenna_id_invalid
  | Antenna_duplicate string
  | Policy_not_object
  | Policy_antenna_unlisted "string option"
  | Policy_antenna_duplicate string
  | Policy_not_array string
  | Policy_band_unknown string
  | Policy_band_duplicate string string

definition or_unnamed :: "string option \<Rightarrow> string" where
  "or_unnamed name = (case name of None \<Rightarrow> ''<unnamed>'' | Some s \<Rightarrow> s)"

fun error_text :: "config_error \<Rightarrow> string" where
  "error_text (Cannot_open path e) = ''cannot open '' @ path @ '': '' @ e"
| "error_text File_invalid = ''configuration file is invalid or exceeds 1 MiB''"
| "error_text Out_of_memory = ''out of memory while reading configuration''"
| "error_text Read_incomplete = ''could not read the complete configuration file''"
| "error_text Not_an_object = ''configuration must contain one JSON object''"
| "error_text (Unknown_key section key) = ''unknown key in '' @ section @ '': '' @ or_unnamed key"
| "error_text (Duplicate_key section key) = ''duplicate key in '' @ section @ '': '' @ key"
| "error_text Radio_not_object = ''radio must be an object''"
| "error_text Selector_missing =
     ''radio must specify host, serial, discovery_ip, or both discovery selectors''"
| "error_text Selectors_mixed = ''radio.host cannot be combined with serial or discovery_ip''"
| "error_text Host_invalid =
     ''radio.host must be a non-empty string of at most '' @ dec_string AG_MAX_HOST @ '' characters''"
| "error_text Serial_invalid =
     ''radio.serial must use 1-'' @ dec_string AG_MAX_RADIO_SERIAL
       @ '' letters, digits, '' @ [CHR 0x27] @ ''-'' @ [CHR 0x27] @ '', '' @ [CHR 0x27] @ ''_''
       @ [CHR 0x27] @ '' or '' @ [CHR 0x27] @ ''.'' @ [CHR 0x27]"
| "error_text Discovery_ip_invalid = ''radio.discovery_ip must be a valid IPv4 address''"
| "error_text Port_invalid = ''radio.port must be an integer from 1 through 65535''"
| "error_text Reconnect_invalid = ''radio.reconnect_seconds must be an integer from 1 through 300''"
| "error_text Reconnect_max_invalid =
     ''radio.reconnect_max_seconds must be an integer from 1 through 3600''"
| "error_text Reconnect_max_too_small =
     ''radio.reconnect_max_seconds must be at least reconnect_seconds''"
| "error_text Reconnect_with_discovery =
     ''radio.port and reconnect settings are only valid with radio.host''"
| "error_text Reconnect_log_invalid =
     ''radio.reconnect_log_seconds must be an integer from 1 through 86400''"
| "error_text Interlock_not_object = ''interlock must be an object''"
| "error_text Antenna_count_invalid =
     ''interlock.antennas must contain 1 through '' @ dec_string AG_MAX_ANTENNAS @ '' antenna IDs''"
| "error_text Antenna_id_invalid =
     ''each antenna ID must use 1-'' @ dec_string AG_MAX_ANTENNA_ID
       @ '' letters, digits, '' @ [CHR 0x27] @ ''-'' @ [CHR 0x27] @ '' or '' @ [CHR 0x27] @ ''_''
       @ [CHR 0x27]"
| "error_text (Antenna_duplicate i) = ''duplicate antenna ID: '' @ i"
| "error_text Policy_not_object = ''policy must be an object''"
| "error_text (Policy_antenna_unlisted i) =
     ''policy contains an antenna not listed in interlock.antennas: '' @ or_unnamed i"
| "error_text (Policy_antenna_duplicate i) = ''duplicate antenna in policy: '' @ i"
| "error_text (Policy_not_array i) = ''policy.'' @ i @ '' must be an array''"
| "error_text (Policy_band_unknown i) = ''policy.'' @ i @ '' contains an unknown band''"
| "error_text (Policy_band_duplicate i b) =
     ''policy.'' @ i @ '' contains duplicate band '' @ b"

text \<open>\<^verbatim>\<open>fail\<close> leaves at most \<open>error_size - 1\<close> bytes of the text in the buffer.\<close>

definition fail :: "nat \<Rightarrow> config_error \<Rightarrow> string" where
  "fail error_size e = snprintf_str error_size (error_text e)"

type_synonym 'a result = "config_error + 'a"

definition and_then :: "'a result \<Rightarrow> ('a \<Rightarrow> 'b result) \<Rightarrow> 'b result" where
  "and_then r f = (case r of Inl e \<Rightarrow> Inl e | Inr x \<Rightarrow> f x)"

lemma and_then_Inr [simp]: "and_then r f = Inr y \<longleftrightarrow> (\<exists>x. r = Inr x \<and> f x = Inr y)"
  by (cases r) (auto simp: and_then_def)

lemma and_then_simps [simp]: "and_then (Inl e) f = Inl e" "and_then (Inr x) f = f x"
  by (simp_all add: and_then_def)

subsection \<open>Reading the file\<close>

definition AG_MAX_CONFIG_BYTES :: nat where "AG_MAX_CONFIG_BYTES = 1024 * 1024"

text \<open>What the calls of the C library on the file return.\<close>

datatype file_io =
    Fopen_failed string
  | Fopen_ok (seek_end: bool) (ftell: int) (seek_set: bool) (malloc_ok: bool) (fread: string)

fun read_file :: "string \<Rightarrow> file_io \<Rightarrow> string result" where
  "read_file path (Fopen_failed e) = Inl (Cannot_open path e)"
| "read_file path (Fopen_ok at_end len at_start memory bytes) =
     (if \<not> at_end \<or> len < 0 \<or> int AG_MAX_CONFIG_BYTES < len \<or> \<not> at_start then Inl File_invalid
      else if \<not> memory then Inl Out_of_memory
      else if length bytes \<noteq> nat len then Inl Read_incomplete
      else Inr bytes)"

subsection \<open>Keys\<close>

definition key_is_allowed :: "string \<Rightarrow> string list \<Rightarrow> bool" where
  "key_is_allowed key keys \<longleftrightarrow> list_ex (\<lambda>a. key = a) keys"

fun reject_unknown_keys :: "cjson_child list \<Rightarrow> string \<Rightarrow> string list \<Rightarrow> unit result" where
  "reject_unknown_keys [] section keys = Inr ()"
| "reject_unknown_keys (item # later) section keys =
     (case fst item of
        None \<Rightarrow> Inl (Unknown_key section None)
      | Some key \<Rightarrow>
          if \<not> key_is_allowed key keys then Inl (Unknown_key section (Some key))
          else if list_ex (\<lambda>c. fst c = Some key) later then Inl (Duplicate_key section key)
          else reject_unknown_keys later section keys)"

subsection \<open>Identifiers\<close>

definition valid_antenna_id :: "string \<Rightarrow> bool" where
  "valid_antenna_id i \<longleftrightarrow>
     length i \<noteq> 0 \<and> length i \<le> AG_MAX_ANTENNA_ID
       \<and> list_all (\<lambda>c. isalnum c \<or> c = CHR ''_'' \<or> c = CHR ''-'') i"

definition valid_radio_serial :: "string \<Rightarrow> bool" where
  "valid_radio_serial s \<longleftrightarrow>
     length s \<noteq> 0 \<and> length s \<le> AG_MAX_RADIO_SERIAL
       \<and> list_all (\<lambda>c. isalnum c \<or> c = CHR ''-'' \<or> c = CHR ''_'' \<or> c = CHR ''.'') s"

subsection \<open>The radio section\<close>

definition radio_keys :: "string list" where
  "radio_keys =
     [''host'', ''serial'', ''discovery_ip'', ''port'', ''reconnect_seconds'',
      ''reconnect_max_seconds'', ''reconnect_log_seconds'']"

text \<open>
  The test each number of the section goes through; \<^verbatim>\<open>valuedouble != valueint\<close> compares
  with the integer converted to \<^verbatim>\<open>double\<close>.
\<close>

fun integer_within :: "rat \<Rightarrow> cJSON \<Rightarrow> bool" where
  "integer_within upper (cJSON_Number d i) \<longleftrightarrow>
     \<not> d < Finite 1 \<and> \<not> Finite upper < d \<and> d = Finite (of_int i)"
| "integer_within upper v \<longleftrightarrow> False"

text \<open>An optional number: absent, or within its range and cast to its type.\<close>

definition number_or :: "'w::len word \<Rightarrow> cJSON option \<Rightarrow> 'w word" where
  "number_or absent item = (case item of None \<Rightarrow> absent | Some v \<Rightarrow> word_of_int (valueint v))"

definition bad_number :: "rat \<Rightarrow> cJSON option \<Rightarrow> bool" where
  "bad_number upper item = (case item of None \<Rightarrow> False | Some v \<Rightarrow> \<not> integer_within upper v)"

fun good_host :: "cJSON \<Rightarrow> bool" where
  "good_host (cJSON_String s) \<longleftrightarrow> s \<noteq> [] \<and> length s \<le> AG_MAX_HOST"
| "good_host v \<longleftrightarrow> False"

fun good_serial :: "cJSON \<Rightarrow> bool" where
  "good_serial (cJSON_String s) \<longleftrightarrow> valid_radio_serial s"
| "good_serial v \<longleftrightarrow> False"

fun good_discovery_ip :: "cJSON \<Rightarrow> bool" where
  "good_discovery_ip (cJSON_String s) \<longleftrightarrow> length s \<le> AG_MAX_IPV4_TEXT \<and> inet_pton4 s \<noteq> None"
| "good_discovery_ip v \<longleftrightarrow> False"

definition bad_item :: "(cJSON \<Rightarrow> bool) \<Rightarrow> cJSON option \<Rightarrow> bool" where
  "bad_item good item = (case item of None \<Rightarrow> False | Some v \<Rightarrow> \<not> good v)"

definition text_or_empty :: "cJSON option \<Rightarrow> string" where
  "text_or_empty item = (case item of None \<Rightarrow> [] | Some v \<Rightarrow> valuestring v)"

definition parse_radio :: "cJSON option \<Rightarrow> ag_config \<Rightarrow> ag_config result" where
  "parse_radio tree cfg =
     (let radio = cJSON_GetObjectItemCaseSensitive tree ''radio''
      in if \<not> cJSON_IsObject radio then Inl Radio_not_object
         else and_then (reject_unknown_keys (child radio) ''radio'' radio_keys) (\<lambda>_.
      let get = cJSON_GetObjectItemCaseSensitive radio;
          host_item = get ''host'';
          serial_item = get ''serial'';
          ip_item = get ''discovery_ip'';
          port_item = get ''port'';
          reconnect = get ''reconnect_seconds'';
          reconnect_max = get ''reconnect_max_seconds'';
          reconnect_log = get ''reconnect_log_seconds''
      in if host_item = None \<and> serial_item = None \<and> ip_item = None then Inl Selector_missing
         else if host_item \<noteq> None \<and> (serial_item \<noteq> None \<or> ip_item \<noteq> None) then Inl Selectors_mixed
         else if bad_item good_host host_item then Inl Host_invalid
         else if bad_item good_serial serial_item then Inl Serial_invalid
         else if bad_item good_discovery_ip ip_item then Inl Discovery_ip_invalid
         else
      let mode = (if host_item = None then AG_RADIO_DISCOVERY else AG_RADIO_DIRECT)
      in if bad_number 65535 port_item then Inl Port_invalid
         else if bad_number 300 reconnect then Inl Reconnect_invalid
         else if bad_number 3600 reconnect_max then Inl Reconnect_max_invalid
         else
      let seconds = number_or 3 reconnect;
          max_seconds = number_or (if 30 < seconds then seconds else 30) reconnect_max
      in if max_seconds < seconds then Inl Reconnect_max_too_small
         else if mode = AG_RADIO_DISCOVERY \<and> (port_item \<noteq> None \<or> reconnect \<noteq> None
                 \<or> reconnect_max \<noteq> None \<or> reconnect_log \<noteq> None)
         then Inl Reconnect_with_discovery
         else if bad_number 86400 reconnect_log then Inl Reconnect_log_invalid
         else Inr (cfg\<lparr>radio_mode := mode,
                       host := text_or_empty host_item,
                       radio_serial := text_or_empty serial_item,
                       discovery_ip := text_or_empty ip_item,
                       port := number_or 4992 port_item,
                       reconnect_seconds := seconds,
                       reconnect_max_seconds := max_seconds,
                       reconnect_log_seconds := number_or 300 reconnect_log\<rparr>)))"

subsection \<open>The interlock section\<close>

fun add_antennas :: "cjson_child list \<Rightarrow> ag_antenna_policy list \<Rightarrow> ag_antenna_policy list result" where
  "add_antennas [] known = Inr known"
| "add_antennas (item # items) known =
     (case snd item of
        cJSON_String i \<Rightarrow>
          if \<not> valid_antenna_id i then Inl Antenna_id_invalid
          else if list_ex (\<lambda>p. strcasecmp_eq (antenna_id p) i) known then Inl (Antenna_duplicate i)
          else add_antennas items (known @ [\<lparr>antenna_id = i, allowed_bands = 0\<rparr>])
      | _ \<Rightarrow> Inl Antenna_id_invalid)"

definition parse_antennas :: "cJSON option \<Rightarrow> ag_config \<Rightarrow> ag_config result" where
  "parse_antennas tree cfg =
     (let interlock = cJSON_GetObjectItemCaseSensitive tree ''interlock''
      in if \<not> cJSON_IsObject interlock then Inl Interlock_not_object
         else and_then (reject_unknown_keys (child interlock) ''interlock'' [''antennas'']) (\<lambda>_.
      let antennas_item = cJSON_GetObjectItemCaseSensitive interlock ''antennas'';
          array_size = cJSON_GetArraySize antennas_item
      in if \<not> cJSON_IsArray antennas_item \<or> array_size < 1 \<or> int AG_MAX_ANTENNAS < array_size
         then Inl Antenna_count_invalid
         else and_then (add_antennas (child antennas_item) (antennas cfg)) (\<lambda>known.
                Inr (cfg\<lparr>antennas := known\<rparr>))))"

subsection \<open>The policy section\<close>

fun check_policy_keys :: "cjson_child list \<Rightarrow> ag_config \<Rightarrow> unit result" where
  "check_policy_keys [] cfg = Inr ()"
| "check_policy_keys (entry # later) cfg =
     (case fst entry of
        None \<Rightarrow> Inl (Policy_antenna_unlisted None)
      | Some i \<Rightarrow>
          if ag_config_find_antenna cfg i = None then Inl (Policy_antenna_unlisted (Some i))
          else if list_ex (\<lambda>c. case fst c of None \<Rightarrow> False | Some j \<Rightarrow> strcasecmp_eq i j) later
          then Inl (Policy_antenna_duplicate i)
          else check_policy_keys later cfg)"

fun add_bands :: "string \<Rightarrow> cjson_child list \<Rightarrow> 16 word \<Rightarrow> 16 word result" where
  "add_bands i [] bands = Inr bands"
| "add_bands i (item # items) bands =
     (case snd item of
        cJSON_String name \<Rightarrow>
          let band_index = ag_band_index name
          in if band_index < 0 then Inl (Policy_band_unknown i)
             else let flag = band_flag (nat band_index)
               in if and bands flag \<noteq> 0 then Inl (Policy_band_duplicate i name)
                  else add_bands i items (or bands flag)
      | _ \<Rightarrow> Inl (Policy_band_unknown i))"

fun set_bands :: "cJSON option \<Rightarrow> ag_antenna_policy list \<Rightarrow> ag_antenna_policy list result" where
  "set_bands policy [] = Inr []"
| "set_bands policy (p # ps) =
     (let bands = cJSON_GetObjectItem policy (antenna_id p)
      in if \<not> cJSON_IsArray bands then Inl (Policy_not_array (antenna_id p))
         else and_then (add_bands (antenna_id p) (child bands) (allowed_bands p)) (\<lambda>flags.
              and_then (set_bands policy ps) (\<lambda>ps'. Inr (p\<lparr>allowed_bands := flags\<rparr> # ps'))))"

definition parse_policy :: "cJSON option \<Rightarrow> ag_config \<Rightarrow> ag_config result" where
  "parse_policy tree cfg =
     (let policy = cJSON_GetObjectItemCaseSensitive tree ''policy''
      in if \<not> cJSON_IsObject policy then Inl Policy_not_object
         else and_then (check_policy_keys (child policy) cfg) (\<lambda>_.
              and_then (set_bands policy (antennas cfg)) (\<lambda>ps. Inr (cfg\<lparr>antennas := ps\<rparr>))))"

subsection \<open>Loading\<close>

definition zero_config :: ag_config where
  "zero_config =
     \<lparr>radio_mode = AG_RADIO_DIRECT, host = [], radio_serial = [], discovery_ip = [], port = 0,
      reconnect_seconds = 0, reconnect_max_seconds = 0, reconnect_log_seconds = 0, antennas = []\<rparr>"

definition parse_root :: "cJSON option \<Rightarrow> ag_config result" where
  "parse_root tree =
     (if \<not> cJSON_IsObject tree then Inl Not_an_object
      else and_then (reject_unknown_keys (child tree) ''root'' [''radio'', ''interlock'', ''policy''])
             (\<lambda>_.
           and_then (parse_radio tree zero_config) (\<lambda>cfg.
           and_then (parse_antennas tree cfg) (\<lambda>cfg.
           parse_policy tree cfg))))"

definition ag_config_load :: "(string \<Rightarrow> cJSON option) \<Rightarrow> string \<Rightarrow> file_io \<Rightarrow> ag_config result" where
  "ag_config_load parse path io =
     and_then (read_file path io) (\<lambda>contents. parse_root (parse (cstr contents)))"

end
