(* ===== verification/Config_Correct.thy ===== *)
theory Config_Correct
  imports Config
begin

text \<open>
  What \<^verbatim>\<open>src/config.c\<close> accepts and what it makes of it: each section of the loader is
  characterised by an equivalence, and the sections are put together in the locale
  \<open>json_parser\<close>, the loader's view of the JSON library.
\<close>

subsection \<open>Antennas\<close>

definition ids_distinct :: "string list \<Rightarrow> bool" where
  "ids_distinct ids \<longleftrightarrow> distinct (map (map tolower) ids)"

definition fresh_antenna :: "string \<Rightarrow> ag_antenna_policy" where
  "fresh_antenna i = \<lparr>antenna_id = i, allowed_bands = 0\<rparr>"

lemma ids_distinct_Nil [simp]: "ids_distinct []"
  by (simp add: ids_distinct_def)

lemma ids_distinct_same:
  "ids_distinct ids \<Longrightarrow> i \<in> set ids \<Longrightarrow> j \<in> set ids \<Longrightarrow> strcasecmp_eq i j \<Longrightarrow> i = j"
  by (auto simp: ids_distinct_def distinct_map inj_on_def strcasecmp_eq_def)

lemma ids_distinct_snoc:
  "ids_distinct (ids @ [i]) \<longleftrightarrow> ids_distinct ids \<and> (\<forall>j \<in> set ids. \<not> strcasecmp_eq j i)"
  by (auto simp: ids_distinct_def strcasecmp_eq_def image_iff)

lemma add_antennas_iff:
  assumes "ids_distinct (map antenna_id known)"
  shows "add_antennas items known = Inr ps \<longleftrightarrow>
    (\<exists>ids. map snd items = map cJSON_String ids \<and> list_all valid_antenna_id ids
      \<and> ids_distinct (map antenna_id known @ ids) \<and> ps = known @ map fresh_antenna ids)"
  using assms
proof (induction items arbitrary: known)
  case Nil
  then show ?case by auto
next
  case (Cons item items)
  show ?case
  proof (cases "\<exists>i. snd item = cJSON_String i")
    case False
    then show ?thesis by (auto split: cJSON.splits simp: Cons_eq_map_conv)
  next
    case True
    then obtain i where i: "snd item = cJSON_String i" by blast
    let ?known' = "known @ [fresh_antenna i]"
    have new: "list_ex (\<lambda>p. strcasecmp_eq (antenna_id p) i) known \<longleftrightarrow>
        \<not> ids_distinct (map antenna_id known @ [i])"
      using Cons.prems by (auto simp: ids_distinct_snoc list_ex_iff)
    have sub: "ids_distinct (map antenna_id known @ [i])"
      if "ids_distinct (map antenna_id known @ i # ids)" for ids
      using that by (auto simp: ids_distinct_def)
    have ids: "map antenna_id ?known' = map antenna_id known @ [i]"
      by (simp add: fresh_antenna_def)
    show ?thesis
    proof (cases "valid_antenna_id i \<and> ids_distinct (map antenna_id known @ [i])")
      case False
      then have "\<nexists>q. add_antennas (item # items) known = Inr q" using i new by auto
      moreover have "\<not> (list_all valid_antenna_id (i # is) \<and> ids_distinct (map antenna_id known @ i # is))"
        for "is" using False sub by auto
      ultimately show ?thesis using i by (auto simp: Cons_eq_map_conv)
    next
      case True
      then have "add_antennas (item # items) known = add_antennas items ?known'"
        using i new by (simp add: fresh_antenna_def)
      then show ?thesis using Cons.IH [of ?known'] True i ids
        by (auto simp: Cons_eq_map_conv)
    qed
  qed
qed

subsection \<open>Bands\<close>

definition lists_band :: "cjson_child \<Rightarrow> nat \<Rightarrow> bool" where
  "lists_band item j \<longleftrightarrow> j < 11 \<and> (\<exists>s. snd item = cJSON_String s \<and> ag_band_index s = int j)"

lemma band_flag_bits: "i < 16 \<Longrightarrow> bit (band_flag i) n \<longleftrightarrow> n = i"
  by (auto simp: band_flag_def bit_simps)

lemma add_bands_step:
  assumes "snd item = cJSON_String s"
  shows "add_bands i (item # items) bands =
    (if ag_band_index s < 0 then Inl (Policy_band_unknown i)
     else if bit bands (nat (ag_band_index s)) then Inl (Policy_band_duplicate i s)
     else add_bands i items (or bands (band_flag (nat (ag_band_index s)))))"
proof (cases "ag_band_index s < 0")
  case False
  then have "nat (ag_band_index s) < 16" using ag_band_index_range [of s] by auto
  then show ?thesis using assms False by (simp add: Let_def band_flag_bit)
qed (simp add: assms)

lemma add_bands_iff:
  "add_bands i items bands = Inr flags \<longleftrightarrow>
    (\<exists>idx. list_all2 lists_band items idx \<and> distinct idx \<and> (\<forall>j \<in> set idx. \<not> bit bands j)
      \<and> (\<forall>n. bit flags n \<longleftrightarrow> bit bands n \<or> n \<in> set idx))"
proof (induction items arbitrary: bands)
  case Nil
  have "bands = flags" if "\<forall>n. bit flags n \<longleftrightarrow> bit bands n"
    using that by (intro bit_eqI) simp
  then show ?case by auto
next
  case (Cons item items)
  show ?case
  proof (cases "\<exists>s. snd item = cJSON_String s \<and> \<not> ag_band_index s < 0")
    case False
    then have "\<not> lists_band item j" for j by (auto simp: lists_band_def)
    moreover have "\<nexists>f. add_bands i (item # items) bands = Inr f"
      using False add_bands_step [of item _ i items bands] by (cases "snd item") auto
    ultimately show ?thesis by (auto simp: list_all2_Cons1)
  next
    case True
    then obtain s where s: "snd item = cJSON_String s" "\<not> ag_band_index s < 0" by blast
    define k where "k = nat (ag_band_index s)"
    have k: "k < 11" "ag_band_index s = int k"
      using s ag_band_index_range [of s] by (auto simp: k_def)
    have only: "lists_band item j \<longleftrightarrow> j = k" for j using s k by (auto simp: lists_band_def)
    have bits: "bit (or bands (band_flag k)) n \<longleftrightarrow> bit bands n \<or> n = k" for n
      using k by (auto simp: bit_or_iff band_flag_bits)
    show ?thesis
    proof (cases "bit bands k")
      case True
      then show ?thesis using add_bands_step [OF s(1), of i items bands] s k
        by (auto simp: list_all2_Cons1 only)
    next
      case False
      then have "add_bands i (item # items) bands = add_bands i items (or bands (band_flag k))"
        using add_bands_step [OF s(1), of i items bands] s k by simp
      moreover have "(\<exists>idx. list_all2 lists_band (item # items) idx \<and> P idx) \<longleftrightarrow>
          (\<exists>idx. list_all2 lists_band items idx \<and> P (k # idx))" for P
        by (auto simp: list_all2_Cons1 only)
      moreover have "distinct (k # idx) \<and> (\<forall>j \<in> set (k # idx). \<not> bit bands j)
            \<and> (\<forall>n. bit flags n \<longleftrightarrow> bit bands n \<or> n \<in> set (k # idx)) \<longleftrightarrow>
          distinct idx \<and> (\<forall>j \<in> set idx. \<not> bit (or bands (band_flag k)) j)
            \<and> (\<forall>n. bit flags n \<longleftrightarrow> bit (or bands (band_flag k)) n \<or> n \<in> set idx)" for idx
        using False unfolding bits by auto
      ultimately show ?thesis by (simp only: Cons.IH)
    qed
  qed
qed

lemma set_bands_iff:
  "set_bands policy ps = Inr ps' \<longleftrightarrow>
    list_all2 (\<lambda>p p'. \<exists>bands flags. cJSON_GetObjectItem policy (antenna_id p) = Some (cJSON_Array bands)
      \<and> add_bands (antenna_id p) bands (allowed_bands p) = Inr flags
      \<and> p' = p\<lparr>allowed_bands := flags\<rparr>) ps ps'"
proof (induction ps arbitrary: ps')
  case (Cons p ps)
  have arr: "cJSON_IsArray v \<longleftrightarrow> (\<exists>bands. v = Some (cJSON_Array bands))" for v
    by (cases v rule: cJSON_IsArray.cases) auto
  show ?case
    by (auto simp: Let_def arr list_all2_Cons1 Cons.IH)
qed auto

lemma list_all2_lists_band:
  "list_all2 lists_band items idx \<Longrightarrow> j \<in> set idx \<longleftrightarrow> (\<exists>item \<in> set items. lists_band item j)"
proof (induction rule: list_all2_induct)
  case (Cons x xs y ys)
  then have "lists_band x j \<longleftrightarrow> j = y" by (auto simp: lists_band_def)
  with Cons show ?case by auto
qed simp

subsection \<open>Keys\<close>

lemma reject_unknown_keys_iff:
  "reject_unknown_keys cs section keys = Inr () \<longleftrightarrow>
    (\<exists>ks. map fst cs = map Some ks \<and> set ks \<subseteq> set keys \<and> distinct ks)"
proof (induction cs)
  case (Cons c cs)
  show ?case
  proof (cases "fst c")
    case None
    then show ?thesis by (auto simp: Cons_eq_map_conv)
  next
    case (Some k)
    have ex: "list_ex (\<lambda>c. fst c = Some k) cs \<longleftrightarrow> k \<in> set ks" if "map fst cs = map Some ks" for ks
    proof -
      have "list_ex (\<lambda>c. fst c = Some k) cs \<longleftrightarrow> list_ex (\<lambda>x. x = Some k) (map fst cs)"
        by (force simp: list_ex_iff image_iff)
      then show ?thesis using that by (auto simp: list_ex_iff)
    qed
    have "reject_unknown_keys (c # cs) section keys = Inr () \<longleftrightarrow>
        (\<exists>ks. map fst cs = map Some ks \<and> set (k # ks) \<subseteq> set keys \<and> distinct (k # ks))"
      using Some Cons.IH ex by (auto simp: key_is_allowed_def list_ex_iff split: if_splits)
    then show ?thesis using Some by (auto simp: Cons_eq_map_conv)
  qed
qed simp

lemma check_policy_keys_iff:
  "check_policy_keys cs cfg = Inr () \<longleftrightarrow>
    (\<exists>ks. map fst cs = map Some ks \<and> ids_distinct ks
      \<and> (\<forall>k \<in> set ks. ag_config_find_antenna cfg k \<noteq> None))"
proof (induction cs)
  case (Cons c cs)
  show ?case
  proof (cases "fst c")
    case None
    then show ?thesis by (auto simp: Cons_eq_map_conv)
  next
    case (Some k)
    have ex: "list_ex (\<lambda>c. case fst c of None \<Rightarrow> False | Some j \<Rightarrow> strcasecmp_eq k j) cs \<longleftrightarrow>
        (\<exists>j \<in> set ks. strcasecmp_eq k j)" if "map fst cs = map Some ks" for ks
    proof -
      have "list_ex (\<lambda>c. case fst c of None \<Rightarrow> False | Some j \<Rightarrow> strcasecmp_eq k j) cs \<longleftrightarrow>
          list_ex (\<lambda>x. case x of None \<Rightarrow> False | Some j \<Rightarrow> strcasecmp_eq k j) (map fst cs)"
        by (simp add: list_ex_iff)
      then show ?thesis using that by (auto simp: list_ex_iff)
    qed
    have cons: "ids_distinct (k # ks) \<longleftrightarrow> ids_distinct ks \<and> \<not> (\<exists>j \<in> set ks. strcasecmp_eq k j)" for ks
      by (auto simp: ids_distinct_def strcasecmp_eq_def image_iff)
    have "check_policy_keys (c # cs) cfg = Inr () \<longleftrightarrow>
        (\<exists>ks. map fst cs = map Some ks \<and> ids_distinct (k # ks)
          \<and> (\<forall>k \<in> set (k # ks). ag_config_find_antenna cfg k \<noteq> None))"
      using Some Cons.IH ex by (auto simp: cons split: if_splits)
    then show ?thesis using Some by (auto simp: Cons_eq_map_conv)
  qed
qed simp

subsection \<open>Numbers\<close>

lemma integer_withinD:
  assumes "integer_within (of_nat u) v"
  shows "\<exists>k :: nat. valueint v = int k \<and> 1 \<le> k \<and> k \<le> u"
proof -
  obtain i where v: "v = cJSON_Number (Finite (of_int i)) i"
    using assms by (cases v) auto
  then have "1 \<le> i" "rat_of_int i \<le> rat_of_int (int u)" using assms by auto
  then have "1 \<le> i" "i \<le> int u" by (simp_all only: of_int_le_iff)
  then show ?thesis using v by (intro exI [of _ "nat i"]) (simp add: nat_le_iff)
qed

lemma number_or_range:
  fixes absent :: "'w::len word"
  assumes "\<not> bad_number (of_nat u) item" and "u < 2 ^ LENGTH('w)"
  shows "(item = None \<and> number_or absent item = absent)
    \<or> (1 \<le> unat (number_or absent item) \<and> unat (number_or absent item) \<le> u)"
proof (cases item)
  case (Some v)
  then obtain k where k: "valueint v = int k" "1 \<le> k" "k \<le> u"
    using assms(1) integer_withinD [of u v] by (auto simp: bad_number_def)
  then have "unat (word_of_int (int k) :: 'w word) = k"
    using assms(2) k(3) by (simp add: unat_of_nat)
  then show ?thesis using Some k by (simp add: number_or_def)
qed (simp add: number_or_def)

subsection \<open>Well-formed configurations\<close>

definition radio_valid :: "ag_config \<Rightarrow> bool" where
  "radio_valid cfg \<longleftrightarrow>
     (case radio_mode cfg of
        AG_RADIO_DIRECT \<Rightarrow>
          host cfg \<noteq> [] \<and> length (host cfg) \<le> AG_MAX_HOST
            \<and> radio_serial cfg = [] \<and> discovery_ip cfg = []
      | AG_RADIO_DISCOVERY \<Rightarrow>
          host cfg = [] \<and> (radio_serial cfg \<noteq> [] \<or> discovery_ip cfg \<noteq> [])
            \<and> (radio_serial cfg = [] \<or> valid_radio_serial (radio_serial cfg))
            \<and> (discovery_ip cfg = [] \<or> length (discovery_ip cfg) \<le> AG_MAX_IPV4_TEXT
                \<and> inet_pton4 (discovery_ip cfg) \<noteq> None)
            \<and> port cfg = 4992 \<and> reconnect_seconds cfg = 3 \<and> reconnect_max_seconds cfg = 30
            \<and> reconnect_log_seconds cfg = 300)
     \<and> 1 \<le> unat (port cfg)
     \<and> 1 \<le> unat (reconnect_seconds cfg) \<and> unat (reconnect_seconds cfg) \<le> 300
     \<and> unat (reconnect_seconds cfg) \<le> unat (reconnect_max_seconds cfg)
     \<and> unat (reconnect_max_seconds cfg) \<le> 3600
     \<and> 1 \<le> unat (reconnect_log_seconds cfg) \<and> unat (reconnect_log_seconds cfg) \<le> 86400"

definition antennas_valid :: "ag_antenna_policy list \<Rightarrow> bool" where
  "antennas_valid ps \<longleftrightarrow>
     1 \<le> length ps \<and> length ps \<le> AG_MAX_ANTENNAS
     \<and> list_all (\<lambda>p. valid_antenna_id (antenna_id p)) ps
     \<and> ids_distinct (map antenna_id ps)
     \<and> (\<forall>p \<in> set ps. \<forall>n. bit (allowed_bands p) n \<longrightarrow> n < ag_band_count)"

definition config_valid :: "ag_config \<Rightarrow> bool" where
  "config_valid cfg \<longleftrightarrow> radio_valid cfg \<and> antennas_valid (antennas cfg)"

lemma good_host_iff: "good_host v \<longleftrightarrow> (\<exists>s. v = cJSON_String s \<and> s \<noteq> [] \<and> length s \<le> AG_MAX_HOST)"
  by (cases v) auto

lemma good_serial_iff: "good_serial v \<longleftrightarrow> (\<exists>s. v = cJSON_String s \<and> valid_radio_serial s)"
  by (cases v) auto

lemma good_discovery_ip_iff:
  "good_discovery_ip v \<longleftrightarrow>
    (\<exists>s. v = cJSON_String s \<and> length s \<le> AG_MAX_IPV4_TEXT \<and> inet_pton4 s \<noteq> None)"
  by (cases v) auto

lemma bad_item_iff: "\<not> bad_item good item \<longleftrightarrow> item = None \<or> (\<exists>v. item = Some v \<and> good v)"
  by (auto simp: bad_item_def split: option.splits)

lemma valid_serial_nonempty: "valid_radio_serial s \<Longrightarrow> s \<noteq> []"
  by (auto simp: valid_radio_serial_def)

lemma inet_pton4_Nil [simp]: "inet_pton4 [] = None"
  by code_simp

lemma parse_radio_valid:
  assumes "parse_radio tree cfg0 = Inr cfg"
  shows "radio_valid cfg \<and> antennas cfg = antennas cfg0"
proof -
  define radio where "radio = cJSON_GetObjectItemCaseSensitive tree ''radio''"
  define get where "get = cJSON_GetObjectItemCaseSensitive radio"
  define secs :: "32 word" where "secs = number_or 3 (get ''reconnect_seconds'')"
  define max_secs where
    "max_secs = number_or (if 30 < secs then secs else 30) (get ''reconnect_max_seconds'')"
  note names = radio_def [symmetric] get_def [symmetric] secs_def [symmetric] max_secs_def [symmetric]
  have
    sel: "\<not> (get ''host'' = None \<and> get ''serial'' = None \<and> get ''discovery_ip'' = None)" and
    mix: "\<not> (get ''host'' \<noteq> None \<and> (get ''serial'' \<noteq> None \<or> get ''discovery_ip'' \<noteq> None))" and
    ho: "\<not> bad_item good_host (get ''host'')" and
    se: "\<not> bad_item good_serial (get ''serial'')" and
    ip: "\<not> bad_item good_discovery_ip (get ''discovery_ip'')" and
    po: "\<not> bad_number 65535 (get ''port'')" and
    re: "\<not> bad_number 300 (get ''reconnect_seconds'')" and
    rm: "\<not> bad_number 3600 (get ''reconnect_max_seconds'')" and
    le: "\<not> max_secs < secs" and
    dis: "get ''host'' = None \<Longrightarrow> get ''port'' = None \<and> get ''reconnect_seconds'' = None
      \<and> get ''reconnect_max_seconds'' = None \<and> get ''reconnect_log_seconds'' = None" and
    rl: "\<not> bad_number 86400 (get ''reconnect_log_seconds'')" and
    cfg: "cfg = cfg0\<lparr>radio_mode := if get ''host'' = None then AG_RADIO_DISCOVERY else AG_RADIO_DIRECT,
        host := text_or_empty (get ''host''), radio_serial := text_or_empty (get ''serial''),
        discovery_ip := text_or_empty (get ''discovery_ip''), port := number_or 4992 (get ''port''),
        reconnect_seconds := secs, reconnect_max_seconds := max_secs,
        reconnect_log_seconds := number_or 300 (get ''reconnect_log_seconds'')\<rparr>"
    using assms unfolding parse_radio_def Let_def names
    by (auto split: if_splits)
  have secs: "1 \<le> unat secs \<and> unat secs \<le> 300"
    using number_or_range [of 300 "get ''reconnect_seconds''" "3 :: 32 word"] re by (auto simp: secs_def)
  have thirty: "unat secs \<le> 30" if "\<not> 30 < secs"
    using that by (simp add: word_less_nat_alt)
  have mx: "unat max_secs \<le> 3600"
    using number_or_range [of 3600 "get ''reconnect_max_seconds''" "if 30 < secs then secs else 30"]
      rm secs thirty by (auto simp: max_secs_def split: if_splits)
  have lt: "unat secs \<le> unat max_secs" using le by (simp add: word_less_nat_alt)
  have lg: "1 \<le> unat (reconnect_log_seconds cfg) \<and> unat (reconnect_log_seconds cfg) \<le> 86400"
    using number_or_range [of 86400 "get ''reconnect_log_seconds''" "300 :: 32 word"] rl by (auto simp: cfg)
  have pt: "1 \<le> unat (port cfg)"
    using number_or_range [of 65535 "get ''port''" "4992 :: 16 word"] po by (auto simp: cfg)
  have sels: "case radio_mode cfg of
        AG_RADIO_DIRECT \<Rightarrow>
          host cfg \<noteq> [] \<and> length (host cfg) \<le> AG_MAX_HOST
            \<and> radio_serial cfg = [] \<and> discovery_ip cfg = []
      | AG_RADIO_DISCOVERY \<Rightarrow>
          host cfg = [] \<and> (radio_serial cfg \<noteq> [] \<or> discovery_ip cfg \<noteq> [])
            \<and> (radio_serial cfg = [] \<or> valid_radio_serial (radio_serial cfg))
            \<and> (discovery_ip cfg = [] \<or> length (discovery_ip cfg) \<le> AG_MAX_IPV4_TEXT
                \<and> inet_pton4 (discovery_ip cfg) \<noteq> None)
            \<and> port cfg = 4992 \<and> reconnect_seconds cfg = 3 \<and> reconnect_max_seconds cfg = 30
            \<and> reconnect_log_seconds cfg = 300"
  proof (cases "get ''host''")
    case None
    then have "port cfg = 4992" "reconnect_seconds cfg = 3" "reconnect_max_seconds cfg = 30"
      "reconnect_log_seconds cfg = 300"
      using dis by (simp_all add: cfg number_or_def secs_def max_secs_def)
    moreover have "inet_pton4 (text_or_empty (get ''discovery_ip'')) \<noteq> None
        \<and> length (text_or_empty (get ''discovery_ip'')) \<le> 15" if "get ''discovery_ip'' \<noteq> None"
      using that ip by (auto simp: bad_item_iff good_discovery_ip_iff text_or_empty_def)
    moreover have "valid_radio_serial (text_or_empty (get ''serial''))" if "get ''serial'' \<noteq> None"
      using that se by (auto simp: bad_item_iff good_serial_iff text_or_empty_def)
    ultimately show ?thesis using None sel valid_serial_nonempty inet_pton4_Nil
      by (cases "get ''serial''"; cases "get ''discovery_ip''") (auto simp: cfg text_or_empty_def)
  next
    case (Some v)
    then show ?thesis using mix ho by (auto simp: cfg bad_item_iff good_host_iff text_or_empty_def)
  qed
  show ?thesis unfolding radio_valid_def using sels pt secs mx lt lg by (simp add: cfg)
qed

subsection \<open>The allow matrix\<close>

text \<open>What a document says: its policy lists band \<open>j\<close> in a row for antenna \<open>a\<close>.\<close>

definition json_permits :: "cJSON \<Rightarrow> string \<Rightarrow> nat \<Rightarrow> bool" where
  "json_permits tree a j \<longleftrightarrow>
     (\<exists>rows. (Some ''policy'', cJSON_Object rows) \<in> set (child (Some tree))
       \<and> (\<exists>(name, row) \<in> set rows. \<exists>bands. row = cJSON_Array bands
            \<and> (\<exists>s. name = Some s \<and> strcasecmp_eq s a)
            \<and> (\<exists>item \<in> set bands. lists_band item j)))"

lemma array_size: "length (child v) < 2 ^ 31 \<Longrightarrow> cJSON_GetArraySize v = int (length (child v))"
  by (simp add: cJSON_GetArraySize_def sint_uint signed_take_bit_int_eq_self_iff
      signed_take_bit_int_eq_self uint_nat unat_of_nat)

lemma object_iff: "cJSON_IsObject v \<longleftrightarrow> (\<exists>xs. v = Some (cJSON_Object xs))"
  by (cases v rule: cJSON_IsObject.cases) auto

lemma array_iff: "cJSON_IsArray v \<longleftrightarrow> (\<exists>xs. v = Some (cJSON_Array xs))"
  by (cases v rule: cJSON_IsArray.cases) auto

lemma within_child:
  "json_within n obj \<Longrightarrow> cJSON_IsObject (Some obj) \<Longrightarrow> all_named (child (Some obj))"
  by (auto simp: object_iff)

lemma within_get:
  assumes "json_within n obj" and "cJSON_IsObject (Some obj)"
    and "cJSON_GetObjectItemCaseSensitive (Some obj) k = Some v"
  shows "json_within n v \<and> (Some k, v) \<in> set (child (Some obj))"
proof -
  have "(Some k, v) \<in> set (child (Some obj))"
    using exact_lookup.get_Some [OF within_child [OF assms(1,2)] assms(3)] by blast
  then show ?thesis using assms(1,2) by (force simp: object_iff)
qed

lemma parse_antennas_valid:
  assumes "parse_antennas (Some tree) cfg0 = Inr cfg" and "antennas cfg0 = []"
    and "json_within n tree" and "cJSON_IsObject (Some tree)" and "n < 2 ^ 31"
  shows "antennas cfg \<noteq> [] \<and> length (antennas cfg) \<le> AG_MAX_ANTENNAS
    \<and> (\<exists>ids. antennas cfg = map fresh_antenna ids \<and> list_all valid_antenna_id ids \<and> ids_distinct ids)
    \<and> cfg = cfg0\<lparr>antennas := antennas cfg\<rparr>"
proof -
  define lock where "lock = cJSON_GetObjectItemCaseSensitive (Some tree) ''interlock''"
  define list_item where "list_item = cJSON_GetObjectItemCaseSensitive lock ''antennas''"
  have ob: "cJSON_IsObject lock" and ar: "cJSON_IsArray list_item"
    and sz: "1 \<le> cJSON_GetArraySize list_item" "cJSON_GetArraySize list_item \<le> 8"
    and add: "add_antennas (child list_item) [] = Inr (antennas cfg)"
    and cfg: "cfg = cfg0\<lparr>antennas := antennas cfg\<rparr>"
    using assms(1,2)
    by (auto simp: parse_antennas_def Let_def lock_def [symmetric] list_item_def [symmetric]
        split: if_splits)
  obtain lock_obj xs where l: "lock = Some lock_obj" and x: "list_item = Some (cJSON_Array xs)"
    using ob ar by (auto simp: object_iff array_iff)
  have "json_within n lock_obj"
    using within_get [OF assms(3,4)] l lock_def by metis
  then have "json_within n (cJSON_Array xs)"
    using within_get [of n lock_obj] ob l x list_item_def by metis
  then have "length xs < 2 ^ 31" using assms(5) by simp
  then have "1 \<le> length xs" "length xs \<le> 8" using sz array_size [of list_item] x by simp_all
  moreover obtain ids where ids: "map snd xs = map cJSON_String ids" "list_all valid_antenna_id ids"
    "ids_distinct ids" "antennas cfg = map fresh_antenna ids"
    using add x by (auto simp: add_antennas_iff)
  moreover from ids(1) have "length xs = length ids" by (metis length_map)
  ultimately show ?thesis using cfg by auto
qed

lemma parse_policy_bits:
  assumes "parse_policy (Some tree) cfg0 = Inr cfg" and "antennas cfg0 = map fresh_antenna ids"
    and "json_within n tree" and "cJSON_IsObject (Some tree)" and "ids_distinct ids"
    and "distinct (map fst (child (Some tree)))"
  shows "map antenna_id (antennas cfg) = ids \<and> cfg = cfg0\<lparr>antennas := antennas cfg\<rparr>
    \<and> (\<forall>p \<in> set (antennas cfg). \<forall>j. bit (allowed_bands p) j \<longleftrightarrow> json_permits tree (antenna_id p) j)
    \<and> (\<forall>a j. json_permits tree a j \<longrightarrow> (\<exists>i \<in> set ids. strcasecmp_eq i a))"
proof -
  define policy where "policy = cJSON_GetObjectItemCaseSensitive (Some tree) ''policy''"
  have ob: "cJSON_IsObject policy"
    and keys: "check_policy_keys (child policy) cfg0 = Inr ()"
    and rows: "set_bands policy (map fresh_antenna ids) = Inr (antennas cfg)"
    and cfg: "cfg = cfg0\<lparr>antennas := antennas cfg\<rparr>"
    using assms(1,2)
    by (auto simp: parse_policy_def Let_def policy_def [symmetric] split: if_splits)
  obtain xs where p: "policy = Some (cJSON_Object xs)" using ob by (auto simp: object_iff)
  have mem: "(Some ''policy'', cJSON_Object xs) \<in> set (child (Some tree))"
    and win: "json_within n (cJSON_Object xs)"
    using within_get [OF assms(3,4)] p policy_def by metis+
  have only: "ys = xs" if "(Some ''policy'', cJSON_Object ys) \<in> set (child (Some tree))" for ys
    using that mem assms(6) by (metis cJSON.inject(4) eq_key_imp_eq_value)
  obtain ks where ks: "map fst xs = map Some ks" "ids_distinct ks"
    "\<forall>k \<in> set ks. ag_config_find_antenna cfg0 k \<noteq> None"
    using keys p by (auto simp: check_policy_keys_iff)
  have ksmem: "s \<in> set ks" if "(Some s, v) \<in> set xs" for s v
  proof -
    have "Some s \<in> set (map fst xs)" using that by force
    then show ?thesis using ks(1) by auto
  qed
  have keys_unique: "s = s' \<and> v = v'"
    if "(Some s, v) \<in> set xs" "(Some s', v') \<in> set xs" "strcasecmp_eq s s'" for s v s' v'
  proof -
    have "distinct (map fst xs)"
      using ks(1,2) by (simp add: ids_distinct_def distinct_map inj_on_def)
    moreover have "s = s'" using ids_distinct_same [OF ks(2)] that ksmem by blast
    ultimately show ?thesis using that eq_key_imp_eq_value by metis
  qed
  have listed: "\<exists>i \<in> set ids. strcasecmp_eq i a" if jp: "json_permits tree a j" for a j
  proof -
    obtain s v where s: "(Some s, v) \<in> set xs" "strcasecmp_eq s a"
      using jp only by (fastforce simp: json_permits_def)
    then obtain q where "ag_config_find_antenna cfg0 s = Some q" using ks(3) ksmem by blast
    then have "q \<in> set (map fresh_antenna ids)" "strcasecmp_eq (antenna_id q) s"
      using find_antenna_Some [of cfg0 s q] assms(2) by simp_all
    then obtain i where "i \<in> set ids" "strcasecmp_eq i s" by (auto simp: fresh_antenna_def)
    then show ?thesis using s(2) strcasecmp_eq_trans by blast
  qed
  have row: "bit (allowed_bands q) j \<longleftrightarrow> json_permits tree (antenna_id q) j"
    and row_id: "antenna_id q = i"
    if get: "cJSON_GetObjectItem policy i = Some (cJSON_Array bands)"
      and add: "add_bands i bands 0 = Inr flags"
      and q: "q = (fresh_antenna i)\<lparr>allowed_bands := flags\<rparr>" for i bands flags q j
  proof -
    show "antenna_id q = i" by (simp add: q fresh_antenna_def)
    have bits: "bit flags j \<longleftrightarrow> (\<exists>item \<in> set bands. lists_band item j)"
      using add list_all2_lists_band by (auto simp: add_bands_iff)
    have "all_named (child policy)" using win p by simp
    then obtain s where s: "(Some s, cJSON_Array bands) \<in> set xs" "strcasecmp_eq i s"
      using nocase_lookup.get_Some [of policy i] get p by auto
    have "bands' = bands" if "(Some s', cJSON_Array bands') \<in> set xs" "strcasecmp_eq s' i" for s' bands'
      using keys_unique [OF that(1) s(1)] that(2) s(2) strcasecmp_eq_trans by blast
    then have "json_permits tree i j \<Longrightarrow> \<exists>item \<in> set bands. lists_band item j"
      unfolding json_permits_def using only by blast
    moreover have "json_permits tree i j" if "item \<in> set bands" "lists_band item j" for item
      unfolding json_permits_def using that s(1) strcasecmp_eq_sym [OF s(2)]
      by (intro exI [of _ xs] conjI mem bexI [of _ "(Some s, cJSON_Array bands)"]) auto
    ultimately have "json_permits tree i j \<longleftrightarrow> (\<exists>item \<in> set bands. lists_band item j)" by blast
    then show "bit (allowed_bands q) j \<longleftrightarrow> json_permits tree (antenna_id q) j"
      using bits by (simp add: q fresh_antenna_def)
  qed
  have all: "list_all2 (\<lambda>i q. antenna_id q = i \<and> (\<forall>j. bit (allowed_bands q) j \<longleftrightarrow> json_permits tree (antenna_id q) j))
      ids (antennas cfg)"
    using rows unfolding set_bands_iff list_all2_map1
  proof (rule list_all2_mono)
    fix i q
    assume "\<exists>bands flags. cJSON_GetObjectItem policy (antenna_id (fresh_antenna i)) = Some (cJSON_Array bands)
      \<and> add_bands (antenna_id (fresh_antenna i)) bands (allowed_bands (fresh_antenna i)) = Inr flags
      \<and> q = (fresh_antenna i)\<lparr>allowed_bands := flags\<rparr>"
    then obtain bands flags where "cJSON_GetObjectItem policy i = Some (cJSON_Array bands)"
      "add_bands i bands 0 = Inr flags" "q = (fresh_antenna i)\<lparr>allowed_bands := flags\<rparr>"
      unfolding fresh_antenna_def by auto
    from row [OF this] row_id [OF this] show "antenna_id q = i
      \<and> (\<forall>j. bit (allowed_bands q) j \<longleftrightarrow> json_permits tree (antenna_id q) j)" by blast
  qed
  then have "map antenna_id (antennas cfg) = ids"
    by (simp add: list_all2_conv_all_nth list_eq_iff_nth_eq)
  moreover have "\<forall>q \<in> set (antennas cfg). \<forall>j. bit (allowed_bands q) j \<longleftrightarrow> json_permits tree (antenna_id q) j"
    using all by (auto simp: list_all2_conv_all_nth in_set_conv_nth)
  ultimately show ?thesis using cfg listed by blast
qed

lemma radio_valid_antennas [simp]: "radio_valid (cfg\<lparr>antennas := ps\<rparr>) \<longleftrightarrow> radio_valid cfg"
  by (cases "radio_mode cfg") (simp_all add: radio_valid_def)

lemma parse_root_correct:
  assumes "parse_root (Some tree) = Inr cfg" and "json_within n tree" and "n < 2 ^ 31"
  shows "config_valid cfg"
    and "allowed (ag_policy_evaluate cfg True f (Some a)) \<longleftrightarrow>
      (\<exists>j < ag_band_count. in_band f (BANDS ! j) \<and> json_permits tree a j)"
proof -
  obtain cfg1 cfg2 where ob: "cJSON_IsObject (Some tree)"
    and keys: "reject_unknown_keys (child (Some tree)) ''root'' [''radio'', ''interlock'', ''policy''] = Inr ()"
    and radio: "parse_radio (Some tree) zero_config = Inr cfg1"
    and ants: "parse_antennas (Some tree) cfg1 = Inr cfg2"
    and pol: "parse_policy (Some tree) cfg2 = Inr cfg"
    using assms(1) by (auto simp: parse_root_def split: if_splits)
  have r: "radio_valid cfg1" "antennas cfg1 = []"
    using parse_radio_valid [OF radio] by (simp_all add: zero_config_def)
  obtain ids where a: "antennas cfg2 \<noteq> []" "length (antennas cfg2) \<le> AG_MAX_ANTENNAS"
    "antennas cfg2 = map fresh_antenna ids" "list_all valid_antenna_id ids" "ids_distinct ids"
    "cfg2 = cfg1\<lparr>antennas := antennas cfg2\<rparr>"
    using parse_antennas_valid [OF ants r(2) assms(2) ob assms(3)] by blast
  obtain ks where "map fst (child (Some tree)) = map Some ks" "distinct ks"
    using keys unfolding reject_unknown_keys_iff by blast
  then have "distinct (map fst (child (Some tree)))" by (simp add: distinct_map inj_on_def)
  note p = parse_policy_bits [OF pol a(3) assms(2) ob a(5) this]
  have "radio_valid cfg"
  proof -
    have "cfg = cfg1\<lparr>antennas := antennas cfg\<rparr>"
      using p a(6) by (metis ag_config.surjective ag_config.update_convs(9))
    then show ?thesis using r(1) radio_valid_antennas by metis
  qed
  moreover have "antennas_valid (antennas cfg)"
  proof -
    have ids: "map antenna_id (antennas cfg) = ids" using p by blast
    then have "length (antennas cfg) = length ids" by (metis length_map)
    moreover have "list_all (\<lambda>p. valid_antenna_id (antenna_id p)) (antennas cfg)"
      using a(4) ids by (auto simp: list_all_iff)
    moreover have "n < 11" if "q \<in> set (antennas cfg)" "bit (allowed_bands q) n" for q n
      using p that by (auto simp: json_permits_def lists_band_def)
    ultimately show ?thesis using a ids by (auto simp: antennas_valid_def Suc_le_eq)
  qed
  ultimately show "config_valid cfg" by (simp add: config_valid_def)
  have find: "band_permitted cfg a j \<longleftrightarrow> json_permits tree a j" for j
  proof (cases "ag_config_find_antenna cfg a")
    case None
    have "\<not> strcasecmp_eq i a" if "i \<in> set ids" for i
    proof -
      have "i \<in> set (map antenna_id (antennas cfg))" using p that by simp
      then show ?thesis using None by (auto simp: find_antenna_None)
    qed
    then show ?thesis using None p by (auto simp: band_permitted_def)
  next
    case (Some q)
    then have "q \<in> set (antennas cfg)" "strcasecmp_eq (antenna_id q) a"
      using find_antenna_Some by blast+
    moreover have "json_permits tree x j \<longleftrightarrow> json_permits tree y j" if "strcasecmp_eq x y" for x y
      using that by (simp add: json_permits_def strcasecmp_eq_def)
    ultimately show ?thesis using Some p by (auto simp: band_permitted_def)
  qed
  have "a \<noteq> []" if jp: "json_permits tree a j" for j
  proof
    assume "a = []"
    moreover obtain i where "i \<in> set ids" "strcasecmp_eq i a" using p jp by blast
    ultimately show False using a(4) by (auto simp: list_all_iff valid_antenna_id_def)
  qed
  then show "allowed (ag_policy_evaluate cfg True f (Some a)) \<longleftrightarrow>
      (\<exists>j < ag_band_count. in_band f (BANDS ! j) \<and> json_permits tree a j)"
    using find by (auto simp: evaluate_allowed)
qed

subsection \<open>Writing a configuration down\<close>

definition json_number :: "'w::len word \<Rightarrow> cJSON" where
  "json_number w = cJSON_Number (Finite (of_int (uint w))) (uint w)"

definition json_radio :: "ag_config \<Rightarrow> cJSON" where
  "json_radio cfg =
     cJSON_Object
       (if radio_mode cfg = AG_RADIO_DIRECT
        then [(Some ''host'', cJSON_String (host cfg)),
              (Some ''port'', json_number (port cfg)),
              (Some ''reconnect_seconds'', json_number (reconnect_seconds cfg)),
              (Some ''reconnect_max_seconds'', json_number (reconnect_max_seconds cfg)),
              (Some ''reconnect_log_seconds'', json_number (reconnect_log_seconds cfg))]
        else (if radio_serial cfg = [] then []
              else [(Some ''serial'', cJSON_String (radio_serial cfg))])
           @ (if discovery_ip cfg = [] then []
              else [(Some ''discovery_ip'', cJSON_String (discovery_ip cfg))]))"

definition json_bands :: "16 word \<Rightarrow> cJSON" where
  "json_bands flags =
     cJSON_Array (map (\<lambda>i. (None, cJSON_String (fst (band_limits ! i)))) (filter (bit flags) [0..<11]))"

definition config_to_json :: "ag_config \<Rightarrow> cJSON" where
  "config_to_json cfg =
     cJSON_Object
       [(Some ''radio'', json_radio cfg),
        (Some ''interlock'',
          cJSON_Object [(Some ''antennas'',
            cJSON_Array (map (\<lambda>p. (None, cJSON_String (antenna_id p))) (antennas cfg)))]),
        (Some ''policy'',
          cJSON_Object (map (\<lambda>p. (Some (antenna_id p), json_bands (allowed_bands p))) (antennas cfg)))]"

lemma number_or_json: "number_or absent (Some (json_number w)) = w"
  by (simp add: number_or_def json_number_def)

lemma json_number_ok:
  assumes "1 \<le> unat w" and "unat w \<le> u"
  shows "\<not> bad_number (of_nat u) (Some (json_number w))"
proof -
  have "int 1 \<le> int (unat w)" "int (unat w) \<le> int u" using assms by (simp_all only: of_nat_le_iff)
  then have "1 \<le> uint w" "uint w \<le> int u" by simp_all
  then have "(of_int 1 :: rat) \<le> of_int (uint w)" "(of_int (uint w) :: rat) \<le> of_int (int u)"
    by (simp_all only: of_int_le_iff)
  then show ?thesis
    by (simp add: bad_number_def json_number_def not_less del: of_int_uint)
qed

lemmas get_simps =
  cJSON_GetObjectItemCaseSensitive_def get_object_item_def

lemma parse_radio_json:
  assumes "radio_valid cfg"
  shows "parse_radio (Some (config_to_json cfg)) zero_config = Inr (cfg\<lparr>antennas := []\<rparr>)"
proof -
  have radio: "cJSON_GetObjectItemCaseSensitive (Some (config_to_json cfg)) ''radio'' = Some (json_radio cfg)"
    by (simp add: get_simps config_to_json_def)
  have v: "1 \<le> unat (port cfg)" "1 \<le> unat (reconnect_seconds cfg)" "unat (reconnect_seconds cfg) \<le> 300"
    "unat (reconnect_seconds cfg) \<le> unat (reconnect_max_seconds cfg)"
    "unat (reconnect_max_seconds cfg) \<le> 3600" "1 \<le> unat (reconnect_log_seconds cfg)"
    "unat (reconnect_log_seconds cfg) \<le> 86400"
    using assms by (simp_all add: radio_valid_def)
  have "unat (port cfg) < 2 ^ LENGTH(16)" by (rule unsigned_less)
  then have pm: "unat (port cfg) \<le> 65535" by simp
  have num: "\<not> bad_number 65535 (Some (json_number (port cfg)))"
    "\<not> bad_number 300 (Some (json_number (reconnect_seconds cfg)))"
    "\<not> bad_number 3600 (Some (json_number (reconnect_max_seconds cfg)))"
    "\<not> bad_number 86400 (Some (json_number (reconnect_log_seconds cfg)))"
    using json_number_ok [of "port cfg" 65535] json_number_ok [of "reconnect_seconds cfg" 300]
      json_number_ok [of "reconnect_max_seconds cfg" 3600]
      json_number_ok [of "reconnect_log_seconds cfg" 86400] v pm by simp_all
  have ord: "\<not> reconnect_max_seconds cfg < reconnect_seconds cfg"
    using v by (simp add: word_less_nat_alt)
  have keys: "reject_unknown_keys (child (Some (json_radio cfg))) ''radio'' radio_keys = Inr ()"
    by (cases "radio_mode cfg"; cases "radio_serial cfg = []"; cases "discovery_ip cfg = []")
      (simp_all add: json_radio_def radio_keys_def key_is_allowed_def)
  have ob: "cJSON_IsObject (Some (json_radio cfg))" by (simp add: json_radio_def)
  show ?thesis
  proof (cases "radio_mode cfg")
    case AG_RADIO_DIRECT
    then have h: "host cfg \<noteq> []" "length (host cfg) \<le> 255" "radio_serial cfg = []" "discovery_ip cfg = []"
      using assms by (simp_all add: radio_valid_def)
    have get: "cJSON_GetObjectItemCaseSensitive (Some (json_radio cfg)) k =
        map_of [(''host'', cJSON_String (host cfg)), (''port'', json_number (port cfg)),
          (''reconnect_seconds'', json_number (reconnect_seconds cfg)),
          (''reconnect_max_seconds'', json_number (reconnect_max_seconds cfg)),
          (''reconnect_log_seconds'', json_number (reconnect_log_seconds cfg))] k" for k
      using AG_RADIO_DIRECT by (simp add: get_simps json_radio_def)
    show ?thesis
      using AG_RADIO_DIRECT h num ord
      by (simp add: parse_radio_def radio keys ob get bad_item_def text_or_empty_def zero_config_def
          number_or_json)
  next
    case AG_RADIO_DISCOVERY
    then have h: "host cfg = []" "radio_serial cfg \<noteq> [] \<or> discovery_ip cfg \<noteq> []"
      "radio_serial cfg = [] \<or> valid_radio_serial (radio_serial cfg)"
      "discovery_ip cfg = [] \<or> length (discovery_ip cfg) \<le> AG_MAX_IPV4_TEXT
        \<and> inet_pton4 (discovery_ip cfg) \<noteq> None"
      "port cfg = 4992" "reconnect_seconds cfg = 3" "reconnect_max_seconds cfg = 30"
      "reconnect_log_seconds cfg = 300"
      using assms by (simp_all add: radio_valid_def)
    have get: "cJSON_GetObjectItemCaseSensitive (Some (json_radio cfg)) k =
        (if k = ''serial'' \<and> radio_serial cfg \<noteq> [] then Some (cJSON_String (radio_serial cfg))
         else if k = ''discovery_ip'' \<and> discovery_ip cfg \<noteq> [] then Some (cJSON_String (discovery_ip cfg))
         else None)" for k
      using AG_RADIO_DISCOVERY by (simp add: get_simps json_radio_def)
    show ?thesis
      using AG_RADIO_DISCOVERY h
      by (auto simp: parse_radio_def radio keys ob get bad_item_def bad_number_def number_or_def
          text_or_empty_def zero_config_def)
  qed
qed

lemma parse_antennas_json:
  assumes "antennas_valid (antennas cfg)"
  shows "parse_antennas (Some (config_to_json cfg)) (cfg\<lparr>antennas := []\<rparr>) =
    Inr (cfg\<lparr>antennas := map (\<lambda>p. fresh_antenna (antenna_id p)) (antennas cfg)\<rparr>)"
proof -
  let ?items = "map (\<lambda>p. (None :: string option, cJSON_String (antenna_id p))) (antennas cfg)"
  have l: "1 \<le> length ?items" "length ?items \<le> 8"
    using assms by (simp_all add: antennas_valid_def)
  then have "cJSON_GetArraySize (Some (cJSON_Array ?items)) = int (length ?items)"
    using array_size [of "Some (cJSON_Array ?items)"] by simp
  moreover have "add_antennas ?items [] = Inr (map (\<lambda>p. fresh_antenna (antenna_id p)) (antennas cfg))"
    using assms
    by (auto simp: add_antennas_iff antennas_valid_def list_all_iff intro!: exI [of _ "map antenna_id (antennas cfg)"])
  moreover have "antennas cfg \<noteq> []" using l by auto
  ultimately show ?thesis using l
    by (simp add: parse_antennas_def config_to_json_def get_simps Let_def key_is_allowed_def)
qed

lemma band_name_listed:
  assumes "i < 11"
  shows "lists_band (None, cJSON_String (fst (band_limits ! i))) j \<longleftrightarrow> j = i"
proof -
  have "b_name (BANDS ! i) = fst (band_limits ! i)"
    using assms by (simp add: BANDS_def mk_band_def split_beta)
  then have "ag_band_index (fst (band_limits ! i)) = int i" using assms by (simp add: ag_band_index_eq)
  then show ?thesis using assms by (auto simp: lists_band_def)
qed

lemma add_bands_json:
  assumes "\<forall>n. bit flags n \<longrightarrow> n < 11"
  shows "\<exists>bands. json_bands flags = cJSON_Array bands \<and> add_bands i bands 0 = Inr flags"
proof -
  define idx where "idx = filter (bit flags) [0..<11]"
  define items where "items = map (\<lambda>i. (None :: string option, cJSON_String (fst (band_limits ! i)))) idx"
  have idx: "set idx = {n. bit flags n}" "distinct idx" "\<forall>i \<in> set idx. i < 11"
    using assms by (auto simp: idx_def simp del: upt_rec_numeral)
  have "list_all2 lists_band items idx"
    unfolding items_def list_all2_map1
    by (rule list.rel_refl_strong) (use idx(3) in \<open>simp add: band_name_listed\<close>)
  then have "add_bands i items 0 = Inr flags"
    unfolding add_bands_iff using idx(1,2) by (intro exI [of _ idx]) simp
  then show ?thesis by (simp add: json_bands_def items_def idx_def del: upt_rec_numeral)
qed

lemma parse_policy_json:
  assumes "antennas_valid (antennas cfg)"
  shows "parse_policy (Some (config_to_json cfg))
      (cfg\<lparr>antennas := map (\<lambda>p. fresh_antenna (antenna_id p)) (antennas cfg)\<rparr>) = Inr cfg"
proof -
  let ?rows = "map (\<lambda>p. (Some (antenna_id p), json_bands (allowed_bands p))) (antennas cfg)"
  let ?fresh = "map (\<lambda>p. fresh_antenna (antenna_id p)) (antennas cfg)"
  let ?cfg = "cfg\<lparr>antennas := ?fresh\<rparr>"
  have get: "cJSON_GetObjectItemCaseSensitive (Some (config_to_json cfg)) ''policy'' = Some (cJSON_Object ?rows)"
    by (simp add: get_simps config_to_json_def)
  have dist: "ids_distinct (map antenna_id (antennas cfg))"
    using assms by (simp add: antennas_valid_def)
  have "ag_config_find_antenna ?cfg (antenna_id p) \<noteq> None" if "p \<in> set (antennas cfg)" for p
    using that strcasecmp_eq_refl unfolding find_antenna_None by (force simp: fresh_antenna_def)
  then have keys: "check_policy_keys ?rows ?cfg = Inr ()"
    unfolding check_policy_keys_iff using dist
    by (intro exI [of _ "map antenna_id (antennas cfg)"]) auto
  have row: "cJSON_GetObjectItem (Some (cJSON_Object ?rows)) (antenna_id p) = Some (json_bands (allowed_bands p))"
    if p: "p \<in> set (antennas cfg)" for p
  proof -
    have named: "all_named (child (Some (cJSON_Object ?rows)))"
      by (simp add: all_named_def list_all_iff)
    have "(Some (antenna_id p), json_bands (allowed_bands p)) \<in> set ?rows" using p by auto
    then have "cJSON_GetObjectItem (Some (cJSON_Object ?rows)) (antenna_id p) \<noteq> None"
      unfolding nocase_lookup.get_None [OF named] child.simps using strcasecmp_eq_refl by blast
    then obtain v where v: "cJSON_GetObjectItem (Some (cJSON_Object ?rows)) (antenna_id p) = Some v"
      by blast
    then obtain q where q: "q \<in> set (antennas cfg)" "v = json_bands (allowed_bands q)"
      "strcasecmp_eq (antenna_id p) (antenna_id q)"
      using nocase_lookup.get_Some [OF named v] by auto
    have "antenna_id p = antenna_id q"
      using q p by (intro ids_distinct_same [OF dist]) simp_all
    moreover have "inj_on antenna_id (set (antennas cfg))"
      using dist by (auto simp: ids_distinct_def distinct_map inj_on_def)
    ultimately have "q = p" using p q(1) by (auto dest: inj_onD)
    then show ?thesis using v q(2) by simp
  qed
  have "set_bands (Some (cJSON_Object ?rows)) ?fresh = Inr (antennas cfg)"
    unfolding set_bands_iff list_all2_map1
  proof (rule list.rel_refl_strong)
    fix p assume p: "p \<in> set (antennas cfg)"
    have "\<forall>n. bit (allowed_bands p) n \<longrightarrow> n < 11"
      using assms p by (auto simp: antennas_valid_def)
    then obtain bands where "json_bands (allowed_bands p) = cJSON_Array bands"
      "add_bands (antenna_id p) bands 0 = Inr (allowed_bands p)" using add_bands_json by blast
    then show "\<exists>bands flags. cJSON_GetObjectItem (Some (cJSON_Object ?rows)) (antenna_id (fresh_antenna (antenna_id p))) = Some (cJSON_Array bands)
        \<and> add_bands (antenna_id (fresh_antenna (antenna_id p))) bands (allowed_bands (fresh_antenna (antenna_id p))) = Inr flags
        \<and> p = (fresh_antenna (antenna_id p))\<lparr>allowed_bands := flags\<rparr>"
      using row [OF p] by (simp add: fresh_antenna_def)
  qed
  then show ?thesis by (simp add: parse_policy_def get keys)
qed

lemma parse_root_json:
  assumes "config_valid cfg"
  shows "parse_root (Some (config_to_json cfg)) = Inr cfg"
proof -
  have "reject_unknown_keys (child (Some (config_to_json cfg))) ''root''
      [''radio'', ''interlock'', ''policy''] = Inr ()"
    by (simp add: config_to_json_def key_is_allowed_def)
  moreover have "cJSON_IsObject (Some (config_to_json cfg))" by (simp add: config_to_json_def)
  moreover have "radio_valid cfg" "antennas_valid (antennas cfg)"
    using assms by (simp_all add: config_valid_def)
  ultimately show ?thesis
    by (simp add: parse_root_def parse_radio_json parse_antennas_json parse_policy_json)
qed

subsection \<open>The loader over any JSON parser\<close>

text \<open>
  What the loader relies on: the parser's trees are no larger than the text, and members
  have names.
\<close>

locale json_parser =
  fixes parse :: "string \<Rightarrow> cJSON option"
  assumes parse_within: "parse s = Some v \<Longrightarrow> json_within (length s + 1) v"
begin

lemma load_tree:
  assumes "ag_config_load parse path io = Inr cfg"
  shows "\<exists>contents tree. read_file path io = Inr contents \<and> parse (cstr contents) = Some tree
    \<and> parse_root (Some tree) = Inr cfg \<and> json_within (2 ^ 20 + 1) tree"
proof -
  obtain contents where c: "read_file path io = Inr contents" "parse_root (parse (cstr contents)) = Inr cfg"
    using assms by (auto simp: ag_config_load_def)
  then obtain tree where t: "parse (cstr contents) = Some tree"
    by (cases "parse (cstr contents)") (auto simp: parse_root_def)
  have "length contents \<le> 2 ^ 20"
    using c(1) by (cases io) (auto simp: AG_MAX_CONFIG_BYTES_def split: if_splits)
  then have "json_within (2 ^ 20 + 1) tree"
    using parse_within [OF t] length_cstr [of contents] by (elim json_within_mono) simp
  then show ?thesis using c t by auto
qed

lemma load_valid: "ag_config_load parse path io = Inr cfg \<Longrightarrow> config_valid cfg"
  using load_tree [of path io cfg] parse_root_correct(1) [of _ cfg "2 ^ 20 + 1"] by fastforce

lemma load_matrix:
  assumes "ag_config_load parse path io = Inr cfg"
  shows "\<exists>contents tree. read_file path io = Inr contents \<and> parse (cstr contents) = Some tree
    \<and> (\<forall>a f. allowed (ag_policy_evaluate cfg True f (Some a)) \<longleftrightarrow>
          (\<exists>j < ag_band_count. in_band f (BANDS ! j) \<and> json_permits tree a j))"
proof -
  obtain contents tree where t: "read_file path io = Inr contents" "parse (cstr contents) = Some tree"
    "parse_root (Some tree) = Inr cfg" "json_within (2 ^ 20 + 1) tree"
    using load_tree [OF assms] by blast
  then show ?thesis using parse_root_correct(2) [OF t(3,4)] by (intro exI conjI allI) simp_all
qed

end

end
