(* ===== verification/Json_Parse.thy ===== *)
theory Json_Parse
  imports Json
begin

text \<open>
  The parser of \<^verbatim>\<open>third_party/cJSON/cJSON.c\<close>: \<^verbatim>\<open>cJSON_Parse\<close> and what it calls.

  The buffer is the text that is left to read, the terminating NUL included, so advancing
  the offset drops characters; a step back over the last delimiter that the next step undoes
  is left out. A parse function returns \<open>None\<close> where the code returns false.
  Memory allocation is assumed to succeed.
\<close>

type_synonym 'a parse = "string \<Rightarrow> ('a \<times> string) option"

subsection \<open>White space\<close>

text \<open>At the end of the buffer the offset steps back to the last character.\<close>

definition buffer_skip_whitespace :: "string \<Rightarrow> string" where
  "buffer_skip_whitespace b =
     (if b = [] then []
      else case dropWhile (\<lambda>c. ord c \<le> 32) b of [] \<Rightarrow> [last b] | c # cs \<Rightarrow> c # cs)"

definition skip_utf8_bom :: "string \<Rightarrow> string" where
  "skip_utf8_bom b =
     (if 4 < length b \<and> take 3 b = [CHR 0xEF, CHR 0xBB, CHR 0xBF] then drop 3 b else b)"

subsection \<open>Numbers\<close>

definition number_char :: "char \<Rightarrow> bool" where
  "number_char c \<longleftrightarrow>
     isdigit c \<or> c = CHR ''+'' \<or> c = CHR ''-'' \<or> c = CHR ''e'' \<or> c = CHR ''E'' \<or> c = CHR ''.''"

text \<open>
  The saturating conversion; the value is a number, since no text of these characters
  spells \<^verbatim>\<open>nan\<close>.
\<close>

definition INT_MAX :: int where "INT_MAX = 2147483647"
definition INT_MIN :: int where "INT_MIN = - 2147483648"

definition saturated_int :: "binary64 \<Rightarrow> int" where
  "saturated_int d =
     (if Finite (of_int INT_MAX) \<le> d then INT_MAX
      else if d \<le> Finite (of_int INT_MIN) then INT_MIN
      else case d of Finite q \<Rightarrow> truncate_rat q | _ \<Rightarrow> 0)"

definition parse_number :: "cJSON parse" where
  "parse_number b =
     (let text = takeWhile number_char b;
          number = strtod text
      in if d_end number = text then None
         else Some (cJSON_Number (d_value number) (saturated_int (d_value number)),
                    drop (length text - length (d_end number)) b))"

subsection \<open>Strings\<close>

text \<open>Four hexadecimal digits; 0 if one of them is none.\<close>

definition parse_hex4 :: "string \<Rightarrow> nat" where
  "parse_hex4 s =
     (if list_all (is_digit_of 16) (take 4 s) then digits_value 16 (take 4 s) else 0)"

text \<open>The continuation bytes, last first, and what is left of the code point.\<close>

fun utf8_tail :: "nat \<Rightarrow> nat \<Rightarrow> nat \<times> string" where
  "utf8_tail 0 codepoint = (codepoint, [])"
| "utf8_tail (Suc n) codepoint =
     (case utf8_tail n (codepoint div 64) of
        (first, bytes) \<Rightarrow> (first, bytes @ [chr (and (or codepoint 0x80) 0xBF)]))"

definition utf8_encode :: "nat \<Rightarrow> string option" where
  "utf8_encode codepoint =
     (if codepoint < 0x80 then Some [chr (and codepoint 0x7F)]
      else if codepoint < 0x800
      then (case utf8_tail 1 codepoint of (first, bytes) \<Rightarrow> Some (chr (and (or first 0xC0) 0xFF) # bytes))
      else if codepoint < 0x10000
      then (case utf8_tail 2 codepoint of (first, bytes) \<Rightarrow> Some (chr (and (or first 0xE0) 0xFF) # bytes))
      else if codepoint \<le> 0x10FFFF
      then (case utf8_tail 3 codepoint of (first, bytes) \<Rightarrow> Some (chr (and (or first 0xF0) 0xFF) # bytes))
      else None)"

text \<open>
  \<^verbatim>\<open>utf16_literal_to_utf8\<close> on the input up to the closing quote: the length of the
  sequence and its bytes, or \<open>None\<close> for the length 0.
\<close>

definition utf16_literal_to_utf8 :: "string \<Rightarrow> (nat \<times> string) option" where
  "utf16_literal_to_utf8 input =
     (if length input < 6 then None
      else
        let first_code = parse_hex4 (drop 2 input)
        in if 0xDC00 \<le> first_code \<and> first_code \<le> 0xDFFF then None
           else if 0xD800 \<le> first_code \<and> first_code \<le> 0xDBFF then
             let second = drop 6 input
             in if length second < 6 then None
                else if second ! 0 \<noteq> CHR 0x5C \<or> second ! 1 \<noteq> CHR ''u'' then None
                else
                  let second_code = parse_hex4 (drop 2 second)
                  in if second_code < 0xDC00 \<or> 0xDFFF < second_code then None
                     else map_option (\<lambda>bytes. (12, bytes))
                            (utf8_encode (0x10000 + or (and first_code 0x3FF * 1024) (and second_code 0x3FF)))
           else map_option (\<lambda>bytes. (6, bytes)) (utf8_encode first_code))"

lemma utf16_length: "utf16_literal_to_utf8 input = Some (n, bytes) \<Longrightarrow> 6 \<le> n"
  by (auto simp: utf16_literal_to_utf8_def Let_def split: if_splits)

text \<open>The text before the closing quote, escapes kept, and the text after it.\<close>

fun scan_string :: "string \<Rightarrow> (string \<times> string) option" where
  "scan_string [] = None"
| "scan_string (c # cs) =
     (if c = CHR 0x22 then Some ([], cs)
      else if c = CHR 0x5C then
        (case cs of
           [] \<Rightarrow> None
         | d # ds \<Rightarrow> map_option (\<lambda>(body, rest). (c # d # body, rest)) (scan_string ds))
      else map_option (\<lambda>(body, rest). (c # body, rest)) (scan_string cs))"

definition simple_escape :: "char \<Rightarrow> char option" where
  "simple_escape d =
     (if d = CHR ''b'' then Some (CHR 0x08)
      else if d = CHR ''f'' then Some (CHR 0x0C)
      else if d = CHR ''n'' then Some (CHR 0x0A)
      else if d = CHR ''r'' then Some (CHR 0x0D)
      else if d = CHR ''t'' then Some (CHR 0x09)
      else if d = CHR 0x22 \<or> d = CHR 0x5C \<or> d = CHR ''/'' then Some d
      else None)"

function unescape :: "string \<Rightarrow> string option" where
  "unescape [] = Some []"
| "unescape (c # cs) =
     (if c \<noteq> CHR 0x5C then map_option (\<lambda>out. c # out) (unescape cs)
      else case cs of
        [] \<Rightarrow> None
      | d # ds \<Rightarrow>
          if d = CHR ''u'' then
            (case utf16_literal_to_utf8 (c # cs) of
               None \<Rightarrow> None
             | Some (sequence_length, bytes) \<Rightarrow>
                 map_option (\<lambda>out. bytes @ out) (unescape (drop sequence_length (c # cs))))
          else
            (case simple_escape d of
               None \<Rightarrow> None
             | Some e \<Rightarrow> map_option (\<lambda>out. e # out) (unescape ds)))"
  by pat_completeness auto
termination
  by (relation "measure length") (auto dest: utf16_length)

text \<open>The result is a C string: it ends at the first NUL of the output.\<close>

definition parse_string :: "string parse" where
  "parse_string b =
     (case b of
        [] \<Rightarrow> None
      | quote # text \<Rightarrow>
          if quote \<noteq> CHR 0x22 then None
          else case scan_string text of
            None \<Rightarrow> None
          | Some (body, rest) \<Rightarrow> map_option (\<lambda>out. (cstr out, rest)) (unescape body))"

subsection \<open>Arrays, objects and values\<close>

text \<open>
  The loops over elements and members run on fuel; each round consumes text, so the
  length of the text is enough. The parser of nested values is the parameter \<open>p\<close>.
\<close>

fun parse_elements :: "cJSON parse \<Rightarrow> nat \<Rightarrow> cjson_child list parse" where
  "parse_elements p 0 b = None"
| "parse_elements p (Suc n) b =
     (case p (buffer_skip_whitespace b) of
        None \<Rightarrow> None
      | Some (v, rest) \<Rightarrow>
          (case buffer_skip_whitespace rest of
             [] \<Rightarrow> None
           | c # cs \<Rightarrow>
               if c = CHR '','' then map_option (\<lambda>(vs, r). ((None, v) # vs, r)) (parse_elements p n cs)
               else if c = CHR '']'' then Some ([(None, v)], cs)
               else None))"

definition parse_array :: "cJSON parse \<Rightarrow> cJSON parse" where
  "parse_array p b =
     (case b of
        [] \<Rightarrow> None
      | bracket # text \<Rightarrow>
          if bracket \<noteq> CHR ''['' then None
          else case buffer_skip_whitespace text of
            [] \<Rightarrow> None
          | c # cs \<Rightarrow>
              if c = CHR '']'' then Some (cJSON_Array [], cs)
              else map_option (\<lambda>(vs, r). (cJSON_Array vs, r)) (parse_elements p (length b) (c # cs)))"

fun parse_members :: "cJSON parse \<Rightarrow> nat \<Rightarrow> cjson_child list parse" where
  "parse_members p 0 b = None"
| "parse_members p (Suc n) b =
     (if b = [] then None
      else case parse_string (buffer_skip_whitespace b) of
        None \<Rightarrow> None
      | Some (name, rest) \<Rightarrow>
          (case buffer_skip_whitespace rest of
             [] \<Rightarrow> None
           | colon # text \<Rightarrow>
               if colon \<noteq> CHR '':'' then None
               else case p (buffer_skip_whitespace text) of
                 None \<Rightarrow> None
               | Some (v, rest') \<Rightarrow>
                   (case buffer_skip_whitespace rest' of
                      [] \<Rightarrow> None
                    | c # cs \<Rightarrow>
                        if c = CHR '',''
                        then map_option (\<lambda>(vs, r). ((Some name, v) # vs, r)) (parse_members p n cs)
                        else if c = CHR ''}'' then Some ([(Some name, v)], cs)
                        else None)))"

definition parse_object :: "cJSON parse \<Rightarrow> cJSON parse" where
  "parse_object p b =
     (case b of
        [] \<Rightarrow> None
      | brace # text \<Rightarrow>
          if brace \<noteq> CHR ''{'' then None
          else case buffer_skip_whitespace text of
            [] \<Rightarrow> None
          | c # cs \<Rightarrow>
              if c = CHR ''}'' then Some (cJSON_Object [], cs)
              else map_option (\<lambda>(vs, r). (cJSON_Object vs, r)) (parse_members p (length b) (c # cs)))"

text \<open>
  One value. \<open>nested\<close> is the parser one level deeper, or \<open>None\<close> when \<^verbatim>\<open>depth\<close> has reached
  the limit.
\<close>

definition parse_value_with :: "cJSON parse option \<Rightarrow> cJSON parse" where
  "parse_value_with nested b =
     (if starts_with ''null'' b then Some (cJSON_NULL, drop 4 b)
      else if starts_with ''false'' b then Some (cJSON_False, drop 5 b)
      else if starts_with ''true'' b then Some (cJSON_True, drop 4 b)
      else case b of
        [] \<Rightarrow> None
      | c # cs \<Rightarrow>
          if c = CHR 0x22 then map_option (\<lambda>(s, r). (cJSON_String s, r)) (parse_string b)
          else if c = CHR ''-'' \<or> isdigit c then parse_number b
          else if c = CHR ''['' then
            (case nested of None \<Rightarrow> None | Some p \<Rightarrow> parse_array p b)
          else if c = CHR ''{'' then
            (case nested of None \<Rightarrow> None | Some p \<Rightarrow> parse_object p b)
          else None)"

text \<open>\<^verbatim>\<open>parse_value\<close> with the number of nesting levels still allowed.\<close>

fun parse_value :: "nat \<Rightarrow> cJSON parse" where
  "parse_value 0 b = parse_value_with None b"
| "parse_value (Suc levels) b = parse_value_with (Some (parse_value levels)) b"

definition CJSON_NESTING_LIMIT :: nat where "CJSON_NESTING_LIMIT = 1000"

text \<open>
  \<^verbatim>\<open>cJSON_Parse\<close>: what follows the value is not looked at, because
  \<^verbatim>\<open>require_null_terminated\<close> is 0.
\<close>

definition cJSON_Parse :: "string \<Rightarrow> cJSON option" where
  "cJSON_Parse s =
     map_option fst
       (parse_value CJSON_NESTING_LIMIT (buffer_skip_whitespace (skip_utf8_bom (s @ [NUL]))))"

subsection \<open>Every parser consumes text\<close>

definition consumes :: "'a parse \<Rightarrow> bool" where
  "consumes p \<longleftrightarrow> (\<forall>b v r. p b = Some (v, r) \<longrightarrow> length r < length b)"

lemma consumesD: "consumes p \<Longrightarrow> p b = Some (v, r) \<Longrightarrow> length r < length b"
  by (simp add: consumes_def)

lemma skip_whitespace_length: "length (buffer_skip_whitespace b) \<le> length b"
proof (cases "b = [] \<or> dropWhile (\<lambda>c. ord c \<le> 32) b = []")
  case True
  then show ?thesis by (cases b) (auto simp: buffer_skip_whitespace_def split: list.splits)
next
  case False
  then have "buffer_skip_whitespace b = dropWhile (\<lambda>c. ord c \<le> 32) b"
    by (auto simp: buffer_skip_whitespace_def split: list.splits)
  then show ?thesis by (simp add: length_dropWhile_le)
qed

lemma skip_whitespace_Cons:
  "buffer_skip_whitespace b = c # cs \<Longrightarrow> length cs < length b"
  using skip_whitespace_length [of b] by simp

lemma skip_bom_length: "length (skip_utf8_bom b) \<le> length b"
  by (simp add: skip_utf8_bom_def)

definition tail_of :: "string \<Rightarrow> string \<Rightarrow> bool" where
  "tail_of t s \<longleftrightarrow> (\<exists>k. t = drop k s)"

lemma tail_of_refl [simp, intro]: "tail_of s s"
  unfolding tail_of_def by (rule exI [of _ 0]) simp

lemma tail_of_trans: "tail_of a b \<Longrightarrow> tail_of b c \<Longrightarrow> tail_of a c"
  by (auto simp: tail_of_def)

lemma tail_of_drop [intro]: "tail_of (drop k s) s"
  by (auto simp: tail_of_def)

lemma tail_of_Cons: "tail_of cs (c # cs)"
  unfolding tail_of_def by (rule exI [of _ 1]) simp

lemma tail_of_dropWhile: "tail_of (dropWhile P s) s"
  by (simp add: tail_of_def dropWhile_eq_drop) blast

lemma tail_of_shorter: "tail_of t s \<Longrightarrow> t \<noteq> s \<Longrightarrow> length t < length s"
  by (auto simp: tail_of_def) (metis diff_less drop_0 drop_Nil gr_zeroI length_greater_0_conv)

lemmas tail_of_rules =
  tail_of_refl tail_of_drop tail_of_Cons tail_of_dropWhile

lemma read_sign_tail: "tail_of (snd (read_sign s)) s"
  by (auto simp: read_sign_def split: list.split intro: tail_of_rules)

lemma read_exponent_tail: "tail_of (snd (read_exponent e s)) s"
proof (cases s)
  case (Cons c cs)
  obtain neg t where rs: "read_sign cs = (neg, t)" by fastforce
  then have "tail_of t cs" using read_sign_tail [of cs] by simp
  then have "tail_of (dropWhile isdigit t) (c # cs)"
    by (meson tail_of_dropWhile tail_of_Cons tail_of_trans)
  then show ?thesis using Cons rs by (auto simp: read_exponent_def Let_def)
qed (simp add: read_exponent_def)

lemma read_mantissa_tail:
  assumes "read_mantissa base s = Some (d1, d2, r)"
  shows "tail_of r s"
proof (cases "dropWhile (is_digit_of base) s")
  case Nil
  then have "r = dropWhile (is_digit_of base) s"
    using assms by (simp add: read_mantissa_def Let_def del: dropWhile_eq_Nil_conv split: if_splits)
  then show ?thesis using tail_of_dropWhile by simp
next
  case (Cons c cs)
  then have "r = dropWhile (is_digit_of base) cs \<or> r = c # cs"
    using assms by (auto simp: read_mantissa_def Let_def split: if_splits)
  then have "tail_of r (c # cs)"
    by (metis tail_of_refl tail_of_dropWhile tail_of_Cons tail_of_trans)
  then show ?thesis using Cons tail_of_dropWhile tail_of_trans by metis
qed

lemma read_decimal_tail: "read_decimal s = Some (q, r) \<Longrightarrow> tail_of r s"
  by (auto simp: read_decimal_def Let_def split: option.splits prod.splits)
    (metis read_mantissa_tail read_exponent_tail snd_conv tail_of_trans)

lemma read_hex_tail: "read_hex s = Some (q, r) \<Longrightarrow> tail_of r s"
  by (auto simp: read_hex_def Let_def split: option.splits prod.splits)
    (metis read_mantissa_tail read_exponent_tail snd_conv tail_of_trans)

lemma skip_nan_payload_tail: "tail_of (skip_nan_payload s) s"
proof (cases s)
  case (Cons c cs)
  show ?thesis
  proof (cases "dropWhile (\<lambda>c. isalnum c \<or> c = CHR ''_'') cs")
    case Nil
    then show ?thesis using Cons
      by (auto simp: skip_nan_payload_def simp del: dropWhile_eq_Nil_conv)
  next
    case (Cons d ds)
    then have "tail_of ds cs" by (metis tail_of_dropWhile tail_of_Cons tail_of_trans)
    then have "tail_of ds (c # cs)" using tail_of_Cons tail_of_trans by blast
    then show ?thesis using Cons \<open>s = c # cs\<close> by (auto simp: skip_nan_payload_def)
  qed
qed (simp add: skip_nan_payload_def)

lemma strtod_tail: "tail_of (d_end (strtod s)) s"
proof -
  obtain neg t where rs: "read_sign (skip_space s) = (neg, t)" by fastforce
  have t: "tail_of t s"
    using read_sign_tail [of "skip_space s"] rs tail_of_dropWhile [of isspace s]
    by (auto simp: skip_space_def intro: tail_of_trans)
  have n: "tail_of (skip_nan_payload (drop 3 t)) s"
    using skip_nan_payload_tail tail_of_drop t tail_of_trans by blast
  have h: "tail_of r s" if "read_hex (drop 2 t) = Some (q, r)" for q r
    using read_hex_tail [OF that] tail_of_drop t tail_of_trans by blast
  have d: "tail_of r s" if "read_decimal t = Some (q, r)" for q r
    using read_decimal_tail [OF that] t tail_of_trans by blast
  have k: "tail_of (drop k t) s" for k using tail_of_drop t tail_of_trans by blast
  show ?thesis
    unfolding strtod_def Let_def rs
    by (auto simp: number_result_def k n split: option.split dest: h d)
qed

lemma parse_number_consumes: "consumes parse_number"
  unfolding consumes_def
proof (intro allI impI)
  fix b v r
  define tx where "tx = takeWhile number_char b"
  assume p: "parse_number b = Some (v, r)"
  then have "d_end (strtod tx) \<noteq> tx"
    by (auto simp: parse_number_def Let_def tx_def split: if_splits)
  then have l: "length (d_end (strtod tx)) < length tx"
    by (intro tail_of_shorter strtod_tail)
  have "length tx \<le> length b" by (simp add: tx_def length_takeWhile_le)
  moreover have "r = drop (length tx - length (d_end (strtod tx))) b"
    using p by (auto simp: parse_number_def Let_def tx_def split: if_splits)
  ultimately show "length r < length b" using l by simp
qed

lemma scan_string_length: "scan_string s = Some (body, r) \<Longrightarrow> length r < length s"
  by (induction s arbitrary: body r rule: scan_string.induct)
    (fastforce split: if_splits list.splits intro: less_SucI)+

lemma parse_string_consumes: "consumes parse_string"
  by (auto simp: consumes_def parse_string_def split: list.splits if_splits option.splits
      dest!: scan_string_length)

text \<open>The loops take at least one character for each child.\<close>

lemma parse_elements_length:
  assumes "consumes p"
  shows "parse_elements p n b = Some (vs, r) \<Longrightarrow> length vs + length r \<le> length b"
proof (induction n arbitrary: b vs r)
  case (Suc n)
  from Suc.prems obtain v rest c cs where
    p: "p (buffer_skip_whitespace b) = Some (v, rest)" and
    c: "buffer_skip_whitespace rest = c # cs"
    by (auto split: option.splits list.splits)
  have l: "length cs < length b"
    using consumesD [OF assms p] skip_whitespace_Cons [OF c] skip_whitespace_length [of b] by simp
  show ?case
  proof (cases "c = CHR '',''")
    case True
    then obtain vs' where "parse_elements p n cs = Some (vs', r)" "vs = (None, v) # vs'"
      using Suc.prems p c by auto
    then show ?thesis using Suc.IH l by fastforce
  next
    case False
    then show ?thesis using Suc.prems p c l by (auto split: if_splits)
  qed
qed simp

lemma parse_members_length:
  assumes "consumes p"
  shows "parse_members p n b = Some (vs, r) \<Longrightarrow> length vs + length r \<le> length b \<and> all_named vs"
proof (induction n arbitrary: b vs r)
  case (Suc n)
  from Suc.prems obtain name rest tx v rest' c cs where
    k: "parse_string (buffer_skip_whitespace b) = Some (name, rest)" and
    t: "buffer_skip_whitespace rest = CHR '':'' # tx" and
    p: "p (buffer_skip_whitespace tx) = Some (v, rest')" and
    c: "buffer_skip_whitespace rest' = c # cs"
    by (auto split: option.splits list.splits if_splits)
  have "b \<noteq> []" using Suc.prems by auto
  have l: "length cs < length b"
    using consumesD [OF parse_string_consumes k] consumesD [OF assms p] skip_whitespace_Cons [OF c]
      skip_whitespace_Cons [OF t] skip_whitespace_length [of b] skip_whitespace_length [of tx]
    by simp
  show ?case
  proof (cases "c = CHR '',''")
    case True
    then obtain vs' where "parse_members p n cs = Some (vs', r)" "vs = (Some name, v) # vs'"
      using Suc.prems \<open>b \<noteq> []\<close> k t p c by auto
    then show ?thesis using Suc.IH l by (fastforce simp: all_named_def)
  next
    case False
    then show ?thesis using Suc.prems \<open>b \<noteq> []\<close> k t p c l by (auto simp: all_named_def split: if_splits)
  qed
qed simp

lemma parse_array_length:
  assumes "consumes p" and "parse_array p b = Some (v, r)"
  shows "\<exists>vs. v = cJSON_Array vs \<and> length vs + length r < length b
    \<and> (vs = [] \<or> (\<exists>n t. parse_elements p n t = Some (vs, r) \<and> length t \<le> length b))"
proof -
  from assms(2) obtain tx c cs where b: "b = CHR ''['' # tx" and t: "buffer_skip_whitespace tx = c # cs"
    by (auto simp: parse_array_def split: list.splits if_splits)
  have l: "length (c # cs) < length b" using skip_whitespace_length [of tx] t b by simp
  show ?thesis
  proof (cases "c = CHR '']''")
    case True
    then show ?thesis using assms(2) b t l by (auto simp: parse_array_def)
  next
    case False
    then obtain vs where e: "parse_elements p (length b) (c # cs) = Some (vs, r)" "v = cJSON_Array vs"
      using assms(2) b t by (auto simp: parse_array_def simp del: parse_elements.simps)
    then show ?thesis using parse_elements_length [OF assms(1) e(1)] l by (auto simp del: parse_elements.simps intro!: exI [of _ "c # cs"])
  qed
qed

lemma parse_object_length:
  assumes "consumes p" and "parse_object p b = Some (v, r)"
  shows "\<exists>vs. v = cJSON_Object vs \<and> length vs + length r < length b
    \<and> (vs = [] \<or> (\<exists>n t. parse_members p n t = Some (vs, r) \<and> length t \<le> length b))"
proof -
  from assms(2) obtain tx c cs where b: "b = CHR ''{'' # tx" and t: "buffer_skip_whitespace tx = c # cs"
    by (auto simp: parse_object_def split: list.splits if_splits)
  have l: "length (c # cs) < length b" using skip_whitespace_length [of tx] t b by simp
  show ?thesis
  proof (cases "c = CHR ''}''")
    case True
    then show ?thesis using assms(2) b t l by (auto simp: parse_object_def)
  next
    case False
    then obtain vs where e: "parse_members p (length b) (c # cs) = Some (vs, r)" "v = cJSON_Object vs"
      using assms(2) b t by (auto simp: parse_object_def simp del: parse_members.simps)
    then show ?thesis using parse_members_length [OF assms(1) e(1)] l by (auto simp del: parse_members.simps intro!: exI [of _ "c # cs"])
  qed
qed

lemma parse_value_with_consumes:
  assumes "\<And>p. nested = Some p \<Longrightarrow> consumes p"
  shows "consumes (parse_value_with nested)"
proof -
  have "length r < length b" if pv: "parse_value_with nested b = Some (v, r)" for b v r
  proof -
    have b: "b \<noteq> []" using pv by (auto simp: parse_value_with_def starts_with_def)
    consider "r = drop 4 b" | "r = drop 5 b" | s where "parse_string b = Some (s, r)"
      | "parse_number b = Some (v, r)" | p where "nested = Some p" "parse_array p b = Some (v, r)"
      | p where "nested = Some p" "parse_object p b = Some (v, r)"
      using pv unfolding parse_value_with_def
      by (auto split: if_splits list.splits option.splits)
    then show ?thesis
    proof cases
      case 5
      then show ?thesis using parse_array_length [OF assms] by fastforce
    next
      case 6
      then show ?thesis using parse_object_length [OF assms] by fastforce
    qed (use b parse_number_consumes parse_string_consumes in \<open>auto dest: consumesD\<close>)
  qed
  then show ?thesis by (auto simp: consumes_def)
qed

lemma parse_value_consumes: "consumes (parse_value levels)"
proof (induction levels)
  case 0
  have "consumes (parse_value_with None)" by (rule parse_value_with_consumes) simp
  then show ?case by (simp add: consumes_def)
next
  case (Suc levels)
  then have "consumes (parse_value_with (Some (parse_value levels)))"
    by (intro parse_value_with_consumes) simp
  then show ?case by (simp add: consumes_def)
qed

subsection \<open>The fuel of the loops is enough\<close>

lemma parse_elements_fuel:
  assumes "consumes p"
  shows "length b \<le> n \<Longrightarrow> length b \<le> m \<Longrightarrow> parse_elements p n b = parse_elements p m b"
proof (induction n arbitrary: b m)
  case 0
  then have "p (buffer_skip_whitespace b) = None"
    using assms by (cases "p (buffer_skip_whitespace b)")
      (auto simp: buffer_skip_whitespace_def dest: consumesD)
  then show ?case by (cases m) simp_all
next
  case (Suc n)
  have stop: "p (buffer_skip_whitespace []) = None"
    using assms by (cases "p []") (auto simp: buffer_skip_whitespace_def dest: consumesD)
  show ?case
  proof (cases m)
    case 0
    then show ?thesis using Suc.prems stop by simp
  next
    case (Suc m')
    have IH: "parse_elements p n cs = parse_elements p m' cs" if "length cs < length b" for cs
      using Suc.IH [of cs m'] Suc.prems that Suc by simp
    have "parse_elements p n cs = parse_elements p m' cs"
      if "p (buffer_skip_whitespace b) = Some (v, rest)" "buffer_skip_whitespace rest = c # cs"
      for v rest c cs
      using consumesD [OF assms that(1)] skip_whitespace_Cons [OF that(2)]
        skip_whitespace_length [of b] by (intro IH) simp
    then show ?thesis using Suc by (auto split: option.split list.split)
  qed
qed

lemma parse_members_fuel:
  assumes "consumes p"
  shows "length b \<le> n \<Longrightarrow> length b \<le> m \<Longrightarrow> parse_members p n b = parse_members p m b"
proof (induction n arbitrary: b m)
  case 0
  then show ?case by (cases m) simp_all
next
  case (Suc n)
  show ?case
  proof (cases m)
    case 0
    then show ?thesis using Suc.prems by simp
  next
    case (Suc m')
    have IH: "parse_members p n cs = parse_members p m' cs" if "length cs < length b" for cs
      using Suc.IH [of cs m'] Suc.prems that Suc by simp
    have "parse_members p n cs = parse_members p m' cs"
      if "parse_string (buffer_skip_whitespace b) = Some (name, rest)"
        "buffer_skip_whitespace rest = colon # tx"
        "p (buffer_skip_whitespace tx) = Some (v, rest')"
        "buffer_skip_whitespace rest' = c # cs"
      for name rest colon tx v rest' c cs
      using consumesD [OF parse_string_consumes that(1)] skip_whitespace_Cons [OF that(2)]
        consumesD [OF assms that(3)] skip_whitespace_Cons [OF that(4)]
        skip_whitespace_length [of b] skip_whitespace_length [of tx] by (intro IH) simp
    then show ?thesis using Suc by (auto split: option.split list.split)
  qed
qed

subsection \<open>The parsed tree\<close>

lemma parse_elements_children:
  assumes "consumes p"
  shows "parse_elements p n b = Some (vs, r) \<Longrightarrow> x \<in> set vs \<Longrightarrow>
    \<exists>t r'. p t = Some (snd x, r') \<and> length t \<le> length b"
proof (induction n arbitrary: b vs r)
  case (Suc n)
  from Suc.prems obtain v rest c cs where
    p: "p (buffer_skip_whitespace b) = Some (v, rest)" and
    c: "buffer_skip_whitespace rest = c # cs"
    by (auto split: option.splits list.splits)
  have l: "length cs < length b"
    using consumesD [OF assms p] skip_whitespace_Cons [OF c] skip_whitespace_length [of b] by simp
  show ?case
  proof (cases "snd x = v")
    case True
    then show ?thesis using p skip_whitespace_length [of b] by blast
  next
    case False
    then obtain vs' where "parse_elements p n cs = Some (vs', r)" "x \<in> set vs'"
      using Suc.prems p c by (auto split: if_splits)
    then show ?thesis using Suc.IH [of cs vs' r] l by fastforce
  qed
qed simp

lemma parse_members_children:
  assumes "consumes p"
  shows "parse_members p n b = Some (vs, r) \<Longrightarrow> x \<in> set vs \<Longrightarrow>
    \<exists>t r'. p t = Some (snd x, r') \<and> length t \<le> length b"
proof (induction n arbitrary: b vs r)
  case (Suc n)
  from Suc.prems obtain name rest tx v rest' c cs where
    k: "parse_string (buffer_skip_whitespace b) = Some (name, rest)" and
    t: "buffer_skip_whitespace rest = CHR '':'' # tx" and
    p: "p (buffer_skip_whitespace tx) = Some (v, rest')" and
    c: "buffer_skip_whitespace rest' = c # cs"
    by (auto split: option.splits list.splits if_splits)
  have b: "b \<noteq> []" using Suc.prems by auto
  have lt: "length (buffer_skip_whitespace tx) \<le> length b"
    using consumesD [OF parse_string_consumes k] skip_whitespace_Cons [OF t]
      skip_whitespace_length [of b] skip_whitespace_length [of tx] by simp
  then have l: "length cs < length b"
    using consumesD [OF assms p] skip_whitespace_Cons [OF c] by simp
  show ?case
  proof (cases "snd x = v")
    case True
    then show ?thesis using p lt by blast
  next
    case False
    then obtain vs' where "parse_members p n cs = Some (vs', r)" "x \<in> set vs'"
      using Suc.prems k t p c b by (auto split: if_splits)
    then show ?thesis using Suc.IH [of cs vs' r] l by fastforce
  qed
qed simp

lemma parse_value_with_within:
  assumes "\<And>p. nested = Some p \<Longrightarrow> consumes p"
    and "\<And>p b v r. nested = Some p \<Longrightarrow> p b = Some (v, r) \<Longrightarrow> json_within (length b) v"
    and pv: "parse_value_with nested b = Some (v, r)"
  shows "json_within (length b) v"
proof -
  consider "v = cJSON_NULL" | "v = cJSON_False" | "v = cJSON_True" | s where "v = cJSON_String s"
    | "parse_number b = Some (v, r)"
    | p where "nested = Some p" "parse_array p b = Some (v, r)"
    | p where "nested = Some p" "parse_object p b = Some (v, r)"
    using pv unfolding parse_value_with_def
    by (auto split: if_splits list.splits option.splits)
  then show ?thesis
  proof cases
    case 5
    then show ?thesis by (auto simp: parse_number_def Let_def split: if_splits)
  next
    case (6 p)
    then obtain vs where vs: "v = cJSON_Array vs" "length vs + length r < length b"
      and el: "vs = [] \<or> (\<exists>n t. parse_elements p n t = Some (vs, r) \<and> length t \<le> length b)"
      using parse_array_length assms(1) by metis
    have "json_within (length b) (snd x)" if x: "x \<in> set vs" for x
    proof -
      have "vs \<noteq> []" using x by (cases vs) auto
      then obtain n t where "parse_elements p n t = Some (vs, r)" "length t \<le> length b"
        using el by blast
      then obtain u r' where "p u = Some (snd x, r')" "length u \<le> length b"
        using parse_elements_children [OF assms(1) [OF 6(1)] _ x] by (meson le_trans)
      then show ?thesis using assms(2) [OF 6(1)] json_within_mono by blast
    qed
    then show ?thesis using vs by simp
  next
    case (7 p)
    then obtain vs where vs: "v = cJSON_Object vs" "length vs + length r < length b"
      and el: "vs = [] \<or> (\<exists>n t. parse_members p n t = Some (vs, r) \<and> length t \<le> length b)"
      using parse_object_length assms(1) by metis
    have "json_within (length b) (snd x)" if x: "x \<in> set vs" for x
    proof -
      have "vs \<noteq> []" using x by (cases vs) auto
      then obtain n t where "parse_members p n t = Some (vs, r)" "length t \<le> length b"
        using el by blast
      then obtain u r' where "p u = Some (snd x, r')" "length u \<le> length b"
        using parse_members_children [OF assms(1) [OF 7(1)] _ x] by (meson le_trans)
      then show ?thesis using assms(2) [OF 7(1)] json_within_mono by blast
    qed
    moreover have "all_named vs"
      using el parse_members_length assms(1) [OF 7(1)] by (auto simp: all_named_def)
    ultimately show ?thesis using vs by simp
  qed simp_all
qed

lemma parse_value_within: "parse_value levels b = Some (v, r) \<Longrightarrow> json_within (length b) v"
proof (induction levels arbitrary: b v r)
  case 0
  then have "parse_value_with None b = Some (v, r)" by simp
  then show ?case by (rule parse_value_with_within [rotated 2]) simp_all
next
  case (Suc levels)
  from Suc.prems have "parse_value_with (Some (parse_value levels)) b = Some (v, r)" by simp
  then show ?case
    by (rule parse_value_with_within [rotated 2]) (use Suc.IH parse_value_consumes in blast)+
qed

lemma cJSON_Parse_within: "cJSON_Parse s = Some v \<Longrightarrow> json_within (length s + 1) v"
proof -
  let ?b = "buffer_skip_whitespace (skip_utf8_bom (s @ [NUL]))"
  assume "cJSON_Parse s = Some v"
  then obtain r where "parse_value CJSON_NESTING_LIMIT ?b = Some (v, r)"
    by (auto simp: cJSON_Parse_def)
  then have "json_within (length ?b) v" by (rule parse_value_within)
  moreover have "length ?b \<le> length s + 1"
    using skip_whitespace_length [of "skip_utf8_bom (s @ [NUL])"] skip_bom_length [of "s @ [NUL]"]
    by simp
  ultimately show ?thesis by (rule json_within_mono)
qed

end
