(* ===== verification/Decimal.thy ===== *)
theory Decimal
  imports Binary64
begin

text \<open>
  What \<^verbatim>\<open>strtod\<close> makes of plain decimal text: the rounded value, all of the text read,
  no range error for magnitudes the daemon meets, and the exact value for integers below
  \<open>2 ^ 53\<close>.
\<close>

subsection \<open>Exact rounding of integers\<close>

lemma binade_small:
  assumes "0 < q" "q < 2 powi k"
  shows "binade q < k"
  using binade_ge_iff [OF assms(1), of k] assms(2) by linarith

lemma round_finite_of_nat:
  assumes "n < 2 ^ 53"
  shows "round_finite (of_nat n) = of_nat n"
proof (cases "n = 0")
  case False
  define lp where "lp = last_place (of_nat n)"
  have "rat_of_nat n < of_nat (2 ^ 53)" using assms by (simp only: of_nat_less_iff)
  then have "rat_of_nat n < 2 powi 53" by (simp add: power_int_def)
  then have "binade (of_nat n) < 53" using False by (intro binade_small) simp_all
  then have lp: "lp \<le> 0" by (simp add: lp_def last_place_def)
  have "(of_nat n :: rat) * 2 powi (- lp) = of_int (int n * 2 ^ nat (- lp))"
    using lp by (simp add: power_int_def)
  then have "of_int (round_half_even ((of_nat n :: rat) * 2 powi (- lp))) = (of_nat n :: rat) * 2 powi (- lp)"
    by (simp only: round_half_even_of_int)
  then show ?thesis using False by (simp add: round_finite_def powi_two_cancel flip: lp_def)
qed (simp add: round_finite_def)

lemma not_overflows_small: "r < 2 powi 64 \<Longrightarrow> \<not> overflows r"
  using powi_two_mono [of 64 1024] by (simp add: overflows_iff not_le)

lemma round_binary64_of_nat:
  assumes "n < 2 ^ 53"
  shows "round_binary64 neg (of_nat n) = Finite (if neg then - of_nat n else of_nat n)"
proof -
  have "(2::nat) ^ 53 \<le> 2 ^ 64" by simp
  with assms have "n < 2 ^ 64" by (rule order.strict_trans2)
  then have "rat_of_nat n < of_nat (2 ^ 64)" by (simp only: of_nat_less_iff)
  then have "rat_of_nat n < 2 powi 64" by (simp add: power_int_def)
  then show ?thesis
    by (simp add: round_binary64_def round_finite_of_nat [OF assms] not_overflows_small)
qed

subsection \<open>Reading digits\<close>

lemma isdigit_facts:
  assumes "isdigit c"
  shows "\<not> isspace c" "c \<noteq> CHR ''-''" "c \<noteq> CHR ''+''" "tolower c = c" "c \<noteq> CHR ''.''"
    "c \<noteq> CHR ''i''" "c \<noteq> CHR ''n''" "c \<noteq> CHR ''x''" "c \<noteq> CHR ''e''"
  using assms by (auto simp: isdigit_def isspace_def tolower_def isupper_def ord_def)

lemma digit_test: "is_digit_of 10 = isdigit"
  by (simp add: fun_eq_iff isdigit_is_digit_of)

lemma takeWhile_all: "list_all P xs \<Longrightarrow> takeWhile P xs = xs \<and> dropWhile P xs = []"
  by (auto simp: list_all_iff takeWhile_eq_all_conv)

lemma takeWhile_digits_dot:
  "list_all isdigit d1 \<Longrightarrow>
   takeWhile isdigit (d1 @ CHR ''.'' # r) = d1 \<and> dropWhile isdigit (d1 @ CHR ''.'' # r) = CHR ''.'' # r"
  using isdigit_facts(5)
  by (auto simp: list_all_iff intro!: takeWhile_append_stop dropWhile_append_stop)

lemma read_decimal_point:
  assumes "list_all isdigit d1" "d1 \<noteq> []" "list_all isdigit d2"
  shows "read_decimal (d1 @ CHR ''.'' # d2) =
    Some (of_nat (digits_value 10 (d1 @ d2)) * 10 powi (- int (length d2)), [])"
proof -
  have "read_mantissa 10 (d1 @ CHR ''.'' # d2) = Some (d1, d2, [])"
    using assms(2) takeWhile_digits_dot [OF assms(1)] takeWhile_all [OF assms(3)]
    by (simp add: read_mantissa_def digit_test)
  then show ?thesis by (simp add: read_decimal_def read_exponent_def)
qed

lemma read_decimal_digits:
  assumes "list_all isdigit d1" "d1 \<noteq> []"
  shows "read_decimal d1 = Some (of_nat (digits_value 10 d1), [])"
proof -
  have "read_mantissa 10 d1 = Some (d1, [], [])"
    using assms(2) takeWhile_all [OF assms(1)]
    by (simp add: read_mantissa_def digit_test Let_def
        del: dropWhile_eq_Nil_conv takeWhile_eq_all_conv)
  then show ?thesis by (simp add: read_decimal_def read_exponent_def)
qed

text \<open>Text that starts with digits is not one of the special spellings.\<close>

lemma strtod_number:
  assumes d: "list_all isdigit d1" "d1 \<noteq> []" and r: "r = [] \<or> (\<exists>t. r = CHR ''.'' # t)"
    and v: "read_decimal (d1 @ r) = Some (q, [])"
    and s: "s = (if neg then CHR ''-'' # d1 @ r else d1 @ r)"
  shows "strtod s = \<lparr>d_value = round_binary64 neg q, d_end = [], d_erange = range_error q\<rparr>"
proof -
  obtain c cs where c: "d1 = c # cs" using d(2) by (cases d1) auto
  then have dc: "isdigit c" and dcs: "list_all isdigit cs" using d(1) by simp_all
  note f = isdigit_facts [OF dc]
  have not_space: "\<not> isspace (CHR ''-'')" by code_simp
  have sign: "read_sign (skip_space s) = (neg, d1 @ r)"
    using f(1-3) c s not_space by (simp add: skip_space_def read_sign_def)
  have first: "has_prefix_nocase (p # ps) (d1 @ r) \<Longrightarrow> p = c" for p ps
    using f(4) c by (simp add: has_prefix_nocase_def)
  have "\<not> has_prefix_nocase ''infinity'' (d1 @ r)" "\<not> has_prefix_nocase ''inf'' (d1 @ r)"
    "\<not> has_prefix_nocase ''nan'' (d1 @ r)"
    using first f(6,7) by blast+
  moreover have "\<not> has_prefix_nocase ''0x'' (d1 @ r)"
  proof (cases cs)
    case Nil
    have "tolower (CHR ''.'') \<noteq> CHR ''x''" by code_simp
    then show ?thesis using c r Nil by (auto simp: has_prefix_nocase_def)
  next
    case (Cons d ds)
    then have "tolower d = d" "d \<noteq> CHR ''x''" using dcs isdigit_facts [of d] by simp_all
    then show ?thesis using c Cons by (simp add: has_prefix_nocase_def)
  qed
  ultimately show ?thesis using sign v by (simp add: strtod_def number_result_def)
qed

lemma strtod_integer:
  assumes "n < 2 ^ 53"
  shows "strtod (if neg then CHR ''-'' # dec_string n else dec_string n) =
    \<lparr>d_value = Finite (if neg then - of_nat n else of_nat n), d_end = [],
     d_erange = range_error (of_nat n)\<rparr>"
proof -
  have "strtod (if neg then CHR ''-'' # dec_string n else dec_string n) =
    \<lparr>d_value = round_binary64 neg (of_nat n), d_end = [], d_erange = range_error (of_nat n)\<rparr>"
    by (rule strtod_number [of "dec_string n" "[]"])
      (use dec_string_digits read_decimal_digits [of "dec_string n"] in
        \<open>simp_all add: digits_value_dec_string\<close>)
  then show ?thesis by (simp add: round_binary64_of_nat [OF assms])
qed

subsection \<open>Frequencies\<close>

text \<open>A number of hertz written in MHz with six decimals, as the radio reports it.\<close>

definition pad_zeros :: "nat \<Rightarrow> string \<Rightarrow> string" where
  "pad_zeros k s = replicate (k - length s) (CHR ''0'') @ s"

definition mhz_text :: "nat \<Rightarrow> string" where
  "mhz_text hz = dec_string (hz div 10 ^ 6) @ ''.'' @ pad_zeros 6 (dec_string (hz mod 10 ^ 6))"

lemma digits_value_zeros: "digits_value 10 (replicate k (CHR ''0'') @ ds) = digits_value 10 ds"
proof -
  have "digit_value (CHR ''0'') = 0" by (simp add: digit_value_def xdigit_value_def isdigit_def ord_def)
  then have "foldl (\<lambda>n c. n * 10 + digit_value c) 0 (replicate k (CHR ''0'')) = 0"
    by (induction k) simp_all
  then show ?thesis by (simp add: digits_value_def)
qed

lemma digits_value_append_list:
  "digits_value 10 (xs @ ys) = digits_value 10 xs * 10 ^ length ys + digits_value 10 ys"
proof (induction ys rule: rev_induct)
  case (snoc y ys)
  then show ?case
    by (simp flip: append_assoc add: digits_value_append algebra_simps)
qed (simp add: digits_value_def)

lemma mhz_decimals:
  "length (pad_zeros 6 (dec_string (hz mod 10 ^ 6))) = 6"
  "list_all isdigit (pad_zeros 6 (dec_string (hz mod 10 ^ 6)))"
  "digits_value 10 (pad_zeros 6 (dec_string (hz mod 10 ^ 6))) = hz mod 10 ^ 6"
proof -
  have "length (dec_string (hz mod 10 ^ 6)) \<le> 6" by (rule dec_string_length) simp_all
  then show "length (pad_zeros 6 (dec_string (hz mod 10 ^ 6))) = 6" by (simp add: pad_zeros_def)
  have "isdigit (CHR ''0'')" by code_simp
  then show "list_all isdigit (pad_zeros 6 (dec_string (hz mod 10 ^ 6)))"
    using dec_string_digits [of "hz mod 10 ^ 6"] by (auto simp: pad_zeros_def list_all_iff)
  show "digits_value 10 (pad_zeros 6 (dec_string (hz mod 10 ^ 6))) = hz mod 10 ^ 6"
    unfolding pad_zeros_def digits_value_zeros by (rule digits_value_dec_string)
qed

lemma mhz_text_value: "read_decimal (mhz_text hz) = Some (of_nat hz / 10 ^ 6, [])"
proof -
  let ?d1 = "dec_string (hz div 10 ^ 6)" and ?d2 = "pad_zeros 6 (dec_string (hz mod 10 ^ 6))"
  have "digits_value 10 (?d1 @ ?d2) = hz div 10 ^ 6 * 10 ^ 6 + hz mod 10 ^ 6"
    unfolding digits_value_append_list mhz_decimals digits_value_dec_string by (rule refl)
  then have v: "digits_value 10 (?d1 @ ?d2) = hz" by (simp only: div_mult_mod_eq)
  have e: "(10::rat) powi (- int 6) = 1 / 10 ^ 6" by (simp add: power_int_minus)
  show ?thesis
    using read_decimal_point [OF dec_string_digits dec_string_nonempty mhz_decimals(2), of "hz div 10 ^ 6" hz]
    unfolding v mhz_decimals(1) e mhz_text_def by simp
qed

lemma no_range_error_hz:
  assumes "hz < 2 ^ 63"
  shows "\<not> range_error (of_nat hz / 10 ^ 6)"
proof (cases "hz = 0")
  case True
  then show ?thesis by (simp add: range_error_def round_finite_def overflows_def)
next
  case False
  define q :: rat where "q = of_nat hz / 10 ^ 6"
  have "rat_of_nat hz < of_nat (2 ^ 63)" using assms by (simp only: of_nat_less_iff)
  then have hz: "rat_of_nat hz < 2 powi 63" by (simp add: power_int_def)
  have "0 < q" using False by (simp add: q_def)
  have "q \<le> of_nat hz" by (simp add: q_def)
  then have up: "q < 2 powi 63" using hz by linarith
  then have "binade q < 63" using \<open>0 < q\<close> by (intro binade_small)
  then have "round_finite q \<le> 2 powi 63"
    using \<open>0 < q\<close> up by (intro round_finite_le_power) (simp_all add: last_place_def)
  moreover have "(2::rat) powi 63 < 2 powi 64" by (simp add: power_int_def)
  ultimately have ov: "\<not> overflows (round_finite q)" by (intro not_overflows_small) linarith
  have "2 powi (- 20) \<le> q"
    using False by (simp add: q_def power_int_minus field_simps)
  then have b: "- 20 \<le> binade q" using \<open>0 < q\<close> by (simp add: binade_ge_iff)
  then have "2 powi binade q \<le> round_finite q"
    using binade_bounds(1) [OF \<open>0 < q\<close>] by (intro round_finite_ge_power) (simp_all add: last_place_def)
  moreover have "(2::rat) powi (- 1022) \<le> 2 powi binade q" using b by (intro powi_two_mono) simp
  ultimately have "\<not> subnormal (round_finite q)" by (simp add: subnormal_iff not_less)
  then have "\<not> range_error q" using ov by (simp add: range_error_def)
  then show ?thesis unfolding q_def .
qed

lemma strtod_mhz:
  assumes "hz < 2 ^ 63"
  shows "strtod (mhz_text hz) =
    \<lparr>d_value = double_literal (of_nat hz / 10 ^ 6), d_end = [], d_erange = False\<rparr>"
proof -
  have "strtod (mhz_text hz) = \<lparr>d_value = round_binary64 False (of_nat hz / 10 ^ 6), d_end = [],
      d_erange = range_error (of_nat hz / 10 ^ 6)\<rparr>"
    using mhz_text_value [of hz]
    by (intro strtod_number [of "dec_string (hz div 10 ^ 6)"
          "CHR ''.'' # pad_zeros 6 (dec_string (hz mod 10 ^ 6))" "of_nat hz / 10 ^ 6" _ False])
      (simp_all add: dec_string_digits mhz_text_def)
  then show ?thesis using no_range_error_hz [OF assms] by (simp add: double_literal_def)
qed

end
