(* ===== verification/Json_Text.thy ===== *)
theory Json_Text
  imports Json_Parse Decimal
begin

text \<open>
  A printer for JSON trees, and that \<^verbatim>\<open>cJSON_Parse\<close> reads back what it prints. The
  repository never prints JSON: the printer is the specification of the text forms that the
  parser has to accept.
\<close>

subsection \<open>Printing\<close>

fun escape :: "string \<Rightarrow> string" where
  "escape [] = []"
| "escape (c # cs) = (if c = CHR 0x22 \<or> c = CHR 0x5C then CHR 0x5C # c # escape cs else c # escape cs)"

definition quote :: "string \<Rightarrow> string" where
  "quote s = CHR 0x22 # escape s @ [CHR 0x22]"

definition print_int :: "int \<Rightarrow> string" where
  "print_int i = (if i < 0 then CHR ''-'' # dec_string (nat (- i)) else dec_string (nat i))"

fun commas :: "string list \<Rightarrow> string" where
  "commas [] = []"
| "commas [s] = s"
| "commas (s # t # ts) = s @ CHR '','' # commas (t # ts)"

fun print_json :: "cJSON \<Rightarrow> string" where
  "print_json cJSON_NULL = ''null''"
| "print_json cJSON_False = ''false''"
| "print_json cJSON_True = ''true''"
| "print_json (cJSON_Number d i) = print_int i"
| "print_json (cJSON_String s) = quote s"
| "print_json (cJSON_Array xs) = CHR ''['' # commas (map (\<lambda>x. print_json (snd x)) xs) @ [CHR '']'']"
| "print_json (cJSON_Object xs) =
     CHR ''{'' # commas (map (\<lambda>x. quote (the (fst x)) @ CHR '':'' # print_json (snd x)) xs) @ [CHR ''}'']"

text \<open>The trees the printer is for: integers, C strings, at most \<open>k\<close> levels.\<close>

fun plain_json :: "nat \<Rightarrow> cJSON \<Rightarrow> bool" where
  "plain_json k (cJSON_Number d i) \<longleftrightarrow> d = Finite (of_int i) \<and> INT_MIN < i \<and> i < INT_MAX"
| "plain_json k (cJSON_String s) \<longleftrightarrow> NUL \<notin> set s"
| "plain_json 0 (cJSON_Array xs) \<longleftrightarrow> False"
| "plain_json (Suc k) (cJSON_Array xs) \<longleftrightarrow> list_all (\<lambda>x. fst x = None \<and> plain_json k (snd x)) xs"
| "plain_json 0 (cJSON_Object xs) \<longleftrightarrow> False"
| "plain_json (Suc k) (cJSON_Object xs) \<longleftrightarrow>
     list_all (\<lambda>x. fst x \<noteq> None \<and> NUL \<notin> set (the (fst x)) \<and> plain_json k (snd x)) xs"
| "plain_json k v \<longleftrightarrow> True"

subsection \<open>Strings\<close>

lemma skip_whitespace_start: "32 < ord c \<Longrightarrow> buffer_skip_whitespace (c # cs) = c # cs"
  by (simp add: buffer_skip_whitespace_def)

lemma scan_escape: "scan_string (escape s @ CHR 0x22 # rest) = Some (escape s, rest)"
  by (induction s rule: escape.induct) auto

lemma unescape_escape: "unescape (escape s) = Some s"
  by (induction s rule: escape.induct) (auto simp: simple_escape_def)

lemma parse_quote:
  assumes "NUL \<notin> set s"
  shows "parse_string (quote s @ rest) = Some (s, rest)"
  using assms by (simp add: parse_string_def quote_def scan_escape unescape_escape cstr_id)

subsection \<open>Numbers\<close>

definition no_number_start :: "string \<Rightarrow> bool" where
  "no_number_start rest \<longleftrightarrow> (case rest of [] \<Rightarrow> True | c # cs \<Rightarrow> \<not> number_char c)"

lemma print_int_chars: "list_all number_char (print_int i)"
  using dec_string_digits by (auto simp: print_int_def list_all_iff number_char_def)

lemma strtod_print_int:
  assumes "INT_MIN < i" "i < INT_MAX"
  shows "d_value (strtod (print_int i)) = Finite (of_int i) \<and> d_end (strtod (print_int i)) = []"
proof (cases "i < 0")
  case True
  then have "nat (- i) < 2 ^ 53" using assms by (simp add: INT_MIN_def)
  from strtod_integer [OF this, of True] True show ?thesis by (simp add: print_int_def)
next
  case False
  then have "nat i < 2 ^ 53" using assms by (simp add: INT_MAX_def)
  from strtod_integer [OF this, of False] False show ?thesis by (simp add: print_int_def)
qed

lemma saturated_of_int:
  assumes "INT_MIN < i" "i < INT_MAX"
  shows "saturated_int (Finite (of_int i)) = i"
proof -
  have "\<not> rat_of_int INT_MAX \<le> of_int i" "\<not> rat_of_int i \<le> of_int INT_MIN"
    using assms by (simp_all only: of_int_le_iff not_le)
  then show ?thesis by (simp add: saturated_int_def truncate_rat_def)
qed

lemma parse_print_int:
  assumes "INT_MIN < i" "i < INT_MAX" and "no_number_start rest"
  shows "parse_number (print_int i @ rest) = Some (cJSON_Number (Finite (of_int i)) i, rest)"
proof -
  have "takeWhile number_char (print_int i @ rest) = print_int i"
    using print_int_chars [of i] assms(3)
    by (cases rest) (auto simp: list_all_iff no_number_start_def takeWhile_append_stop takeWhile_eq_all_conv)
  moreover have "print_int i \<noteq> []" by (simp add: print_int_def)
  ultimately show ?thesis
    using strtod_print_int [OF assms(1,2)] saturated_of_int [OF assms(1,2)]
    by (simp add: parse_number_def Let_def)
qed

lemma print_int_start: "\<exists>c cs. print_int i = c # cs \<and> (c = CHR ''-'' \<or> isdigit c)"
  using dec_string_digits [of "nat i"] dec_string_nonempty [of "nat i"]
  by (cases "dec_string (nat i)") (auto simp: print_int_def)

subsection \<open>Arrays, objects, values\<close>

lemma print_json_start: "\<exists>c cs. print_json v = c # cs \<and> 32 < ord c"
proof (cases v)
  case (cJSON_Number d i)
  have "32 < ord c" if "isdigit c \<or> c = CHR ''-''" for c
    using that by (auto simp: isdigit_def ord_def)
  then show ?thesis using cJSON_Number print_int_start [of i] by auto
qed (auto simp: quote_def ord_def)

lemma skip_print_json: "buffer_skip_whitespace (print_json v @ rest) = print_json v @ rest"
  using print_json_start [of v] by (auto simp: skip_whitespace_start)

lemma skip_quote: "buffer_skip_whitespace (quote s @ rest) = quote s @ rest"
  by (simp add: quote_def skip_whitespace_start ord_def)

text \<open>The delimiters are neither white space nor number characters.\<close>

lemma delimiters:
  "32 < ord (CHR '','')" "32 < ord (CHR '']'')" "32 < ord (CHR ''}'')" "32 < ord (CHR '':'')"
  "\<not> number_char (CHR '','')" "\<not> number_char (CHR '']'')" "\<not> number_char (CHR ''}'')"
  by code_simp+

definition reads_back :: "cJSON parse \<Rightarrow> cJSON \<Rightarrow> bool" where
  "reads_back p v \<longleftrightarrow> (\<forall>rest. no_number_start rest \<longrightarrow> p (print_json v @ rest) = Some (v, rest))"

lemma reads_backD:
  "reads_back p v \<Longrightarrow> \<not> number_char c \<Longrightarrow> p (print_json v @ c # rest) = Some (v, c # rest)"
  by (simp add: reads_back_def no_number_start_def)

lemma parse_printed_elements:
  assumes "xs \<noteq> []" "length xs \<le> n" "\<forall>x \<in> set xs. fst x = None \<and> reads_back p (snd x)"
  shows "parse_elements p n (commas (map (\<lambda>x. print_json (snd x)) xs) @ CHR '']'' # rest) = Some (xs, rest)"
  using assms
proof (induction xs arbitrary: n)
  case (Cons x xs)
  then obtain m where n: "n = Suc m" by (cases n) auto
  have x: "x = (None, snd x)" "reads_back p (snd x)" using Cons.prems(3) by (cases x; simp)+
  show ?case
  proof (cases xs)
    case Nil
    then show ?thesis
      using x(1) reads_backD [OF x(2) delimiters(6), of rest] n
      by (simp add: skip_print_json skip_whitespace_start delimiters)
  next
    case (Cons y ys)
    let ?tail = "commas (map (\<lambda>x. print_json (snd x)) xs) @ CHR '']'' # rest"
    have "parse_elements p m ?tail = Some (xs, rest)"
      using Cons.prems n Cons by (intro Cons.IH) auto
    moreover have "commas (map (\<lambda>x. print_json (snd x)) (x # xs)) @ CHR '']'' # rest =
        print_json (snd x) @ CHR '','' # ?tail"
      using Cons by simp
    ultimately show ?thesis
      using x(1) reads_backD [OF x(2) delimiters(5), of ?tail] n
      by (simp only: parse_elements.simps skip_print_json) 
        (simp add: skip_whitespace_start delimiters del: commas.simps)
  qed
qed simp

lemma parse_printed_members:
  assumes "xs \<noteq> []" "length xs \<le> n"
    "\<forall>x \<in> set xs. fst x \<noteq> None \<and> NUL \<notin> set (the (fst x)) \<and> reads_back p (snd x)"
  shows "parse_members p n
      (commas (map (\<lambda>x. quote (the (fst x)) @ CHR '':'' # print_json (snd x)) xs) @ CHR ''}'' # rest) =
    Some (xs, rest)"
  using assms
proof (induction xs arbitrary: n)
  case (Cons x xs)
  then obtain m where n: "n = Suc m" by (cases n) auto
  obtain k where x: "x = (Some k, snd x)" "NUL \<notin> set k" "reads_back p (snd x)"
    using Cons.prems(3) by (cases x) auto
  then have k: "fst x = Some k" by (cases x) simp
  note key = parse_quote [OF x(2)]
  have ne: "quote s @ r \<noteq> []" for s r by (simp add: quote_def)
  show ?case
  proof (cases xs)
    case Nil
    then show ?thesis
      using x(1) reads_backD [OF x(3) delimiters(7), of rest] n
      by (simp add: k ne skip_quote key skip_print_json skip_whitespace_start delimiters)
  next
    case (Cons y ys)
    let ?tail = "commas (map (\<lambda>x. quote (the (fst x)) @ CHR '':'' # print_json (snd x)) xs) @ CHR ''}'' # rest"
    have "parse_members p m ?tail = Some (xs, rest)"
      using Cons.prems n Cons by (intro Cons.IH) auto
    moreover have "commas (map (\<lambda>x. quote (the (fst x)) @ CHR '':'' # print_json (snd x)) (x # xs)) @ CHR ''}'' # rest =
        quote k @ CHR '':'' # print_json (snd x) @ CHR '','' # ?tail"
      using Cons k by simp
    ultimately show ?thesis
      using x(1) reads_backD [OF x(3) delimiters(5), of ?tail] n
      by (simp only: parse_members.simps skip_quote key) 
        (simp add: ne skip_print_json skip_whitespace_start delimiters del: commas.simps)
  qed
qed simp

lemma commas_length: "\<forall>s \<in> set ss. s \<noteq> [] \<Longrightarrow> length ss \<le> length (commas ss)"
proof (induction ss rule: commas.induct)
  case (2 s)
  then show ?case by (cases s) auto
qed auto

lemma commas_start:
  "commas (s # ss) = s @ (if ss = [] then [] else CHR '','' # commas ss)"
  by (cases ss) auto

lemma print_json_not_close: "print_json v = c # cs \<Longrightarrow> c \<noteq> CHR '']'' \<and> c \<noteq> CHR ''}''"
proof (cases v)
  case (cJSON_Number d i)
  moreover have "c \<noteq> CHR '']'' \<and> c \<noteq> CHR ''}''" if "isdigit c \<or> c = CHR ''-''" for c
    using that by (auto simp: isdigit_def ord_def)
  moreover assume "print_json v = c # cs"
  ultimately show ?thesis using print_int_start [of i] by auto
qed (auto simp: quote_def)

lemma print_json_nonempty [simp]: "print_json v \<noteq> []"
  using print_json_start [of v] by auto

lemma parse_printed_array:
  assumes "\<forall>x \<in> set xs. fst x = None \<and> reads_back p (snd x)"
  shows "parse_array p (print_json (cJSON_Array xs) @ rest) = Some (cJSON_Array xs, rest)"
proof (cases xs)
  case Nil
  then show ?thesis by (simp add: parse_array_def skip_whitespace_start delimiters)
next
  case (Cons x ys)
  let ?body = "commas (map (\<lambda>x. print_json (snd x)) xs)"
  obtain c cs where c: "print_json (snd x) = c # cs" "32 < ord c" "c \<noteq> CHR '']''"
    using print_json_start print_json_not_close by metis
  obtain tl where b: "?body = c # tl" using c Cons by (simp add: commas_start)
  have "length xs \<le> length ?body" using commas_length [of "map (\<lambda>x. print_json (snd x)) xs"] by auto
  then have "parse_elements p (length (CHR ''['' # ?body @ CHR '']'' # rest)) (?body @ CHR '']'' # rest) = Some (xs, rest)"
    using assms Cons by (intro parse_printed_elements) auto
  then show ?thesis
    using b c by (simp add: parse_array_def skip_whitespace_start del: parse_elements.simps)
qed

lemma parse_printed_object:
  assumes "\<forall>x \<in> set xs. fst x \<noteq> None \<and> NUL \<notin> set (the (fst x)) \<and> reads_back p (snd x)"
  shows "parse_object p (print_json (cJSON_Object xs) @ rest) = Some (cJSON_Object xs, rest)"
proof (cases xs)
  case Nil
  then show ?thesis by (simp add: parse_object_def skip_whitespace_start delimiters)
next
  case (Cons x ys)
  let ?f = "\<lambda>x. quote (the (fst x)) @ CHR '':'' # print_json (snd x)"
  let ?body = "commas (map ?f xs)"
  obtain tl where b: "?body = CHR 0x22 # tl" using Cons by (simp add: commas_start quote_def)
  have "length xs \<le> length ?body" using commas_length [of "map ?f xs"] by auto
  then have "parse_members p (length (CHR ''{'' # ?body @ CHR ''}'' # rest)) (?body @ CHR ''}'' # rest) = Some (xs, rest)"
    using assms Cons by (intro parse_printed_members) auto
  moreover have "32 < ord (CHR 0x22)" by code_simp
  ultimately show ?thesis
    using b by (simp add: parse_object_def skip_whitespace_start del: parse_members.simps)
qed

lemma starts_with_first:
  "starts_with (w # ws) (c # cs) \<Longrightarrow> w = c"
  by (simp add: starts_with_def)

lemma parse_value_with_int:
  assumes "INT_MIN < i" "i < INT_MAX" "no_number_start rest"
  shows "parse_value_with nested (print_int i @ rest) = Some (cJSON_Number (Finite (of_int i)) i, rest)"
proof -
  obtain c cs where c: "print_int i = c # cs" "c = CHR ''-'' \<or> isdigit c"
    using print_int_start [of i] by blast
  then have n: "c \<noteq> CHR ''n''" "c \<noteq> CHR ''f''" "c \<noteq> CHR ''t''" "c \<noteq> CHR 0x22"
    by (auto simp: isdigit_def ord_def)
  then have "\<not> starts_with ''null'' (c # cs @ rest)" "\<not> starts_with ''false'' (c # cs @ rest)"
    "\<not> starts_with ''true'' (c # cs @ rest)" using starts_with_first by blast+
  then show ?thesis
    using parse_print_int [OF assms] c n by (auto simp: parse_value_with_def)
qed

lemma parse_value_step:
  "parse_value k = parse_value_with (case k of 0 \<Rightarrow> None | Suc levels \<Rightarrow> Some (parse_value levels))"
  by (cases k) (simp_all add: fun_eq_iff)

lemma parse_value_reads_back: "plain_json k v \<Longrightarrow> reads_back (parse_value k) v"
proof (induction k v rule: plain_json.induct)
  case (1 k d i)
  then show ?case
    by (cases k) (auto simp: reads_back_def parse_value_with_int)
next
  case (2 k s)
  then show ?case
    by (cases k) (auto simp: reads_back_def parse_value_with_def starts_with_def quote_def
      simp: parse_quote [unfolded quote_def, simplified])
next
  case (4 k xs)
  then have "\<forall>x \<in> set xs. fst x = None \<and> reads_back (parse_value k) (snd x)"
    by (auto simp: list_all_iff)
  from parse_printed_array [OF this] show ?case
    by (simp add: reads_back_def parse_value_with_def starts_with_def isdigit_def ord_def)
next
  case (6 k xs)
  then have "\<forall>x \<in> set xs. fst x \<noteq> None \<and> NUL \<notin> set (the (fst x)) \<and> reads_back (parse_value k) (snd x)"
    by (auto simp: list_all_iff)
  from parse_printed_object [OF this] show ?case
    by (simp add: reads_back_def parse_value_with_def starts_with_def isdigit_def ord_def)
qed (simp_all add: reads_back_def parse_value_step parse_value_with_def starts_with_def)

lemma print_json_no_bom: "print_json v = c # cs \<Longrightarrow> c \<noteq> CHR 0xEF"
proof (cases v)
  case (cJSON_Number d i)
  moreover have "c \<noteq> CHR 0xEF" if "isdigit c \<or> c = CHR ''-''" for c
    using that by (auto simp: isdigit_def ord_def)
  moreover assume "print_json v = c # cs"
  ultimately show ?thesis using print_int_start [of i] by auto
qed (auto simp: quote_def)

lemma cJSON_Parse_print:
  assumes "plain_json CJSON_NESTING_LIMIT v"
  shows "cJSON_Parse (print_json v @ rest) = Some v \<or> \<not> no_number_start (rest @ [NUL])"
proof -
  obtain c cs where c: "print_json v = c # cs" "c \<noteq> CHR 0xEF"
    using print_json_start print_json_no_bom by metis
  then have "skip_utf8_bom (print_json v @ rest @ [NUL]) = print_json v @ rest @ [NUL]"
    by (simp add: skip_utf8_bom_def)
  then show ?thesis
    using parse_value_reads_back [OF assms] skip_print_json [of v "rest @ [NUL]"]
    by (auto simp: cJSON_Parse_def reads_back_def simp del: parse_value.simps)
qed

end
