(* ===== verification/Load.thy ===== *)
theory Load
  imports Config_Correct Json_Text
begin

text \<open>
  The configuration loader with cJSON as its parser: the interpretation of the loader's
  locale, and the properties of \<^verbatim>\<open>ag_config_load\<close> from the bytes of the file on.
\<close>

interpretation cjson: json_parser cJSON_Parse
  by unfold_locales (rule cJSON_Parse_within)

definition load_config :: "string \<Rightarrow> file_io \<Rightarrow> ag_config result" where
  "load_config = ag_config_load cJSON_Parse"

text \<open>A file with the given contents, on which every call succeeds.\<close>

definition file_of :: "string \<Rightarrow> file_io" where
  "file_of contents = Fopen_ok True (int (length contents)) True True contents"

subsection \<open>Printed configurations\<close>

lemma fresh_NUL: "list_all (\<lambda>c. isalnum c \<or> c = a \<or> c = b \<or> c = d) s \<Longrightarrow> a \<noteq> NUL \<Longrightarrow> b \<noteq> NUL
    \<Longrightarrow> d \<noteq> NUL \<Longrightarrow> NUL \<notin> set s"
  by (auto simp: list_all_iff isalnum_def isdigit_def isupper_def islower_def NUL_def ord_def)

lemma antenna_id_NUL: "valid_antenna_id i \<Longrightarrow> NUL \<notin> set i"
  using fresh_NUL [of "CHR ''_''" "CHR ''-''" "CHR ''-''" i]
  by (simp add: valid_antenna_id_def NUL_def)

lemma radio_serial_NUL: "valid_radio_serial i \<Longrightarrow> NUL \<notin> set i"
  using fresh_NUL [of "CHR ''-''" "CHR ''_''" "CHR ''.''" i]
  by (simp add: valid_radio_serial_def NUL_def)

lemma split_on_parts: "c \<in> set s \<Longrightarrow> c \<noteq> d \<Longrightarrow> \<exists>w \<in> set (split_on d s). c \<in> set w"
proof (induction d s rule: split_on.induct)
  case (2 d x xs)
  then show ?case by (auto split: list.splits)
qed simp

lemma ipv4_text_NUL:
  assumes "inet_pton4 s \<noteq> None"
  shows "NUL \<notin> set s"
proof
  assume "NUL \<in> set s"
  then obtain w where w: "w \<in> set (split_on (CHR ''.'') s)" "NUL \<in> set w"
    using split_on_parts [of NUL s "CHR ''.''"] by (auto simp: NUL_def)
  have "octet_ok w" using assms w(1) by (auto simp: inet_pton4_def Let_def list_all_iff split: if_splits)
  then show False using w(2) isdigit_not_special [of NUL] by (auto simp: octet_ok_def list_all_iff)
qed

lemma band_names_plain: "i < 11 \<Longrightarrow> NUL \<notin> set (fst (band_limits ! i))"
proof -
  assume "i < 11"
  moreover have "list_all (\<lambda>b. NUL \<notin> set (fst b)) band_limits" by code_simp
  ultimately show ?thesis by (simp add: list_all_length)
qed

lemma plain_json_number: "unat w \<le> 86400 \<Longrightarrow> plain_json k (json_number w)"
proof -
  assume "unat w \<le> 86400"
  then have "int (unat w) \<le> int 86400" by (simp only: of_nat_le_iff)
  then have "uint w \<le> 86400" by simp
  moreover have "- 2147483648 < uint w" by (rule less_le_trans [of _ 0]) simp_all
  ultimately show ?thesis
    by (cases k) (auto simp: json_number_def INT_MIN_def INT_MAX_def)
qed

lemma plain_json_config:
  assumes "config_valid cfg" and "NUL \<notin> set (host cfg)"
  shows "plain_json (Suc (Suc (Suc k))) (config_to_json cfg)"
proof -
  have r: "radio_valid cfg" and a: "antennas_valid (antennas cfg)"
    using assms(1) by (simp_all add: config_valid_def)
  have keys: "NUL \<notin> set ''radio''" "NUL \<notin> set ''interlock''" "NUL \<notin> set ''antennas''"
    "NUL \<notin> set ''policy''" "NUL \<notin> set ''host''" "NUL \<notin> set ''port''" "NUL \<notin> set ''serial''"
    "NUL \<notin> set ''discovery_ip''" "NUL \<notin> set ''reconnect_seconds''"
    "NUL \<notin> set ''reconnect_max_seconds''" "NUL \<notin> set ''reconnect_log_seconds''"
    by code_simp+
  have "unat (port cfg) < 2 ^ LENGTH(16)" by (rule unsigned_less)
  then have "unat (port cfg) \<le> 86400" by simp
  moreover have "unat (reconnect_seconds cfg) \<le> 86400" "unat (reconnect_max_seconds cfg) \<le> 86400"
    "unat (reconnect_log_seconds cfg) \<le> 86400"
    using r by (simp_all add: radio_valid_def)
  ultimately have nums: "plain_json j (json_number (port cfg))" "plain_json j (json_number (reconnect_seconds cfg))"
    "plain_json j (json_number (reconnect_max_seconds cfg))"
    "plain_json j (json_number (reconnect_log_seconds cfg))" for j
    by (simp_all add: plain_json_number)
  have sel: "NUL \<notin> set (radio_serial cfg)" "NUL \<notin> set (discovery_ip cfg)"
    using r radio_serial_NUL ipv4_text_NUL
    by (cases "radio_mode cfg"; auto simp: radio_valid_def)+
  have radio: "plain_json (Suc (Suc k)) (json_radio cfg)"
    using keys nums sel assms(2) by (simp add: json_radio_def)
  have ids: "\<forall>p \<in> set (antennas cfg). NUL \<notin> set (antenna_id p)"
    using a antenna_id_NUL by (auto simp: antennas_valid_def list_all_iff)
  have bands: "plain_json (Suc k) (json_bands flags)" for flags
    using band_names_plain by (auto simp: json_bands_def list_all_iff simp del: upt_rec_numeral)
  show ?thesis
    using keys radio ids bands by (auto simp: config_to_json_def list_all_iff)
qed

text \<open>Nothing that is printed contains a NUL, so the C string of the file is all of it.\<close>

lemma escape_NUL: "NUL \<notin> set s \<Longrightarrow> NUL \<notin> set (escape s)"
  by (induction s rule: escape.induct) (auto simp: NUL_def)

lemma commas_NUL: "\<forall>s \<in> set ss. NUL \<notin> set s \<Longrightarrow> NUL \<notin> set (commas ss)"
  by (induction ss rule: commas.induct) (auto simp: NUL_def)

lemma quote_NUL: "NUL \<notin> set s \<Longrightarrow> NUL \<notin> set (quote s)"
  using escape_NUL by (auto simp: quote_def NUL_def)

lemma print_int_NUL: "NUL \<notin> set (print_int i)"
  using print_int_chars [of i]
  by (auto simp: list_all_iff number_char_def NUL_def isdigit_def ord_def)

lemma print_json_NUL: "plain_json k v \<Longrightarrow> NUL \<notin> set (print_json v)"
proof (induction k v rule: plain_json.induct)
  case (4 k xs)
  then have "NUL \<notin> set (commas (map (\<lambda>x. print_json (snd x)) xs))"
    by (intro commas_NUL) (auto simp: list_all_iff)
  then show ?case by (auto simp: NUL_def)
next
  case (6 k xs)
  then have "NUL \<notin> set (commas (map (\<lambda>x. quote (the (fst x)) @ CHR '':'' # print_json (snd x)) xs))"
    using quote_NUL by (intro commas_NUL) (auto simp: list_all_iff NUL_def)
  then show ?case by (auto simp: NUL_def)
qed (auto simp: quote_NUL print_int_NUL, auto simp: NUL_def)

lemma cJSON_Parse_object:
  assumes "plain_json CJSON_NESTING_LIMIT (cJSON_Object xs)"
  shows "cJSON_Parse (print_json (cJSON_Object xs) @ rest) = Some (cJSON_Object xs)"
proof -
  obtain k where k: "CJSON_NESTING_LIMIT = Suc k" by (simp add: CJSON_NESTING_LIMIT_def)
  then have "\<forall>x \<in> set xs. fst x \<noteq> None \<and> NUL \<notin> set (the (fst x)) \<and> reads_back (parse_value k) (snd x)"
    using assms parse_value_reads_back unfolding k by (auto simp: list_all_iff)
  from parse_printed_object [OF this, of "rest @ [NUL]"]
  have "parse_value (Suc k) (print_json (cJSON_Object xs) @ rest @ [NUL]) = Some (cJSON_Object xs, rest @ [NUL])"
    by (simp add: parse_value_with_def starts_with_def isdigit_def ord_def)
  moreover have "skip_utf8_bom (print_json (cJSON_Object xs) @ rest @ [NUL]) = print_json (cJSON_Object xs) @ rest @ [NUL]"
    by (simp add: skip_utf8_bom_def)
  ultimately show ?thesis
    using skip_print_json [of "cJSON_Object xs" "rest @ [NUL]"] k
    by (simp add: cJSON_Parse_def del: parse_value.simps print_json.simps)
qed

lemma load_printed:
  assumes "config_valid cfg" and "NUL \<notin> set (host cfg)"
    and "length (print_json (config_to_json cfg) @ junk) \<le> AG_MAX_CONFIG_BYTES"
  shows "load_config path (file_of (print_json (config_to_json cfg) @ junk)) = Inr cfg"
proof -
  let ?text = "print_json (config_to_json cfg)"
  have "CJSON_NESTING_LIMIT = Suc (Suc (Suc 997))" by (simp add: CJSON_NESTING_LIMIT_def)
  then have plain: "plain_json CJSON_NESTING_LIMIT (config_to_json cfg)"
    using plain_json_config [OF assms(1,2)] by metis
  have "cstr (?text @ junk) = ?text @ cstr junk"
    using print_json_NUL [OF plain] by (auto simp: cstr_def takeWhile_append)
  moreover have "cJSON_Parse (?text @ cstr junk) = Some (config_to_json cfg)"
    using plain unfolding config_to_json_def by (rule cJSON_Parse_object)
  moreover have "read_file path (file_of (?text @ junk)) = Inr (?text @ junk)"
    using assms(3) by (simp add: file_of_def)
  ultimately show ?thesis
    using parse_root_json [OF assms(1)] by (simp add: load_config_def ag_config_load_def)
qed

subsection \<open>A sample file\<close>

definition sample_text :: string where
  "sample_text =
     map (\<lambda>c. if c = CHR ''!'' then CHR 0x22 else c)
       (''{!radio!: {!serial!: !1234-6600!},'' @ [CHR 0x0A]
        @ '' !interlock!: {!antennas!: [!ANT1!, !ANT2!]},'' @ [CHR 0x0A]
        @ '' !policy!: {!ant2!: [!6M!, !20m!], !ANT1!: [!160m!]}}'' @ [CHR 0x0A])"

definition sample_config :: ag_config where
  "sample_config =
     \<lparr>radio_mode = AG_RADIO_DISCOVERY, host = [], radio_serial = ''1234-6600'', discovery_ip = [],
      port = 4992, reconnect_seconds = 3, reconnect_max_seconds = 30, reconnect_log_seconds = 300,
      antennas = [\<lparr>antenna_id = ''ANT1'', allowed_bands = 0x001\<rparr>,
                  \<lparr>antenna_id = ''ANT2'', allowed_bands = 0x420\<rparr>]\<rparr>"

lemma sample_loads: "load_config ''c.json'' (file_of sample_text) = Inr sample_config"
  by code_simp

lemma sample_valid: "config_valid sample_config"
  using sample_loads cjson.load_valid unfolding load_config_def by blast

subsection \<open>Properties\<close>

text \<open>
  C19. A configuration that loads is well formed: 1 to 8 antennas with valid names that differ
  even up to case, flags only for the eleven bands, one radio selector of the direct or the
  discovery kind, and every number in its range with the maximum delay at least the initial.
\<close>

theorem load_gives_valid_config:
  assumes "load_config path io = Inr cfg"
  shows "config_valid cfg"
  using assms unfolding load_config_def by (rule cjson.load_valid)

theorem load_gives_valid_config_witness: "config_valid sample_config"
  by (rule load_gives_valid_config [OF sample_loads])

text \<open>
  C7. The policy that is enforced is the one written in the file: for a known frequency the
  decision allows an antenna exactly when the document's policy has a row for that antenna, up
  to case, that lists the name of a band enclosing the frequency.
\<close>

theorem loaded_matrix_is_the_document:
  assumes "load_config path io = Inr cfg"
  shows "\<exists>contents tree. read_file path io = Inr contents \<and> cJSON_Parse (cstr contents) = Some tree
    \<and> (\<forall>a f. allowed (ag_policy_evaluate cfg True f (Some a)) \<longleftrightarrow>
          (\<exists>j < ag_band_count. in_band f (BANDS ! j) \<and> json_permits tree a j))"
  using assms unfolding load_config_def by (rule cjson.load_matrix)

theorem loaded_matrix_is_the_document_witness:
  "\<exists>contents tree. read_file ''c.json'' (file_of sample_text) = Inr contents
    \<and> cJSON_Parse (cstr contents) = Some tree
    \<and> (\<forall>a f. allowed (ag_policy_evaluate sample_config True f (Some a)) \<longleftrightarrow>
          (\<exists>j < ag_band_count. in_band f (BANDS ! j) \<and> json_permits tree a j))"
  by (rule loaded_matrix_is_the_document [OF sample_loads])

text \<open>
  C11. Every well-formed configuration can be written as a file and loads back unchanged,
  whatever text follows the closing brace: the loader is complete for valid configurations,
  and it does not look beyond the first JSON value.
\<close>

theorem valid_config_loads_back:
  assumes "config_valid cfg" and "NUL \<notin> set (host cfg)"
    and "length (print_json (config_to_json cfg) @ trailing) \<le> AG_MAX_CONFIG_BYTES"
  shows "load_config path (file_of (print_json (config_to_json cfg) @ trailing)) = Inr cfg"
  using assms by (rule load_printed)

theorem valid_config_loads_back_witness:
  "load_config ''c.json'' (file_of (print_json (config_to_json sample_config) @ '' } trailing'')) =
    Inr sample_config"
proof (rule valid_config_loads_back [OF sample_valid])
  show "NUL \<notin> set (host sample_config)" by (simp add: sample_config_def)
  have "length (print_json (config_to_json sample_config) @ '' } trailing'') = 131" by code_simp
  then show "length (print_json (config_to_json sample_config) @ '' } trailing'') \<le> AG_MAX_CONFIG_BYTES"
    by (simp add: AG_MAX_CONFIG_BYTES_def)
qed

text \<open>
  C39. \<^verbatim>\<open>cJSON_Parse\<close> reads back any printed tree of up to 1000 levels of nesting, with
  its strings, integers and order of members, before any text that does not continue a number.
\<close>

theorem cJSON_Parse_reads_back:
  assumes "plain_json CJSON_NESTING_LIMIT v" and "no_number_start trailing"
  shows "cJSON_Parse (print_json v @ trailing) = Some v"
proof -
  have "\<not> number_char NUL" by code_simp
  then have "no_number_start (trailing @ [NUL])"
    using assms(2) by (cases trailing) (auto simp: no_number_start_def)
  then show ?thesis using cJSON_Parse_print [OF assms(1), of trailing] by blast
qed

theorem cJSON_Parse_reads_back_witness:
  "cJSON_Parse (print_json (cJSON_Array [(None, cJSON_String [CHR 0x22, CHR 0x5C]),
      (None, cJSON_Number (Finite (- 7)) (- 7))]) @ ''!'') =
    Some (cJSON_Array [(None, cJSON_String [CHR 0x22, CHR 0x5C]), (None, cJSON_Number (Finite (- 7)) (- 7))])"
proof (rule cJSON_Parse_reads_back)
  obtain k where lim: "CJSON_NESTING_LIMIT = Suc (Suc k)"
    by (rule that [of 998]) (simp add: CJSON_NESTING_LIMIT_def)
  have "NUL \<notin> set [CHR 0x22, CHR 0x5C]" by code_simp
  then show "plain_json CJSON_NESTING_LIMIT (cJSON_Array [(None, cJSON_String [CHR 0x22, CHR 0x5C]),
      (None, cJSON_Number (Finite (- 7)) (- 7))])"
    unfolding lim by (simp add: INT_MIN_def INT_MAX_def)
  show "no_number_start ''!''" by code_simp
qed

text \<open>
  C40. The loops of the parser end by themselves: fuel beyond the length of the text changes
  nothing, so the fuel of the model never decides the result of \<open>parse_array\<close> or
  \<open>parse_object\<close>.
\<close>

theorem parser_fuel_is_enough:
  "parse_elements (parse_value k) (length b + n) b = parse_elements (parse_value k) (length b) b
    \<and> parse_members (parse_value k) (length b + n) b = parse_members (parse_value k) (length b) b"
  using parse_elements_fuel [OF parse_value_consumes, of b "length b + n" "length b"]
    parse_members_fuel [OF parse_value_consumes, of b "length b + n" "length b"] by simp

text \<open>
  C38. A section is accepted exactly when each of its members has a name, every name is one of
  the section's keys, and no name occurs twice: unknown and duplicate keys are rejected.
\<close>

theorem section_keys_exact:
  "reject_unknown_keys items section keys = Inr () \<longleftrightarrow>
    (\<exists>ks. map fst items = map Some ks \<and> set ks \<subseteq> set keys \<and> distinct ks)"
  by (rule reject_unknown_keys_iff)

end
