(* ===== verification/Flex_Wire.thy ===== *)
theory Flex_Wire
  imports World Config_Types
begin

text \<open>
  The lower half of \<^verbatim>\<open>src/flex.c\<close>: the connection record, sending and receiving, lines,
  responses and the cache of responses that were not awaited yet.
\<close>

subsection \<open>The connection\<close>

definition AG_LINE_BUFFER :: nat where "AG_LINE_BUFFER = 8192"
definition AG_COMMAND_SIZE :: nat where "AG_COMMAND_SIZE = 1024"
definition AG_RESPONSE_BODY :: nat where "AG_RESPONSE_BODY = 256"
definition AG_COMMAND_TIMEOUT_MS :: int where "AG_COMMAND_TIMEOUT_MS = 4000"
definition AG_SAVED_RESPONSES :: nat where "AG_SAVED_RESPONSES = 8"
definition INTERLOCK_ID_SIZE :: nat where "INTERLOCK_ID_SIZE = 64"

lemmas wire_limits [simp] =
  AG_LINE_BUFFER_def AG_COMMAND_SIZE_def AG_RESPONSE_BODY_def AG_COMMAND_TIMEOUT_MS_def
  AG_SAVED_RESPONSES_def INTERLOCK_ID_SIZE_def

record ag_saved_response =
  used :: bool
  saved_sequence :: "32 word"
  saved_code :: "64 word"
  saved_body :: string

text \<open>
  \<^verbatim>\<open>ag_connection\<close>, on top of the world it acts in. \<open>receive_buffer\<close> is the first
  \<^verbatim>\<open>receive_length\<close> bytes of the array; the stop flag belongs to the environment.
\<close>

record ag_connection = world +
  config :: ag_config
  socket_fd :: int
  sequence :: "32 word"
  receive_buffer :: string
  interlock_id :: string
  observe_only :: bool
  has_frequency :: bool
  frequency_mhz :: binary64
  tx_antenna :: string
  command_in_progress :: bool
  interlock_update_pending :: bool
  pending_interlock_ready :: bool
  saved_responses :: "ag_saved_response list"

type_synonym 'a conn_prog = "(ag_connection, 'a) prog"

subsection \<open>Sending\<close>

text \<open>The kernel takes some of the bytes offered; the loop offers the rest again.\<close>

fun send_all :: "env \<Rightarrow> nat \<Rightarrow> string \<Rightarrow> ('w world_scheme, int) prog" where
  "send_all E 0 data = (if data = [] then ret 0 else cut)"
| "send_all E (Suc n) data =
     (if data = [] then ret 0
      else bind (sys (env_send E)) (\<lambda>result.
        case result of
          Sys_error e \<Rightarrow> if e = EINTR then send_all E n data else ret (- 1)
        | Sys_ok k \<Rightarrow>
            let sent = min k (length data)
            in if sent = 0 then ret (- 1)
               else bind (emit (Sent (take sent data))) (\<lambda>_. send_all E n (drop sent data))))"

subsection \<open>Receiving lines\<close>

abbreviation LF :: char where "LF \<equiv> CHR 0x0A"
abbreviation CR :: char where "CR \<equiv> CHR 0x0D"

text \<open>The result is the code's (1, 0 or -1) with the line as a C string.\<close>

definition extract_line :: "nat \<Rightarrow> (int \<times> string) conn_prog" where
  "extract_line line_size =
     bind (gets receive_buffer) (\<lambda>buffer.
       if LF \<notin> set buffer then ret (0, [])
       else
         let newline = length (takeWhile (\<lambda>c. c \<noteq> LF) buffer);
             len = (if 0 < newline \<and> buffer ! (newline - 1) = CR then newline - 1 else newline)
         in if line_size < len + 1
            then bind (ag_log AG_LOG_ERROR Msg_line_too_large) (\<lambda>_. ret (- 1, []))
            else bind (modify (\<lambda>c. c\<lparr>receive_buffer := drop (newline + 1) buffer\<rparr>))
                   (\<lambda>_. ret (1, cstr (take len buffer))))"

text \<open>
  The \<^verbatim>\<open>for (;;)\<close> of \<^verbatim>\<open>read_line\<close>: poll until there is an outcome. A ready
  descriptor with none of the four events of interest is polled again.
\<close>

fun poll_and_receive :: "env \<Rightarrow> nat \<Rightarrow> nat \<Rightarrow> (int \<times> string) conn_prog" where
  "poll_and_receive E 0 line_size = cut"
| "poll_and_receive E (Suc n) line_size =
     bind (sys (env_poll E)) (\<lambda>result.
       case result of
         Poll_error e \<Rightarrow> ret (if e = EINTR then 0 else - 1, [])
       | Poll_timeout \<Rightarrow> ret (0, [])
       | Poll_ready ev \<Rightarrow>
           if POLLERR ev \<or> POLLHUP ev \<or> POLLNVAL ev then ret (- 1, [])
           else if POLLIN ev then
             bind (gets receive_buffer) (\<lambda>buffer.
               if length buffer = AG_LINE_BUFFER
               then bind (ag_log AG_LOG_ERROR Msg_buffer_exceeded) (\<lambda>_. ret (- 1, []))
               else bind (sys (env_recv E)) (\<lambda>received.
                 case received of
                   Sys_error e \<Rightarrow> ret (if e = EINTR then 0 else - 1, [])
                 | Sys_ok bytes \<Rightarrow>
                     let chunk = take (AG_LINE_BUFFER - length buffer) bytes
                     in if chunk = [] then ret (- 1, [])
                        else bind (modify (\<lambda>c. c\<lparr>receive_buffer := buffer @ chunk\<rparr>))
                               (\<lambda>_. extract_line line_size)))
           else poll_and_receive E n line_size)"

definition read_line :: "env \<Rightarrow> nat \<Rightarrow> nat \<Rightarrow> (int \<times> string) conn_prog" where
  "read_line E n line_size =
     bind (extract_line line_size) (\<lambda>(extracted, line).
       if extracted \<noteq> 0 then ret (extracted, line)
       else bind (gets receive_buffer) (\<lambda>buffer.
         if length buffer = AG_LINE_BUFFER
         then bind (ag_log AG_LOG_ERROR Msg_unterminated_line) (\<lambda>_. ret (- 1, []))
         else poll_and_receive E n line_size))"

subsection \<open>Responses\<close>

text \<open>
  \<^verbatim>\<open>R<sequence>|<code>|<body>\<close>, or \<open>None\<close>. The sequence is cast from
  \<^verbatim>\<open>unsigned long\<close> to \<^verbatim>\<open>unsigned\<close>.
\<close>

definition after_bar :: "string \<Rightarrow> string option" where
  "after_bar s = (case s of [] \<Rightarrow> None | c # cs \<Rightarrow> if c = CHR ''|'' then Some cs else None)"

definition parse_response :: "string \<Rightarrow> (32 word \<times> 64 word \<times> string) option" where
  "parse_response line =
     (case line of
        [] \<Rightarrow> None
      | r # text \<Rightarrow>
          if r \<noteq> CHR ''R'' then None
          else let seq = strtoul text 10
            in if ul_erange seq \<or> ul_end seq = text then None
               else case after_bar (ul_end seq) of
                 None \<Rightarrow> None
               | Some cursor \<Rightarrow>
                   let code = strtoul cursor 16
                   in if ul_erange code \<or> ul_end code = cursor then None
                      else case after_bar (ul_end code) of
                        None \<Rightarrow> None
                      | Some body \<Rightarrow> Some (ucast (ul_value seq), ul_value code, body))"

text \<open>The first free slot takes the response; without one it is dropped.\<close>

fun store_response ::
  "ag_saved_response \<Rightarrow> ag_saved_response list \<Rightarrow> ag_saved_response list option" where
  "store_response r [] = None"
| "store_response r (s # ss) =
     (if \<not> used s then Some (r # ss) else map_option (\<lambda>ss'. s # ss') (store_response r ss))"

definition save_response :: "32 word \<Rightarrow> 64 word \<Rightarrow> string \<Rightarrow> unit conn_prog" where
  "save_response seq code body =
     bind (gets saved_responses) (\<lambda>saved.
       case store_response
              \<lparr>used = True, saved_sequence = seq, saved_code = code,
               saved_body = snprintf_str AG_RESPONSE_BODY body\<rparr> saved of
         None \<Rightarrow> ag_log AG_LOG_WARNING Msg_cache_full
       | Some saved' \<Rightarrow> modify (\<lambda>c. c\<lparr>saved_responses := saved'\<rparr>))"

text \<open>The first used slot with the sequence is freed and read.\<close>

fun fetch_response ::
  "32 word \<Rightarrow> ag_saved_response list \<Rightarrow> (64 word \<times> string) option \<times> ag_saved_response list" where
  "fetch_response seq [] = (None, [])"
| "fetch_response seq (s # ss) =
     (if used s \<and> saved_sequence s = seq
      then (Some (saved_code s, saved_body s), s\<lparr>used := False\<rparr> # ss)
      else case fetch_response seq ss of (found, ss') \<Rightarrow> (found, s # ss'))"

definition take_response :: "32 word \<Rightarrow> (64 word \<times> string) option conn_prog" where
  "take_response seq =
     bind (gets saved_responses) (\<lambda>saved.
       case fetch_response seq saved of
         (found, saved') \<Rightarrow> bind (modify (\<lambda>c. c\<lparr>saved_responses := saved'\<rparr>)) (\<lambda>_. ret found))"

text \<open>
  The result code and the text left in the response buffer, which has \<open>response_size\<close>
  bytes; 0 stands for the null buffer.
\<close>

definition accept_response ::
  "string \<Rightarrow> 64 word \<Rightarrow> string \<Rightarrow> nat \<Rightarrow> ('w world_scheme, int \<times> string) prog" where
  "accept_response command code body response_size =
     (if code \<noteq> 0 then bind (ag_log AG_LOG_ERROR (Msg_rejected command code)) (\<lambda>_. ret (- 1, []))
      else ret (0, if 0 < response_size then snprintf_str response_size body else []))"

end
