(* ===== verification/Flex_Session.thy ===== *)
theory Flex_Session
  imports Flex_Wire Payload_Fields Policy
begin

text \<open>
  The upper half of \<^verbatim>\<open>src/flex.c\<close>: commands and their answers, the handlers of status
  lines, the interlock, and a whole session.

  In the C code \<open>send_command\<close> awaits its answer, handles the status lines that arrive
  meanwhile, and a handler may call \<open>send_command\<close> again. The functions up to that call
  take it as the parameter \<open>send\<close>; \<open>send_command\<close> closes the recursion, on fuel that
  bounds the depth of calls and the rounds of every loop.
\<close>

type_synonym send = "string \<Rightarrow> nat \<Rightarrow> bool \<Rightarrow> (int \<times> string) conn_prog"

subsection \<open>The interlock and the status handlers\<close>

definition interlock_command :: "bool \<Rightarrow> string \<Rightarrow> string" where
  "interlock_command ready i =
     snprintf_str 128 (''interlock '' @ (if ready then ''ready'' else ''not_ready'') @ '' '' @ i)"

definition evaluate_context :: "ag_connection \<Rightarrow> ag_policy_decision" where
  "evaluate_context c =
     ag_policy_evaluate (config c) (has_frequency c) (frequency_mhz c) (Some (tx_antenna c))"

definition set_interlock :: "send \<Rightarrow> bool \<Rightarrow> int conn_prog" where
  "set_interlock send ready =
     bind (gets (\<lambda>c. c)) (\<lambda>c.
       if observe_only c \<or> interlock_id c = [] then ret 0
       else if command_in_progress c
       then bind (modify (\<lambda>c. c\<lparr>interlock_update_pending := True, pending_interlock_ready := ready\<rparr>))
              (\<lambda>_. ret 0)
       else bind (send (interlock_command ready (interlock_id c)) 0 False) (\<lambda>(rc, body). ret rc))"

definition log_decision :: "ag_connection \<Rightarrow> ag_policy_decision \<Rightarrow> bool \<Rightarrow> unit conn_prog" where
  "log_decision c decision observe =
     (if allowed decision
      then ag_log AG_LOG_INFO (Msg_allowed observe (tx_antenna c) (band decision) (frequency_mhz c))
      else if \<not> has_frequency c \<or> tx_antenna c = []
      then ag_log AG_LOG_WARNING (Msg_incomplete observe)
      else if reason decision = AG_DECISION_OUTSIDE_KNOWN_BANDS
      then ag_log AG_LOG_WARNING (Msg_outside observe (frequency_mhz c))
      else ag_log AG_LOG_WARNING
             (Msg_blocked observe (tx_antenna c) (band decision) (frequency_mhz c)))"

definition set_frequency :: "string \<Rightarrow> ag_connection \<Rightarrow> ag_connection" where
  "set_frequency value c =
     (let r = strtod value
      in c\<lparr>frequency_mhz := d_value r,
           has_frequency := \<not> d_erange r \<and> d_end r \<noteq> value \<and> d_end r = []\<rparr>)"

definition set_antenna :: "string \<Rightarrow> unit conn_prog" where
  "set_antenna value =
     (if strcasecmp_eq value ''INVALID''
      then modify (\<lambda>c. c\<lparr>has_frequency := False, tx_antenna := []\<rparr>)
      else if AG_MAX_ANTENNA_ID < length value
      then bind (ag_log AG_LOG_WARNING Msg_invalid_antenna)
             (\<lambda>_. modify (\<lambda>c. c\<lparr>tx_antenna := []\<rparr>))
      else modify (\<lambda>c. c\<lparr>tx_antenna := value\<rparr>))"

definition handle_transmit :: "send \<Rightarrow> string \<Rightarrow> int conn_prog" where
  "handle_transmit send payload =
     bind (case flex_field_value payload ''freq'' 128 of
             None \<Rightarrow> ret ()
           | Some value \<Rightarrow> modify (set_frequency value)) (\<lambda>_.
     bind (case flex_field_value payload ''tx_antenna'' 128 of
             None \<Rightarrow> ret ()
           | Some value \<Rightarrow> set_antenna value) (\<lambda>_.
     bind (gets (\<lambda>c. c)) (\<lambda>c.
       if \<not> allowed (evaluate_context c) \<and> interlock_id c \<noteq> []
       then set_interlock send False
       else ret 0)))"

definition handle_interlock :: "send \<Rightarrow> string \<Rightarrow> int conn_prog" where
  "handle_interlock send payload =
     (case flex_field_value payload ''state'' 64 of
        None \<Rightarrow> ret 0
      | Some state \<Rightarrow>
          if state = ''PTT_REQUESTED'' then
            bind (gets (\<lambda>c. c)) (\<lambda>c.
            bind (log_decision c (evaluate_context c) (observe_only c)) (\<lambda>_.
              set_interlock send (allowed (evaluate_context c))))
          else if state = ''UNKEY_REQUESTED'' then
            bind (gets observe_only) (\<lambda>observe.
              if observe then bind (ag_log AG_LOG_INFO Msg_observed_ended) (\<lambda>_. ret 0)
              else bind (ag_log AG_LOG_INFO Msg_ended) (\<lambda>_. set_interlock send False))
          else if state = ''TRANSMITTING'' then
            bind (gets (\<lambda>c. c)) (\<lambda>c.
              if \<not> allowed (evaluate_context c) then
                if observe_only c
                then bind (ag_log AG_LOG_WARNING
                             (Msg_observed_outside (tx_antenna c) (frequency_mhz c))) (\<lambda>_. ret 0)
                else bind (ag_log AG_LOG_ERROR Msg_fault) (\<lambda>_. set_interlock send False)
              else
                bind (ag_log AG_LOG_INFO
                        (if observe_only c
                         then Msg_observed_transmitting (tx_antenna c) (band (evaluate_context c))
                                (frequency_mhz c)
                         else Msg_transmitting (tx_antenna c) (band (evaluate_context c))
                                (frequency_mhz c)))
                  (\<lambda>_. ret 0))
          else ret 0)"

definition handle_status :: "send \<Rightarrow> string \<Rightarrow> int conn_prog" where
  "handle_status send line =
     (case dropWhile (\<lambda>c. c \<noteq> CHR ''|'') line of
        [] \<Rightarrow> ret 0
      | separator # payload \<Rightarrow>
          if payload = [] then ret 0
          else if starts_with ''transmit '' payload then handle_transmit send (drop 9 payload)
          else if starts_with ''interlock '' payload then handle_interlock send (drop 10 payload)
          else ret 0)"

subsection \<open>Commands\<close>

text \<open>\<^verbatim>\<open>(int)(deadline - now)\<close>, 64 bits cut to 32.\<close>

definition remaining_ms :: "int \<Rightarrow> int \<Rightarrow> int" where
  "remaining_ms deadline now = sint (word_of_int (deadline - now) :: 32 word)"

definition command_frame :: "32 word \<Rightarrow> string \<Rightarrow> string" where
  "command_frame seq command = CHR ''C'' # dec_string (unat seq) @ CHR ''|'' # command @ [LF]"

fun await_response ::
  "env \<Rightarrow> send \<Rightarrow> nat \<Rightarrow> string \<Rightarrow> nat \<Rightarrow> bool \<Rightarrow> 32 word \<Rightarrow> int \<Rightarrow> (int \<times> string) conn_prog" where
  "await_response E send 0 command response_size cleanup seq deadline = cut"
| "await_response E send (Suc n) command response_size cleanup seq deadline =
     bind (if cleanup then ret False else read_stop E) (\<lambda>stop.
       if stop then ret (- 1, [])
       else
     bind (monotonic_milliseconds E) (\<lambda>now.
     bind (take_response seq) (\<lambda>saved.
       case saved of
         Some (code, body) \<Rightarrow> accept_response command code body response_size
       | None \<Rightarrow>
           if remaining_ms deadline now \<le> 0
           then bind (ag_log AG_LOG_ERROR Msg_no_answer) (\<lambda>_. ret (- 1, []))
           else
     bind (read_line E n AG_LINE_BUFFER) (\<lambda>(read_result, line).
       if read_result < 0
       then bind (ag_log AG_LOG_ERROR Msg_closed_awaiting) (\<lambda>_. ret (- 1, []))
       else if read_result = 0 then ret (- 1, [])
       else
     bind (ag_log AG_LOG_DEBUG (Msg_line line)) (\<lambda>_.
       case parse_response line of
         Some (response_sequence, code, body) \<Rightarrow>
           if response_sequence \<noteq> seq
           then bind (save_response response_sequence code body) (\<lambda>_.
                  await_response E send n command response_size cleanup seq deadline)
           else accept_response command code body response_size
       | None \<Rightarrow>
           bind (handle_status send line) (\<lambda>rc.
             if rc \<noteq> 0 \<and> \<not> cleanup then ret (- 1, [])
             else await_response E send n command response_size cleanup seq deadline))))))"

definition send_command_once ::
  "env \<Rightarrow> send \<Rightarrow> nat \<Rightarrow> string \<Rightarrow> nat \<Rightarrow> bool \<Rightarrow> (int \<times> string) conn_prog" where
  "send_command_once E send n command response_size cleanup =
     bind (modify (\<lambda>c. c\<lparr>sequence := sequence c + 1\<rparr>)) (\<lambda>_.
     bind (gets sequence) (\<lambda>seq.
     bind (monotonic_milliseconds E) (\<lambda>now.
     bind (read_stop E) (\<lambda>stop.
       if stop \<and> \<not> cleanup then ret (- 1, [])
       else if AG_COMMAND_SIZE \<le> length (command_frame seq command)
       then bind (ag_log AG_LOG_ERROR Msg_command_too_long) (\<lambda>_. ret (- 1, []))
       else
     bind (ag_log AG_LOG_DEBUG (Msg_command command)) (\<lambda>_.
     bind (send_all E n (command_frame seq command)) (\<lambda>sent.
       if sent \<noteq> 0 then bind (ag_log AG_LOG_ERROR Msg_send_failed) (\<lambda>_. ret (- 1, []))
       else await_response E send n command response_size cleanup seq
              (now + AG_COMMAND_TIMEOUT_MS)))))))"

text \<open>The loop at the end of \<^verbatim>\<open>send_command\<close> that sends deferred interlock updates.\<close>

fun drain_interlock :: "env \<Rightarrow> send \<Rightarrow> nat \<Rightarrow> int conn_prog" where
  "drain_interlock E send 0 =
     bind (gets interlock_update_pending) (\<lambda>pending.
       if \<not> pending then ret 0
       else bind (read_stop E) (\<lambda>stop. if stop then ret 0 else cut))"
| "drain_interlock E send (Suc n) =
     bind (gets interlock_update_pending) (\<lambda>pending.
       if \<not> pending then ret 0
       else bind (read_stop E) (\<lambda>stop.
         if stop then ret 0
         else
     bind (gets pending_interlock_ready) (\<lambda>ready.
     bind (modify (\<lambda>c. c\<lparr>interlock_update_pending := False\<rparr>)) (\<lambda>_.
     bind (gets interlock_id) (\<lambda>i.
     bind (modify (\<lambda>c. c\<lparr>command_in_progress := True\<rparr>)) (\<lambda>_.
     bind (send_command_once E send n (interlock_command ready i) 0 False) (\<lambda>(rc, body).
     bind (modify (\<lambda>c. c\<lparr>command_in_progress := False\<rparr>)) (\<lambda>_.
       if rc \<noteq> 0 then ret rc else drain_interlock E send n))))))))"

fun send_command :: "env \<Rightarrow> nat \<Rightarrow> send" where
  "send_command E 0 command response_size cleanup = cut"
| "send_command E (Suc n) command response_size cleanup =
     bind (gets command_in_progress) (\<lambda>busy.
       if busy then bind (ag_log AG_LOG_ERROR Msg_nested) (\<lambda>_. ret (- 1, []))
       else
     bind (modify (\<lambda>c. c\<lparr>command_in_progress := True\<rparr>)) (\<lambda>_.
     bind (send_command_once E (send_command E n) n command response_size cleanup) (\<lambda>(rc, body).
     bind (modify (\<lambda>c. c\<lparr>command_in_progress := False\<rparr>)) (\<lambda>_.
       if rc \<noteq> 0 \<or> cleanup then ret (rc, body)
       else bind (drain_interlock E (send_command E n) n) (\<lambda>rc'. ret (rc', body))))))"

subsection \<open>Opening and closing a session\<close>

text \<open>\<^verbatim>\<open>connect_socket\<close>: the addresses in turn, each tried by \<open>try_address\<close>.\<close>

definition SOCKET_NONE :: int where "SOCKET_NONE = - 1"

definition give_up :: "nat \<Rightarrow> ('w world_scheme, int option) prog" where
  "give_up fd = bind (close_fd fd) (\<lambda>_. ret None)"

definition try_address :: "env \<Rightarrow> ('w world_scheme, int option) prog" where
  "try_address E =
     bind (sys (env_socket E)) (\<lambda>socket.
       case socket of
         Sys_error e \<Rightarrow> ret None
       | Sys_ok fd \<Rightarrow>
     bind (sys (env_fcntl E)) (\<lambda>flags.
     bind (if flags = Sys_ok () then sys (env_fcntl E) else ret flags) (\<lambda>nonblocking.
       if nonblocking \<noteq> Sys_ok () then give_up fd
       else
     bind (sys (env_connect E)) (\<lambda>connect_result.
       if connect_result \<noteq> Sys_ok () \<and> connect_result \<noteq> Sys_error EINPROGRESS then give_up fd
       else
     bind (if connect_result = Sys_ok () then ret True
           else bind (sys (env_poll E)) (\<lambda>polled.
             case polled of Poll_ready ev \<Rightarrow> ret True | _ \<Rightarrow> ret False)) (\<lambda>writable.
       if \<not> writable then give_up fd
       else
     bind (sys (env_so_error E)) (\<lambda>so_error.
       if so_error \<noteq> Sys_ok 0 then give_up fd
       else
     bind (sys (env_fcntl E)) (\<lambda>restored.
       if restored \<noteq> Sys_ok () then give_up fd else ret (Some (int fd)))))))))"

fun try_addresses :: "env \<Rightarrow> nat \<Rightarrow> ('w world_scheme, int) prog" where
  "try_addresses E 0 = ret SOCKET_NONE"
| "try_addresses E (Suc k) =
     bind (read_stop E) (\<lambda>stop.
       if stop then ret SOCKET_NONE
       else bind (try_address E) (\<lambda>r.
         case r of None \<Rightarrow> try_addresses E k | Some fd \<Rightarrow> ret fd))"

definition connect_socket :: "env \<Rightarrow> ag_config \<Rightarrow> ('w world_scheme, int) prog" where
  "connect_socket E cfg =
     bind (sys (env_getaddrinfo E)) (\<lambda>lookup.
       case lookup of
         Sys_error e \<Rightarrow> bind (ag_log AG_LOG_ERROR (Msg_cannot_resolve (host cfg))) (\<lambda>_. ret SOCKET_NONE)
       | Sys_ok addresses \<Rightarrow>
     bind (try_addresses E addresses) (\<lambda>fd.
       if 0 \<le> fd
       then bind (sys (env_setsockopt E)) (\<lambda>_. bind (sys (env_setsockopt E)) (\<lambda>_.
              bind (sys (env_setsockopt E)) (\<lambda>_. ret fd)))
       else ret fd))"

text \<open>The comma-separated list of antenna names, in a buffer of 256 bytes.\<close>

definition ANTENNA_LIST_SIZE :: nat where
  "ANTENNA_LIST_SIZE = AG_MAX_ANTENNAS * (AG_MAX_ANTENNA_ID + 1)"

fun antenna_list :: "nat \<Rightarrow> string \<Rightarrow> ag_antenna_policy list \<Rightarrow> string option" where
  "antenna_list index acc [] = Some acc"
| "antenna_list index acc (p # ps) =
     (let piece = (if index = 0 then [] else '','') @ antenna_id p
      in if ANTENNA_LIST_SIZE - length acc \<le> length piece then None
         else antenna_list (index + 1) (acc @ piece) ps)"

definition create_command :: "string \<Rightarrow> string" where
  "create_command names =
     ''interlock create type=ANT name=AntennaGuardianPiLite serial=raspberrypi valid_antennas='' @ names"

text \<open>The commands before the interlock; the first failure ends the list.\<close>

fun send_commands :: "send \<Rightarrow> string list \<Rightarrow> int conn_prog" where
  "send_commands send [] = ret 0"
| "send_commands send (c # cs) =
     bind (send c 0 False) (\<lambda>(rc, body). if rc \<noteq> 0 then ret (- 1) else send_commands send cs)"

definition subscriptions :: "string list" where
  "subscriptions = [''name AntennaGuardianPiLite'', ''sub radio all'', ''sub slice all'', ''sub tx all'']"

text \<open>The answer to the creation names the interlock; it starts blocked.\<close>

definition arm_interlock :: "send \<Rightarrow> string \<Rightarrow> int conn_prog" where
  "arm_interlock send body =
     (let response = takeWhile (\<lambda>c. c \<noteq> CHR ''|'') body
      in if response = [] \<or> INTERLOCK_ID_SIZE \<le> length response
         then bind (ag_log AG_LOG_ERROR Msg_no_interlock_id) (\<lambda>_. ret (- 1))
         else
     bind (modify (\<lambda>c. c\<lparr>interlock_id := response\<rparr>)) (\<lambda>_.
     bind (set_interlock send False) (\<lambda>rc.
       if rc \<noteq> 0 then ret (- 1)
       else bind (ag_log AG_LOG_INFO (Msg_armed response)) (\<lambda>_. ret 0))))"

definition initialize_session :: "send \<Rightarrow> int conn_prog" where
  "initialize_session send =
     bind (send_commands send subscriptions) (\<lambda>rc.
       if rc \<noteq> 0 then ret (- 1)
       else
     bind (gets (\<lambda>c. c)) (\<lambda>c.
       if observe_only c then bind (ag_log AG_LOG_INFO Msg_observe_active) (\<lambda>_. ret 0)
       else
     case antenna_list 0 [] (antennas (config c)) of
       None \<Rightarrow> ret (- 1)
     | Some names \<Rightarrow>
         if AG_COMMAND_SIZE \<le> length (create_command names)
         then bind (ag_log AG_LOG_ERROR Msg_antenna_list_too_long) (\<lambda>_. ret (- 1))
         else
     bind (send (create_command names) AG_RESPONSE_BODY False) (\<lambda>(rc, body).
       if rc \<noteq> 0 then ret (- 1) else arm_interlock send body)))"

definition remove_command :: "string \<Rightarrow> string" where
  "remove_command i = snprintf_str 128 (''interlock remove '' @ i)"

definition remove_interlock :: "send \<Rightarrow> unit conn_prog" where
  "remove_interlock send =
     bind (gets (\<lambda>c. c)) (\<lambda>c.
       if observe_only c \<or> interlock_id c = [] \<or> socket_fd c < 0 then ret ()
       else
     bind (send (remove_command (interlock_id c)) 0 True) (\<lambda>(rc, body).
     bind (if rc = 0 then ag_log AG_LOG_INFO (Msg_removed (interlock_id c))
           else ag_log AG_LOG_WARNING Msg_cleanup_unconfirmed) (\<lambda>_.
       modify (\<lambda>c. c\<lparr>interlock_id := []\<rparr>))))"

subsection \<open>A session\<close>

datatype ag_session_result =
    AG_SESSION_STOPPED
  | AG_SESSION_UNAVAILABLE
  | AG_SESSION_DISCONNECTED
  | AG_SESSION_ERROR

text \<open>The main loop of a session: one line after another until the daemon is stopped.\<close>

fun session_loop :: "env \<Rightarrow> send \<Rightarrow> nat \<Rightarrow> ag_session_result conn_prog" where
  "session_loop E send 0 =
     bind (read_stop E) (\<lambda>stop. if stop then ret AG_SESSION_STOPPED else cut)"
| "session_loop E send (Suc n) =
     bind (read_stop E) (\<lambda>stop.
       if stop then ret AG_SESSION_STOPPED
       else
     bind (read_line E n AG_LINE_BUFFER) (\<lambda>(read_result, line).
       if read_result < 0
       then bind (ag_log AG_LOG_WARNING Msg_connection_lost) (\<lambda>_. ret AG_SESSION_DISCONNECTED)
       else if read_result = 0 then session_loop E send n
       else
     bind (ag_log AG_LOG_DEBUG (Msg_line line)) (\<lambda>_.
     bind (handle_status send line) (\<lambda>rc.
       if rc \<noteq> 0 then ret AG_SESSION_ERROR else session_loop E send n))))"

definition close_session :: "send \<Rightarrow> unit conn_prog" where
  "close_session send =
     bind (remove_interlock send) (\<lambda>_.
     bind (gets socket_fd) (\<lambda>fd. if 0 \<le> fd then close_fd (nat fd) else ret ()))"

definition connected_session :: "env \<Rightarrow> nat \<Rightarrow> ag_session_result conn_prog" where
  "connected_session E n =
     bind (initialize_session (send_command E n)) (\<lambda>rc.
     bind (if rc \<noteq> 0
           then bind (read_stop E)
                  (\<lambda>stop. ret (if stop then AG_SESSION_STOPPED else AG_SESSION_ERROR))
           else session_loop E (send_command E n) n) (\<lambda>result.
     bind (close_session (send_command E n)) (\<lambda>_. ret result)))"

definition session_program :: "env \<Rightarrow> nat \<Rightarrow> bool \<Rightarrow> ag_session_result conn_prog" where
  "session_program E n log_connection_attempt =
     bind (gets config) (\<lambda>cfg.
     bind (if log_connection_attempt
           then ag_log AG_LOG_INFO (Msg_connecting (host cfg) (port cfg)) else ret ()) (\<lambda>_.
     bind (connect_socket E cfg) (\<lambda>fd.
     bind (modify (\<lambda>c. c\<lparr>socket_fd := fd\<rparr>)) (\<lambda>_.
       if fd < 0 then
         bind (read_stop E) (\<lambda>stop.
         bind (if \<not> stop \<and> log_connection_attempt
               then ag_log AG_LOG_ERROR (Msg_could_not_connect (host cfg) (port cfg)) else ret ()) (\<lambda>_.
         bind (read_stop E)
           (\<lambda>stop. ret (if stop then AG_SESSION_STOPPED else AG_SESSION_UNAVAILABLE))))
       else bind (ag_log AG_LOG_INFO (Msg_connected (host cfg) (port cfg)))
              (\<lambda>_. connected_session E n)))))"

text \<open>The connection starts zeroed, in the caller's world, and is gone at the end.\<close>

definition free_slot :: ag_saved_response where
  "free_slot = \<lparr>used = False, saved_sequence = 0, saved_code = 0, saved_body = []\<rparr>"

definition new_connection :: "ag_config \<Rightarrow> bool \<Rightarrow> world \<Rightarrow> ag_connection" where
  "new_connection cfg observe w =
     \<lparr>tick = tick w, stop_requested = stop_requested w, trace = trace w,
       config = cfg, socket_fd = SOCKET_NONE, sequence = 0,
      receive_buffer = [], interlock_id = [], observe_only = observe, has_frequency = False,
      frequency_mhz = Finite 0, tx_antenna = [], command_in_progress = False,
      interlock_update_pending = False, pending_interlock_ready = False,
      saved_responses = replicate AG_SAVED_RESPONSES free_slot\<rparr>"

definition ag_flex_run_session ::
  "env \<Rightarrow> nat \<Rightarrow> ag_config \<Rightarrow> bool \<Rightarrow> bool \<Rightarrow> (world, ag_session_result) prog" where
  "ag_flex_run_session E n cfg observe log_connection_attempt =
     (\<lambda>w. case session_program E n log_connection_attempt (new_connection cfg observe w) of
            (result, c) \<Rightarrow> (result, \<lparr>tick = tick c, stop_requested = stop_requested c, trace = trace c\<rparr>))"

end
