(* ===== verification/App.thy ===== *)
theory App
  imports Discovery Retry Load Flex_Session
begin

text \<open>
  The program, \<^verbatim>\<open>src/main.c\<close>: its options, the summary of a configuration, and the loops
  that run one session after another. The world is that of the sessions; what is printed
  is recorded in the trace.
\<close>

subsection \<open>Printing\<close>

definition newline :: string where
  "newline = [CHR 0x0A]"

definition DEFAULT_CONFIG :: string where
  "DEFAULT_CONFIG = ''/etc/antennaguardian-pilite/config.json''"

definition AG_ERROR_SIZE :: nat where "AG_ERROR_SIZE = 512"

definition print_usage :: string where
  "print_usage =
     ''Usage: antennaguardian-pilite [options]'' @ newline
     @ newline
     @ ''Options:'' @ newline
     @ ''  -c, --config PATH   Configuration file (default: '' @ DEFAULT_CONFIG @ '')'' @ newline
     @ ''      --check-config  Validate configuration without opening a socket'' @ newline
     @ ''      --observe       Subscribe and report; never create an interlock'' @ newline
     @ ''      --once          Exit instead of reconnecting after a disconnect'' @ newline
     @ ''  -v, --verbose       Log Flex protocol traffic'' @ newline
     @ ''      --version       Print version and exit'' @ newline
     @ ''  -h, --help          Show this help'' @ newline"

text \<open>The names of the allowed bands, the first after a space and the others after a comma.\<close>

fun band_list :: "16 word \<Rightarrow> nat list \<Rightarrow> bool \<Rightarrow> string" where
  "band_list flags [] first = (if first then '' <no bands allowed>'' else [])"
| "band_list flags (k # ks) first =
     (if and flags (band_flag k) \<noteq> 0
      then (if first then '' '' else '', '') @ (case ag_band_name k of Some name \<Rightarrow> name | None \<Rightarrow> ''(null)'')
             @ band_list flags ks False
      else band_list flags ks first)"

definition antenna_summary :: "ag_antenna_policy \<Rightarrow> string" where
  "antenna_summary p =
     antenna_id p @ '':'' @ band_list (allowed_bands p) [0..<ag_band_count] True @ newline"

definition print_config_summary :: "ag_config \<Rightarrow> string" where
  "print_config_summary cfg =
     ''Configuration valid'' @ newline
     @ (if radio_mode cfg = AG_RADIO_DISCOVERY
        then ''Radio: Flex UDP discovery''
             @ (if radio_serial cfg \<noteq> [] then '' serial='' @ radio_serial cfg else [])
             @ (if discovery_ip cfg \<noteq> [] then '' ip='' @ discovery_ip cfg else [])
             @ newline
        else ''Radio: '' @ host cfg @ '':'' @ dec_string (unat (port cfg)) @ newline
             @ ''Reconnect: '' @ dec_string (unat (reconnect_seconds cfg)) @ '' seconds initial, ''
             @ dec_string (unat (reconnect_max_seconds cfg)) @ '' seconds maximum'' @ newline
             @ ''Unavailable log interval: '' @ dec_string (unat (reconnect_log_seconds cfg))
             @ '' seconds'' @ newline)
     @ concat (map antenna_summary (antennas cfg))"

subsection \<open>Options\<close>

record options =
  config_path :: string
  check_config :: bool
  opt_observe :: bool
  once :: bool
  verbose :: bool

definition default_options :: options where
  "default_options =
     \<lparr>config_path = DEFAULT_CONFIG, check_config = False, opt_observe = False, once = False,
      verbose = False\<rparr>"

text \<open>The loop over \<^verbatim>\<open>argv[1..]\<close>: the options, or what is printed and the exit status.\<close>

fun parse_options :: "string \<Rightarrow> string list \<Rightarrow> options \<Rightarrow> (event list \<times> int) + options" where
  "parse_options version [] opts = Inr opts"
| "parse_options version (arg # args) opts =
     (if (arg = ''-c'' \<or> arg = ''--config'') \<and> args \<noteq> []
      then (case args of [] \<Rightarrow> Inr opts | path # rest \<Rightarrow> parse_options version rest (opts\<lparr>config_path := path\<rparr>))
      else if arg = ''--check-config'' then parse_options version args (opts\<lparr>check_config := True\<rparr>)
      else if arg = ''--observe'' then parse_options version args (opts\<lparr>opt_observe := True\<rparr>)
      else if arg = ''--once'' then parse_options version args (opts\<lparr>once := True\<rparr>)
      else if arg = ''-v'' \<or> arg = ''--verbose'' then parse_options version args (opts\<lparr>verbose := True\<rparr>)
      else if arg = ''--version''
      then Inl ([Stdout (''AntennaGuardianPiLite '' @ version @ newline)], 0)
      else if arg = ''-h'' \<or> arg = ''--help'' then Inl ([Stdout print_usage], 0)
      else Inl ([Stderr (''Unknown or incomplete option: '' @ arg @ newline), Stderr print_usage], 2))"

subsection \<open>Sleeping\<close>

text \<open>One interval of 200 ms, resumed after a signal unless that was the signal to stop.\<close>

fun sleep_interval :: "env \<Rightarrow> nat \<Rightarrow> ('w world_scheme, unit) prog" where
  "sleep_interval E 0 = cut"
| "sleep_interval E (Suc n) =
     bind (sys (env_nanosleep E)) (\<lambda>slept.
       case slept of
         Sys_ok u \<Rightarrow> emit Slept
       | Sys_error e \<Rightarrow>
           if e \<noteq> EINTR then ret ()
           else bind (read_stop E) (\<lambda>stop. if stop then ret () else sleep_interval E n))"

fun sleep_rounds :: "env \<Rightarrow> nat \<Rightarrow> nat \<Rightarrow> ('w world_scheme, unit) prog" where
  "sleep_rounds E n 0 = ret ()"
| "sleep_rounds E n (Suc k) =
     bind (read_stop E) (\<lambda>stop.
       if stop then ret () else bind (sleep_interval E n) (\<lambda>_. sleep_rounds E n k))"

definition sleep_interruptibly :: "env \<Rightarrow> nat \<Rightarrow> 32 word \<Rightarrow> ('w world_scheme, unit) prog" where
  "sleep_interruptibly E n seconds = sleep_rounds E n (unat (seconds * 5))"

subsection \<open>The loops\<close>

definition stopped :: "(world, int) prog" where
  "stopped = bind (ag_log AG_LOG_INFO Msg_stopped) (\<lambda>_. ret 0)"

text \<open>Where a session connects to after a discovery: everything else is the configuration.\<close>

definition session_config :: "ag_config \<Rightarrow> ag_discovered_radio \<Rightarrow> ag_config" where
  "session_config cfg radio =
     cfg\<lparr>host := snprintf_str (AG_MAX_HOST + 1) (radio_host radio), port := radio_port radio\<rparr>"

definition log_discovered :: "ag_discovered_radio \<Rightarrow> (world, unit) prog" where
  "log_discovered radio =
     ag_log AG_LOG_INFO (Msg_discovered (if model radio = [] then ''Flex radio'' else model radio)
       (radio_name radio) (serial radio) (radio_host radio) (radio_port radio))"

fun discovery_loop :: "env \<Rightarrow> nat \<Rightarrow> nat \<Rightarrow> ag_config \<Rightarrow> options \<Rightarrow> bool \<Rightarrow> (world, int) prog" where
  "discovery_loop E n 0 cfg opts log_connection =
     bind (read_stop E) (\<lambda>stop. if stop then stopped else cut)"
| "discovery_loop E n (Suc k) cfg opts log_connection =
     bind (read_stop E) (\<lambda>stop.
       if stop then stopped
       else
     bind (ag_discovery_wait E n cfg) (\<lambda>result.
       case result of
         AG_DISCOVERY_STOPPED \<Rightarrow> stopped
       | AG_DISCOVERY_ERROR \<Rightarrow> bind (read_stop E) (\<lambda>stop. if stop then stopped else ret 1)
       | AG_DISCOVERY_MATCHED radio \<Rightarrow>
     bind (read_stop E) (\<lambda>stop.
       if stop then stopped
       else
     bind (if log_connection then log_discovered radio else ret ()) (\<lambda>_.
     bind (ag_flex_run_session E n (session_config cfg radio) (opt_observe opts) log_connection)
       (\<lambda>session_result.
     bind (read_stop E) (\<lambda>stop.
       if stop \<or> session_result = AG_SESSION_STOPPED then stopped
       else if once opts then ret 1
       else if session_result = AG_SESSION_UNAVAILABLE
       then discovery_loop E n k cfg opts False
       else bind (ag_log AG_LOG_WARNING Msg_session_ended)
              (\<lambda>_. discovery_loop E n k cfg opts True)))))))"

fun direct_loop ::
  "env \<Rightarrow> nat \<Rightarrow> nat \<Rightarrow> ag_config \<Rightarrow> options \<Rightarrow> 32 word \<Rightarrow> int \<Rightarrow> bool \<Rightarrow> (world, int) prog" where
  "direct_loop E n 0 cfg opts retry_delay next_unavailable_log log_connection_attempt =
     bind (read_stop E) (\<lambda>stop. if stop then stopped else cut)"
| "direct_loop E n (Suc k) cfg opts retry_delay next_unavailable_log log_connection_attempt =
     bind (read_stop E) (\<lambda>stop.
       if stop then stopped
       else
     bind (ag_flex_run_session E n cfg (opt_observe opts) log_connection_attempt) (\<lambda>result.
     bind (read_stop E) (\<lambda>stop.
       if stop \<or> result = AG_SESSION_STOPPED then stopped
       else if once opts then ret 1
       else if result = AG_SESSION_UNAVAILABLE then
         bind (if log_connection_attempt
               then bind (ag_log AG_LOG_WARNING (Msg_unavailable retry_delay (reconnect_log_seconds cfg))) (\<lambda>_.
                    bind (monotonic_milliseconds E) (\<lambda>now.
                      ret (now + int (unat (reconnect_log_seconds cfg)) * 1000)))
               else ret next_unavailable_log) (\<lambda>next_log.
         bind (sleep_interruptibly E n retry_delay) (\<lambda>_.
         bind (monotonic_milliseconds E) (\<lambda>now.
           direct_loop E n k cfg opts (ag_retry_next_delay retry_delay (reconnect_max_seconds cfg))
             next_log (next_log \<le> now))))
       else
         bind (ag_log AG_LOG_WARNING (Msg_reconnecting (reconnect_seconds cfg))) (\<lambda>_.
         bind (sleep_interruptibly E n (reconnect_seconds cfg)) (\<lambda>_.
           direct_loop E n k cfg opts (reconnect_seconds cfg) next_unavailable_log True)))))"

subsection \<open>The program\<close>

fun emit_all :: "event list \<Rightarrow> (world, unit) prog" where
  "emit_all [] = ret ()"
| "emit_all (e # es) = bind (emit e) (\<lambda>_. emit_all es)"

text \<open>The daemon proper, with its options and its configuration.\<close>

definition guard_radio :: "env \<Rightarrow> nat \<Rightarrow> options \<Rightarrow> ag_config \<Rightarrow> (world, int) prog" where
  "guard_radio E n opts cfg =
     bind (emit (Set_verbose (verbose opts))) (\<lambda>_.
     bind (ag_log AG_LOG_INFO (Msg_starting (opt_observe opts))) (\<lambda>_.
       if radio_mode cfg = AG_RADIO_DISCOVERY
       then bind (ag_log AG_LOG_INFO Msg_waiting_discovery)
              (\<lambda>_. discovery_loop E n n cfg opts True)
       else direct_loop E n n cfg opts (reconnect_seconds cfg) 0 True))"

text \<open>\<open>files\<close> says what the calls on the configuration file at a path return.\<close>

definition main :: "env \<Rightarrow> nat \<Rightarrow> string \<Rightarrow> (string \<Rightarrow> file_io) \<Rightarrow> string list \<Rightarrow> (world, int) prog" where
  "main E n version files args =
     (case parse_options version args default_options of
        Inl (output, status) \<Rightarrow> bind (emit_all output) (\<lambda>_. ret status)
      | Inr opts \<Rightarrow>
          (case load_config (config_path opts) (files (config_path opts)) of
             Inl e \<Rightarrow>
               bind (emit (Stderr (''Configuration error: '' @ fail AG_ERROR_SIZE e @ newline)))
                 (\<lambda>_. ret 2)
           | Inr cfg \<Rightarrow>
               if check_config opts
               then bind (emit (Stdout (print_config_summary cfg))) (\<lambda>_. ret 0)
               else guard_radio E n opts cfg))"

end
