(* ===== verification/Interlock_Spec.thy ===== *)
theory Interlock_Spec
  imports World Payload_Fields
begin

text \<open>
  The abstract specification of a Flex session: which commands the daemon may send, given
  what the radio has reported so far. It reads the trace of a run and nothing else: the lines
  received (\<^verbatim>\<open>"< %s"\<close>), the commands issued (\<^verbatim>\<open>"> %s"\<close>) and the messages that mark a
  new connection.
\<close>

subsection \<open>The radio's reports\<close>

text \<open>
  The transmit context as last reported, and whether a transmission that was requested in
  an allowed context is still wanted.
\<close>

record view =
  v_known :: bool
  v_mhz :: binary64
  v_antenna :: string
  v_wanted :: bool

definition no_view :: view where
  "no_view = \<lparr>v_known = False, v_mhz = Finite 0, v_antenna = [], v_wanted = False\<rparr>"

type_synonym permission = "bool \<Rightarrow> binary64 \<Rightarrow> string \<Rightarrow> bool"

definition permitted :: "permission \<Rightarrow> view \<Rightarrow> bool" where
  "permitted permits v = permits (v_known v) (v_mhz v) (v_antenna v)"

definition status_payload :: "string \<Rightarrow> string" where
  "status_payload line = drop 1 (dropWhile (\<lambda>c. c \<noteq> CHR ''|'') line)"

definition report_frequency :: "string \<Rightarrow> view \<Rightarrow> view" where
  "report_frequency payload v =
     (case flex_field_value payload ''freq'' 128 of
        None \<Rightarrow> v
      | Some s \<Rightarrow>
          let r = strtod s
          in v\<lparr>v_mhz := d_value r, v_known := \<not> d_erange r \<and> d_end r \<noteq> s \<and> d_end r = []\<rparr>)"

definition report_antenna :: "string \<Rightarrow> view \<Rightarrow> view" where
  "report_antenna payload v =
     (case flex_field_value payload ''tx_antenna'' 128 of
        None \<Rightarrow> v
      | Some s \<Rightarrow>
          if strcasecmp_eq s ''INVALID'' then v\<lparr>v_known := False, v_antenna := []\<rparr>
          else if 31 < length s then v\<lparr>v_antenna := []\<rparr>
          else v\<lparr>v_antenna := s\<rparr>)"

text \<open>A new context ends the wish to transmit unless it is permitted too.\<close>

definition report_transmit :: "permission \<Rightarrow> string \<Rightarrow> view \<Rightarrow> view" where
  "report_transmit permits payload v =
     (let v' = report_antenna payload (report_frequency payload v)
      in v'\<lparr>v_wanted := v_wanted v \<and> permitted permits v'\<rparr>)"

definition report_interlock :: "permission \<Rightarrow> string \<Rightarrow> view \<Rightarrow> view" where
  "report_interlock permits payload v =
     (case flex_field_value payload ''state'' 64 of
        None \<Rightarrow> v
      | Some s \<Rightarrow>
          if s = ''PTT_REQUESTED'' then v\<lparr>v_wanted := permitted permits v\<rparr>
          else if s = ''UNKEY_REQUESTED'' then v\<lparr>v_wanted := False\<rparr>
          else v)"

definition report :: "permission \<Rightarrow> string \<Rightarrow> view \<Rightarrow> view" where
  "report permits line v =
     (if starts_with ''transmit '' (status_payload line)
      then report_transmit permits (drop 9 (status_payload line)) v
      else if starts_with ''interlock '' (status_payload line)
      then report_interlock permits (drop 10 (status_payload line)) v
      else v)"

fun view_step :: "permission \<Rightarrow> event \<Rightarrow> view \<Rightarrow> view" where
  "view_step permits (Log l (Msg_connected h p)) v = no_view"
| "view_step permits (Log l (Msg_line line)) v = report permits line v"
| "view_step permits e v = v"

primrec view_of :: "permission \<Rightarrow> event list \<Rightarrow> view" where
  "view_of permits [] = no_view"
| "view_of permits (e # tr) = view_step permits e (view_of permits tr)"

subsection \<open>The daemon's commands\<close>

datatype radio_command =
  Subscription nat | Create | Set_ready bool | Remove | Other_command

definition setup_commands :: "string list" where
  "setup_commands = [''name AntennaGuardianPiLite'', ''sub radio all'', ''sub slice all'', ''sub tx all'']"

definition classify :: "string \<Rightarrow> radio_command" where
  "classify c =
     (if starts_with ''interlock create '' c then Create
      else if starts_with ''interlock ready '' c then Set_ready True
      else if starts_with ''interlock not_ready '' c then Set_ready False
      else if starts_with ''interlock remove '' c then Remove
      else let k = index_from (\<lambda>s. s = c) 0 setup_commands
        in if k < 0 then Other_command else Subscription (nat k))"

text \<open>
  The phases of a session. The interlock is created blocked; it is released only while a
  permitted transmission is wanted; once it exists, every command sets or removes it.
\<close>

datatype phase = Setup nat | Creating | Blocked | Released | Removed

abbreviation armed :: "phase \<Rightarrow> bool" where
  "armed p \<equiv> p = Blocked \<or> p = Released"

fun command_step :: "bool \<Rightarrow> bool \<Rightarrow> radio_command \<Rightarrow> phase \<Rightarrow> phase option" where
  "command_step protect wanted (Subscription j) (Setup k) = (if j = k then Some (Setup (Suc k)) else None)"
| "command_step protect wanted Create (Setup k) = (if protect \<and> k = 4 then Some Creating else None)"
| "command_step protect wanted (Set_ready False) Creating = Some Blocked"
| "command_step protect wanted (Set_ready False) Blocked = Some Blocked"
| "command_step protect wanted (Set_ready False) Released = Some Blocked"
| "command_step protect wanted (Set_ready True) Blocked = (if wanted then Some Released else None)"
| "command_step protect wanted (Set_ready True) Released = (if wanted then Some Released else None)"
| "command_step protect wanted Remove Creating = Some Removed"
| "command_step protect wanted Remove Blocked = Some Removed"
| "command_step protect wanted Remove Released = Some Removed"
| "command_step protect wanted c ph = None"

text \<open>
  A new connection is only made when no interlock of the last one is left. The defensive
  branches of the code that no run reaches: their messages are refused.
\<close>

fun phase_step :: "bool \<Rightarrow> bool \<Rightarrow> event \<Rightarrow> phase \<Rightarrow> phase option" where
  "phase_step protect wanted (Log l (Msg_connected h p)) ph = (if armed ph then None else Some (Setup 0))"
| "phase_step protect wanted (Log l (Msg_command c)) ph = command_step protect wanted (classify c) ph"
| "phase_step protect wanted (Log l Msg_nested) ph = None"
| "phase_step protect wanted (Log l Msg_line_too_large) ph = None"
| "phase_step protect wanted (Log l Msg_buffer_exceeded) ph = None"
| "phase_step protect wanted (Log l Msg_command_too_long) ph = None"
| "phase_step protect wanted (Log l Msg_antenna_list_too_long) ph = None"
| "phase_step protect wanted e ph = Some ph"

primrec phase_of :: "permission \<Rightarrow> bool \<Rightarrow> event list \<Rightarrow> phase option" where
  "phase_of permits protect [] = Some (Setup 0)"
| "phase_of permits protect (e # tr) =
     (case phase_of permits protect tr of
        None \<Rightarrow> None
      | Some ph \<Rightarrow> phase_step protect (v_wanted (view_of permits tr)) e ph)"

definition accepts :: "permission \<Rightarrow> bool \<Rightarrow> event list \<Rightarrow> bool" where
  "accepts permits protect tr \<longleftrightarrow> phase_of permits protect tr \<noteq> None"

subsection \<open>What an accepted trace guarantees\<close>

lemma accepts_suffix: "accepts permits protect (post @ pre) \<Longrightarrow> accepts permits protect pre"
  by (induction post) (auto simp: accepts_def split: option.splits)

lemma wanted_permitted: "v_wanted (view_of permits tr) \<Longrightarrow> permitted permits (view_of permits tr)"
proof (induction tr)
  case (Cons e tr)
  have "permitted permits (v\<lparr>v_wanted := b\<rparr>) = permitted permits v" for v b
    by (simp add: permitted_def)
  with Cons show ?case
    by (cases "(permits, e, view_of permits tr)" rule: view_step.cases)
      (auto simp: report_def report_transmit_def report_interlock_def Let_def no_view_def
        split: if_splits option.splits)
qed (simp add: no_view_def)

lemma command_step_ready:
  "command_step protect wanted (Set_ready True) ph = Some ph' \<Longrightarrow> wanted \<and> (ph = Blocked \<or> ph = Released)"
  by (cases ph) (auto split: if_splits)

lemma ready_is_permitted:
  assumes "accepts permits protect (post @ Log l (Msg_command c) # pre)" and "classify c = Set_ready True"
  shows "permitted permits (view_of permits pre)"
    and "phase_of permits protect pre = Some Blocked \<or> phase_of permits protect pre = Some Released"
proof -
  have "accepts permits protect (Log l (Msg_command c) # pre)" using assms(1) by (rule accepts_suffix)
  then obtain ph ph' where "phase_of permits protect pre = Some ph"
    "command_step protect (v_wanted (view_of permits pre)) (Set_ready True) ph = Some ph'"
    using assms(2) by (auto simp: accepts_def split: option.splits)
  then show "permitted permits (view_of permits pre)"
    and "phase_of permits protect pre = Some Blocked \<or> phase_of permits protect pre = Some Released"
    using command_step_ready wanted_permitted by fastforce+
qed

text \<open>Without protection only the subscriptions are ever sent.\<close>

lemma observe_only_subscribes:
  assumes "accepts permits False tr"
  shows "\<exists>k. phase_of permits False tr = Some (Setup k)"
  using assms
proof (induction tr)
  case (Cons e tr)
  then have "accepts permits False tr" using accepts_suffix [of permits False "[e]"] by simp
  with Cons.IH obtain k where k: "phase_of permits False tr = Some (Setup k)" by blast
  have "\<exists>j. phase_step False w e (Setup k) = Some (Setup j)" if "phase_step False w e (Setup k) \<noteq> None" for w
    using that
  proof (cases "(False, w, e, Setup k)" rule: phase_step.cases)
    case (2 protect wanted l c ph)
    with that show ?thesis by (cases "classify c") (auto split: if_splits)
  qed auto
  then show ?case using Cons.prems k by (auto simp: accepts_def)
qed simp

end
