(* ===== verification/Flex_Handlers.thy ===== *)
theory Flex_Handlers
  imports Flex_Session Interlock_Spec
begin

text \<open>
  The handlers of status lines against the specification: after a line the connection's
  context is the view of the trace, and the interlock is asked for exactly what the
  specification wants.
\<close>

subsection \<open>Reading the state off the trace\<close>

definition permits_of :: "ag_config \<Rightarrow> permission" where
  "permits_of cfg k f a = allowed (ag_policy_evaluate cfg k f (Some a))"

definition vw :: "ag_config \<Rightarrow> ag_connection \<Rightarrow> view" where
  "vw cfg c = view_of (permits_of cfg) (trace c)"

definition ph :: "ag_config \<Rightarrow> ag_connection \<Rightarrow> phase option" where
  "ph cfg c = phase_of (permits_of cfg) (\<not> observe_only c) (trace c)"

text \<open>Messages that mean nothing to the specification.\<close>

fun quiet :: "event \<Rightarrow> bool" where
  "quiet (Log l (Msg_connected h p)) = False"
| "quiet (Log l (Msg_line s)) = False"
| "quiet (Log l (Msg_command s)) = False"
| "quiet (Log l Msg_nested) = False"
| "quiet (Log l Msg_line_too_large) = False"
| "quiet (Log l Msg_buffer_exceeded) = False"
| "quiet (Log l Msg_command_too_long) = False"
| "quiet (Log l Msg_antenna_list_too_long) = False"
| "quiet e = True"

lemma quiet_view [simp]: "quiet e \<Longrightarrow> view_step permits e v = v"
  by (cases "(permits, e, v)" rule: view_step.cases) auto

lemma quiet_phase [simp]: "quiet e \<Longrightarrow> phase_step protect w e p = Some p"
  by (cases "(protect, w, e, p)" rule: phase_step.cases) auto

lemma quiet_view_of: "list_all quiet ql \<Longrightarrow> view_of permits (ql @ tr) = view_of permits tr"
  by (induction ql) auto

lemma quiet_phase_of: "list_all quiet ql \<Longrightarrow> phase_of permits protect (ql @ tr) = phase_of permits protect tr"
  by (induction ql) (auto split: option.splits)

definition same_context :: "view \<Rightarrow> ag_connection \<Rightarrow> bool" where
  "same_context v c \<longleftrightarrow>
     has_frequency c = v_known v \<and> frequency_mhz c = v_mhz v \<and> tx_antenna c = v_antenna v"

lemma evaluate_context_permitted:
  assumes "same_context v c" and "antennas (config c) = antennas cfg"
  shows "allowed (evaluate_context c) \<longleftrightarrow> permitted (permits_of cfg) v"
  using assms evaluate_antennas_only [OF assms(2)]
  by (simp add: evaluate_context_def permitted_def permits_of_def same_context_def)

subsection \<open>The context after a transmit line\<close>

definition with_context :: "view \<Rightarrow> event list \<Rightarrow> ag_connection \<Rightarrow> ag_connection" where
  "with_context v ql c =
     c\<lparr>has_frequency := v_known v, frequency_mhz := v_mhz v, tx_antenna := v_antenna v,
       trace := ql @ trace c\<rparr>"

lemma with_context_same: "same_context v (with_context v ql c)"
  by (simp add: same_context_def with_context_def)

lemma with_context_trivial: "same_context v c \<Longrightarrow> with_context v [] c = c"
  by (simp add: same_context_def with_context_def)

lemma with_context_quiet:
  "with_context v ql c\<lparr>trace := e # trace (with_context v ql c)\<rparr> = with_context v (e # ql) c"
  by (simp add: with_context_def)

lemma report_antenna_length: "length (v_antenna v) \<le> 31 \<Longrightarrow> length (v_antenna (report_antenna p v)) \<le> 31"
  by (auto simp: report_antenna_def split: option.split)

lemma report_frequency_antenna [simp]: "v_antenna (report_frequency p v) = v_antenna v"
  by (simp add: report_frequency_def Let_def split: option.split)

lemma frequency_step:
  assumes "same_context v c"
  shows "wp (case flex_field_value p ''freq'' 128 of None \<Rightarrow> ret () | Some value \<Rightarrow> modify (set_frequency value))
      Q C c \<longleftrightarrow> Q () (with_context (report_frequency p v) [] c)"
  using assms
  by (cases "flex_field_value p ''freq'' 128"; cases c)
    (simp_all add: wp_rules set_frequency_def report_frequency_def Let_def with_context_def same_context_def)

lemma antenna_step:
  assumes "same_context v c"
  shows "\<exists>ql. list_all quiet ql \<and> (\<forall>Q C.
    wp (case flex_field_value p ''tx_antenna'' 128 of None \<Rightarrow> ret () | Some value \<Rightarrow> set_antenna value)
      Q C c \<longleftrightarrow> Q () (with_context (report_antenna p v) ql c))"
proof (cases "flex_field_value p ''tx_antenna'' 128")
  case None
  then show ?thesis using assms
    by (intro exI [of _ "[]"]) (simp add: wp_rules report_antenna_def with_context_trivial)
next
  case (Some s)
  consider "strcasecmp_eq s ''INVALID''" | "\<not> strcasecmp_eq s ''INVALID''" "31 < length s"
    | "\<not> strcasecmp_eq s ''INVALID''" "\<not> 31 < length s" by blast
  then show ?thesis
  proof cases
    case 2
    then show ?thesis using Some assms
      by (intro exI [of _ "[Log AG_LOG_WARNING Msg_invalid_antenna]"])
        (cases c, simp add: wp_rules set_antenna_def report_antenna_def with_context_def same_context_def)
  qed (use Some assms in \<open>intro exI [of _ "[]"], cases c,
      simp add: wp_rules set_antenna_def report_antenna_def with_context_def same_context_def\<close>)+
qed

lemma with_context_twice:
  "with_context v' ql' (with_context v ql c) = with_context v' (ql' @ ql) c"
  by (simp add: with_context_def)

subsection \<open>Lines\<close>

definition after_line :: "ag_config \<Rightarrow> string \<Rightarrow> ag_connection \<Rightarrow> ag_connection \<Rightarrow> bool" where
  "after_line cfg line c c' \<longleftrightarrow>
     (\<exists>ql. list_all quiet ql \<and>
        c' = with_context (report (permits_of cfg) line (vw cfg c))
               (ql @ [Log AG_LOG_DEBUG (Msg_line line)]) c)"

lemma after_line_view: "after_line cfg line c c' \<Longrightarrow> vw cfg c' = report (permits_of cfg) line (vw cfg c)"
  by (auto simp: after_line_def vw_def with_context_def quiet_view_of)

lemma after_line_phase:
  assumes "after_line cfg line c c'"
  shows "ph cfg c' = ph cfg c"
proof -
  have "phase_of P b (ql @ Log l (Msg_line line) # tr) = phase_of P b tr" if "list_all quiet ql" for P b ql l tr
    using that by (simp add: quiet_phase_of split: option.split)
  then show ?thesis using assms by (auto simp: after_line_def ph_def with_context_def)
qed

lemma after_line_quiet:
  assumes "after_line cfg line c c'" and "quiet e"
  shows "after_line cfg line c (c'\<lparr>trace := e # trace c'\<rparr>)"
proof -
  from assms(1) obtain ql where "list_all quiet ql"
    "c' = with_context (report (permits_of cfg) line (vw cfg c)) (ql @ [Log AG_LOG_DEBUG (Msg_line line)]) c"
    by (auto simp: after_line_def)
  then show ?thesis using assms(2) unfolding after_line_def
    by (intro exI [of _ "e # ql"]) (simp add: with_context_quiet)
qed

lemma after_line_context:
  "after_line cfg line c c' \<Longrightarrow> same_context (vw cfg c') c'"
  using after_line_view [of cfg line c c'] by (auto simp: after_line_def with_context_same)

lemma after_line_frame:
  assumes "after_line cfg line c c'"
  shows "config c' = config c" "observe_only c' = observe_only c" "interlock_id c' = interlock_id c"
    "command_in_progress c' = command_in_progress c" "stop_requested c' = stop_requested c"
    "interlock_update_pending c' = interlock_update_pending c"
    "pending_interlock_ready c' = pending_interlock_ready c"
    "receive_buffer c' = receive_buffer c" "saved_responses c' = saved_responses c"
    "socket_fd c' = socket_fd c" "tick c' = tick c"
  using assms by (auto simp: after_line_def with_context_def)

lemma report_antenna_bound:
  assumes "length (v_antenna v) \<le> 31"
  shows "length (v_antenna (report permits line v)) \<le> 31"
  using assms report_antenna_length
  by (auto simp: report_def report_transmit_def report_interlock_def Let_def split: option.splits)

subsection \<open>The handlers\<close>

lemma handle_transmit_wp:
  fixes p v
  assumes sc: "same_context v c" and cfg: "antennas (config c) = antennas cfg"
  defines "v' \<equiv> report_antenna p (report_frequency p v)"
  shows "\<exists>ql. list_all quiet ql \<and> (\<forall>Q C. wp (handle_transmit send p) Q C c \<longleftrightarrow>
    (if \<not> permitted (permits_of cfg) v' \<and> interlock_id c \<noteq> []
     then wp (set_interlock send False) Q C (with_context v' ql c)
     else Q 0 (with_context v' ql c)))"
proof -
  obtain ql where ql: "list_all quiet ql" and
    ant: "\<And>Q C. wp (case flex_field_value p ''tx_antenna'' 128 of None \<Rightarrow> ret () | Some value \<Rightarrow> set_antenna value)
        Q C (with_context (report_frequency p v) [] c) \<longleftrightarrow>
      Q () (with_context v' ql (with_context (report_frequency p v) [] c))"
    using antenna_step [OF with_context_same] unfolding v'_def by blast
  have cfg': "antennas (config (with_context v' ql c)) = antennas cfg"
    "interlock_id (with_context v' ql c) = interlock_id c"
    using cfg by (simp_all add: with_context_def)
  note perm = evaluate_context_permitted [OF with_context_same cfg'(1)]
  have "wp (handle_transmit send p) Q C c \<longleftrightarrow>
    wp (bind (gets (\<lambda>c. c)) (\<lambda>c. if \<not> allowed (evaluate_context c) \<and> interlock_id c \<noteq> []
       then set_interlock send False else ret 0)) Q C (with_context v' ql c)" for Q C
    unfolding handle_transmit_def
    by (simp only: wp_bind frequency_step [OF sc] ant with_context_twice append_Nil2)
  moreover have "\<dots> Q C \<longleftrightarrow> (if \<not> permitted (permits_of cfg) v' \<and> interlock_id c \<noteq> []
     then wp (set_interlock send False) Q C (with_context v' ql c)
     else Q 0 (with_context v' ql c))" for Q C
    by (simp only: wp_bind wp_gets wp_if wp_ret perm cfg'(2))
  ultimately show ?thesis using ql by blast
qed

lemma log_decision_wp:
  "\<exists>e. quiet e \<and> (\<forall>Q C. wp (log_decision c1 d b) Q C c \<longleftrightarrow> Q () (c\<lparr>trace := e # trace c\<rparr>))"
proof -
  have "\<exists>l m. quiet (Log l m) \<and> log_decision c1 d b = (ag_log l m :: unit conn_prog)"
    by (simp add: log_decision_def) (metis quiet.simps)
  then obtain l m where "quiet (Log l m)" "log_decision c1 d b = (ag_log l m :: unit conn_prog)" by blast
  then show ?thesis by (auto simp: wp_ag_log)
qed

definition interlock_action :: "bool \<Rightarrow> bool \<Rightarrow> string option \<Rightarrow> bool option" where
  "interlock_action observe allow state =
     (case state of
        None \<Rightarrow> None
      | Some s \<Rightarrow>
          if s = ''PTT_REQUESTED'' then Some allow
          else if s = ''UNKEY_REQUESTED'' then (if observe then None else Some False)
          else if s = ''TRANSMITTING'' then (if allow \<or> observe then None else Some False)
          else None)"

lemma handle_interlock_wp:
  assumes sc: "same_context v c" and cfg: "antennas (config c) = antennas cfg"
  shows "\<exists>ql. list_all quiet ql \<and> (\<forall>Q C. wp (handle_interlock send p) Q C c \<longleftrightarrow>
    (case interlock_action (observe_only c) (permitted (permits_of cfg) v) (flex_field_value p ''state'' 64) of
       None \<Rightarrow> Q 0 (c\<lparr>trace := ql @ trace c\<rparr>)
     | Some b \<Rightarrow> wp (set_interlock send b) Q C (c\<lparr>trace := ql @ trace c\<rparr>)))"
proof -
  note perm = evaluate_context_permitted [OF sc cfg]
  consider "flex_field_value p ''state'' 64 = None"
    | "flex_field_value p ''state'' 64 = Some ''PTT_REQUESTED''"
    | "flex_field_value p ''state'' 64 = Some ''UNKEY_REQUESTED''"
    | "flex_field_value p ''state'' 64 = Some ''TRANSMITTING''"
    | s where "flex_field_value p ''state'' 64 = Some s" "s \<noteq> ''PTT_REQUESTED''"
        "s \<noteq> ''UNKEY_REQUESTED''" "s \<noteq> ''TRANSMITTING''"
    by (cases "flex_field_value p ''state'' 64") blast+
  then show ?thesis
  proof cases
    case 1
    then show ?thesis
      by (intro exI [of _ "[]"]) (simp add: handle_interlock_def interlock_action_def wp_ret)
  next
    case 2
    obtain e where "quiet e" "\<And>Q C. wp (log_decision c (evaluate_context c) (observe_only c)) Q C c
        \<longleftrightarrow> Q () (c\<lparr>trace := e # trace c\<rparr>)"
      using log_decision_wp [of c "evaluate_context c" "observe_only c" c] by blast
    then show ?thesis using 2
      by (intro exI [of _ "[e]"])
        (simp add: handle_interlock_def interlock_action_def wp_bind wp_gets perm)
  next
    case 3
    then show ?thesis
      by (intro exI [of _ "[Log AG_LOG_INFO (if observe_only c then Msg_observed_ended else Msg_ended)]"])
        (simp add: handle_interlock_def interlock_action_def wp_bind wp_gets wp_ag_log wp_ret)
  next
    case 4
    let ?e = "if \<not> permitted (permits_of cfg) v
      then if observe_only c then Log AG_LOG_WARNING (Msg_observed_outside (tx_antenna c) (frequency_mhz c))
        else Log AG_LOG_ERROR Msg_fault
      else Log AG_LOG_INFO
        (if observe_only c
         then Msg_observed_transmitting (tx_antenna c) (band (evaluate_context c)) (frequency_mhz c)
         else Msg_transmitting (tx_antenna c) (band (evaluate_context c)) (frequency_mhz c))"
    show ?thesis using 4
      by (intro exI [of _ "[?e]"])
        (simp add: handle_interlock_def interlock_action_def wp_bind wp_gets wp_ag_log wp_ret perm)
  next
    case 5
    then show ?thesis
      by (intro exI [of _ "[]"]) (simp add: handle_interlock_def interlock_action_def wp_ret)
  qed
qed

lemma interlock_action_wanted:
  assumes "v_wanted v \<Longrightarrow> permitted permits v"
  shows "case interlock_action observe (permitted permits v) (flex_field_value p ''state'' 64) of
      None \<Rightarrow> observe \<or> v_wanted (report_interlock permits p v) = v_wanted v
    | Some b \<Rightarrow> v_wanted (report_interlock permits p v) = b"
  using assms
  by (cases "flex_field_value p ''state'' 64") (auto simp: interlock_action_def report_interlock_def)

text \<open>
  Handling a line either leaves the interlock alone, which is right if there is none or if
  the wish to transmit has not changed, or sets it to what is wanted now.
\<close>

lemma status_dispatch:
  "handle_status send line =
    (if starts_with ''transmit '' (status_payload line)
     then handle_transmit send (drop 9 (status_payload line))
     else if starts_with ''interlock '' (status_payload line)
     then handle_interlock send (drop 10 (status_payload line)) else ret 0)"
proof (cases "dropWhile (\<lambda>c. c \<noteq> CHR ''|'') line")
  case Nil
  have "\<not> starts_with ''transmit '' []" "\<not> starts_with ''interlock '' []"
    by (simp_all add: starts_with_def)
  with Nil show ?thesis by (simp only: handle_status_def status_payload_def list.case drop_Nil if_False)
next
  case (Cons sep payload)
  have "\<not> starts_with ''transmit '' []" "\<not> starts_with ''interlock '' []"
    by (simp_all add: starts_with_def)
  moreover have "status_payload line = payload" by (simp add: status_payload_def Cons)
  ultimately show ?thesis
    by (simp only: handle_status_def Cons list.case) (cases "payload = []"; simp only: if_True if_False simp_thms)
qed

lemma handle_status_wp:
  assumes ctx: "same_context (vw cfg c) c" and cfg: "antennas (config c) = antennas cfg"
    and idle: "\<And>c'. after_line cfg line c c' \<Longrightarrow> interlock_id c = [] \<or> observe_only c
      \<or> v_wanted (vw cfg c') = v_wanted (vw cfg c) \<Longrightarrow> Q 0 c'"
    and act: "\<And>c'. after_line cfg line c c' \<Longrightarrow> wp (set_interlock send (v_wanted (vw cfg c'))) Q C c'"
  shows "wp (handle_status send line) Q C (c\<lparr>trace := Log AG_LOG_DEBUG (Msg_line line) # trace c\<rparr>)"
proof -
  define P where "P = permits_of cfg"
  define v where "v = vw cfg c"
  define pay where "pay = status_payload line"
  define c1 where "c1 = c\<lparr>trace := Log AG_LOG_DEBUG (Msg_line line) # trace c\<rparr>"
  have c1: "c1 = with_context v [Log AG_LOG_DEBUG (Msg_line line)] c"
    using ctx by (cases c) (simp add: c1_def with_context_def same_context_def v_def)
  have sc1: "same_context v c1" unfolding c1 by (rule with_context_same)
  have cfg1: "antennas (config c1) = antennas cfg" "interlock_id c1 = interlock_id c"
    "observe_only c1 = observe_only c" by (simp_all add: c1_def cfg)
  have al: "after_line cfg line c (with_context (report P line v) ql c1)" if "list_all quiet ql" for ql
    using that unfolding after_line_def c1 with_context_twice P_def v_def by blast
  consider (transmit) "starts_with ''transmit '' pay"
    | (interlock) "\<not> starts_with ''transmit '' pay" "starts_with ''interlock '' pay"
    | (other) "\<not> starts_with ''transmit '' pay" "\<not> starts_with ''interlock '' pay" by blast
  then have "wp (handle_status send line) Q C c1"
  proof cases
    case transmit
    define p where "p = drop 9 pay"
    define v2 where "v2 = report_antenna p (report_frequency p v)"
    have rep: "report P line v = v2\<lparr>v_wanted := v_wanted v \<and> permitted P v2\<rparr>"
      using transmit by (simp add: report_def report_transmit_def pay_def p_def v2_def Let_def)
    obtain ql where ql: "list_all quiet ql" and
      h: "wp (handle_transmit send p) Q C c1 \<longleftrightarrow>
        (if \<not> permitted P v2 \<and> interlock_id c \<noteq> []
         then wp (set_interlock send False) Q C (with_context v2 ql c1) else Q 0 (with_context v2 ql c1))"
      using handle_transmit_wp [OF sc1 cfg1(1), of send p] cfg1(2) unfolding v2_def P_def by auto
    define c2 where "c2 = with_context v2 ql c1"
    have c2: "c2 = with_context (report P line v) ql c1" by (simp add: c2_def rep with_context_def)
    note al2 = al [OF ql, folded c2]
    have view: "vw cfg c2 = report P line v" using after_line_view [OF al2] by (simp add: P_def v_def)
    have "wp (handle_transmit send p) Q C c1"
    proof (cases "permitted P v2")
      case True
      then have "v_wanted (vw cfg c2) = v_wanted v" by (simp add: view rep)
      then show ?thesis using h True idle [OF al2] by (simp add: c2_def v_def)
    next
      case False
      then have "\<not> v_wanted (vw cfg c2)" by (simp add: view rep)
      then show ?thesis using h False idle [OF al2] act [OF al2] by (auto simp: c2_def [symmetric])
    qed
    then show ?thesis using transmit by (simp add: status_dispatch pay_def p_def)
  next
    case interlock
    define p where "p = drop 10 pay"
    have rep: "report P line v = report_interlock P p v"
      using interlock by (simp add: report_def pay_def p_def)
    obtain ql where ql: "list_all quiet ql" and
      h: "wp (handle_interlock send p) Q C c1 \<longleftrightarrow>
        (case interlock_action (observe_only c) (permitted P v) (flex_field_value p ''state'' 64) of
           None \<Rightarrow> Q 0 (c1\<lparr>trace := ql @ trace c1\<rparr>)
         | Some b \<Rightarrow> wp (set_interlock send b) Q C (c1\<lparr>trace := ql @ trace c1\<rparr>))"
      using handle_interlock_wp [OF sc1 cfg1(1), of send p] cfg1(3) unfolding P_def by auto
    define c2 where "c2 = c1\<lparr>trace := ql @ trace c1\<rparr>"
    have "same_context (report P line v) c1"
      using sc1 by (auto simp: rep report_interlock_def same_context_def split: option.split)
    then have c2: "c2 = with_context (report P line v) ql c1"
      by (cases c1) (simp add: c2_def with_context_def same_context_def)
    note al2 = al [OF ql, folded c2]
    have view: "vw cfg c2 = report_interlock P p v"
      using after_line_view [OF al2] rep by (simp add: P_def v_def)
    have wanted: "v_wanted v \<Longrightarrow> permitted P v"
      using wanted_permitted by (simp add: v_def vw_def P_def)
    have "wp (handle_interlock send p) Q C c1"
    proof (cases "interlock_action (observe_only c) (permitted P v) (flex_field_value p ''state'' 64)")
      case None
      then have "observe_only c \<or> v_wanted (vw cfg c2) = v_wanted v"
        using interlock_action_wanted [of v P "observe_only c" p] wanted unfolding view by simp
      then have "Q 0 c2" using idle [OF al2] by (auto simp: v_def)
      then show ?thesis using h None by (simp add: c2_def)
    next
      case (Some b)
      then have "v_wanted (vw cfg c2) = b"
        using interlock_action_wanted [of v P "observe_only c" p] wanted unfolding view by simp
      then have "wp (set_interlock send b) Q C c2" using act [OF al2] by simp
      then show ?thesis using h Some by (simp add: c2_def)
    qed
    then show ?thesis using interlock by (simp add: status_dispatch pay_def p_def)
  next
    case other
    then have rep: "report P line v = v" by (simp add: report_def pay_def)
    have "with_context v [] c1 = c1" by (rule with_context_trivial [OF sc1])
    then have "Q 0 c1" using al [of "[]"] idle [of c1] after_line_view [of cfg line c c1] rep
      by (simp add: P_def v_def)
    then show ?thesis using other by (simp add: status_dispatch pay_def wp_ret)
  qed
  then show ?thesis by (simp add: c1_def)
qed

end
