(* ===== verification/Flex_Invariants.thy ===== *)
theory Flex_Invariants
  imports Flex_Handlers
begin

text \<open>
  What a session may assume of the connection while it sends, receives and awaits a response:
  an invariant that the wire operations keep, and that handling a status line keeps while a
  command is in progress. The lemmas here hold of any such invariant.
\<close>

subsection \<open>Responses are not reports\<close>

lemma strtoul_rest:
  assumes "\<not> is_digit_of base d" "\<not> isspace d" "d \<noteq> CHR ''+''" "d \<noteq> CHR ''-''" "base = 10"
  shows "\<exists>pre. s = pre @ ul_end (strtoul s base) \<and> d \<notin> set pre"
proof -
  define s1 where "s1 = snd (read_sign (skip_space s))"
  have "\<exists>pre. s = pre @ s1 \<and> d \<notin> set pre"
  proof -
    have "s = takeWhile isspace s @ skip_space s" by (simp add: skip_space_def)
    moreover have "d \<notin> set (takeWhile isspace s)" using assms(2) by (auto dest: set_takeWhileD)
    moreover have "\<exists>sgn. skip_space s = sgn @ s1 \<and> d \<notin> set sgn"
    proof (cases "skip_space s")
      case (Cons c cs)
      show ?thesis
        using assms(3,4) Cons
        by (cases "c = CHR ''-'' \<or> c = CHR ''+''")
          (auto simp: s1_def read_sign_def intro: exI [of _ "[c]"])
    qed (simp add: s1_def read_sign_def)
    ultimately show ?thesis by (metis append_assoc set_append Un_iff)
  qed
  moreover have "s1 = takeWhile (is_digit_of base) s1 @ dropWhile (is_digit_of base) s1" by simp
  moreover have "d \<notin> set (takeWhile (is_digit_of base) s1)" using assms(1) by (auto dest: set_takeWhileD)
  ultimately have "\<exists>pre. s = pre @ dropWhile (is_digit_of base) s1 \<and> d \<notin> set pre"
    by (metis append_assoc set_append Un_iff)
  moreover have "skip_0x base s1 = s1" using assms(5) by (auto simp: skip_0x_def split: list.split)
  then have "ul_end (strtoul s base) = (if takeWhile (is_digit_of base) s1 = [] then s
      else dropWhile (is_digit_of base) s1)"
    by (auto simp: strtoul_def s1_def Let_def split: prod.splits)
  ultimately show ?thesis by auto
qed

lemma strtoul_16_start:
  assumes "ul_end (strtoul (c # s) 16) \<noteq> c # s"
  shows "isspace c \<or> c = CHR ''+'' \<or> c = CHR ''-'' \<or> is_digit_of 16 c"
proof (rule ccontr)
  assume no: "\<not> ?thesis"
  have "\<not> is_digit_of 16 c" "skip_space (c # s) = c # s" "read_sign (c # s) = (False, c # s)"
    using no by (simp_all add: skip_space_def read_sign_def)
  moreover have "is_digit_of 16 (CHR ''0'')" by code_simp
  then have "skip_0x 16 (c # s) = c # s" using no by (auto simp: skip_0x_def split: list.split)
  ultimately show False using assms by (simp add: strtoul_def)
qed

lemma response_payload:
  assumes "parse_response line = Some x"
  shows "\<exists>c cs. status_payload line = c # cs \<and> (isspace c \<or> c = CHR ''+'' \<or> c = CHR ''-'' \<or> is_digit_of 16 c)"
proof -
  obtain body where line: "line = CHR ''R'' # body"
    and ok: "ul_end (strtoul body 10) \<noteq> body"
    using assms by (auto simp: parse_response_def Let_def split: list.splits if_splits)
  obtain cursor where cursor: "ul_end (strtoul body 10) = CHR ''|'' # cursor"
    and code: "ul_end (strtoul cursor 16) \<noteq> cursor"
    using assms unfolding line
    by (auto simp: parse_response_def Let_def after_bar_def split: list.splits if_splits)
  have "\<not> is_digit_of 10 (CHR ''|'')" "\<not> isspace (CHR ''|'')" by code_simp+
  then obtain pre where pre: "body = pre @ CHR ''|'' # cursor" "CHR ''|'' \<notin> set pre"
    using strtoul_rest [of 10 "CHR ''|''" body] cursor by auto
  have "\<forall>x \<in> set pre. x \<noteq> CHR ''|''" using pre(2) by blast
  then have "dropWhile (\<lambda>c. c \<noteq> CHR ''|'') (pre @ CHR ''|'' # cursor) = CHR ''|'' # cursor"
    by (rule dropWhile_append_stop) simp
  then have "dropWhile (\<lambda>c. c \<noteq> CHR ''|'') line = CHR ''|'' # cursor"
    unfolding line pre(1) by simp
  then have payload: "status_payload line = cursor" by (simp add: status_payload_def)
  have "cursor \<noteq> []" using code by (auto simp: strtoul_def skip_space_def read_sign_def skip_0x_def)
  then obtain c cs where "cursor = c # cs" by (cases cursor) auto
  then show ?thesis using payload strtoul_16_start [of c cs] code by simp
qed

lemma response_is_no_report:
  assumes "parse_response line = Some x"
  shows "report permits line v = v"
proof -
  obtain c cs where p: "status_payload line = c # cs"
    and c: "isspace c \<or> c = CHR ''+'' \<or> c = CHR ''-'' \<or> is_digit_of 16 c"
    using response_payload [OF assms] by blast
  have "\<not> (isspace d \<or> d = CHR ''+'' \<or> d = CHR ''-'' \<or> is_digit_of 16 d)"
    if "d = CHR ''t'' \<or> d = CHR ''i''" for d
    using that by (elim disjE) (simp_all only:, code_simp+)
  then have "c \<noteq> CHR ''t''" "c \<noteq> CHR ''i''" using c by blast+
  then show ?thesis by (simp add: report_def p starts_with_def)
qed

subsection \<open>Invariants of the wire\<close>

definition saved_fit :: "ag_saved_response list \<Rightarrow> bool" where
  "saved_fit rs \<longleftrightarrow>
     length rs = AG_SAVED_RESPONSES \<and> (\<forall>r \<in> set rs. length (saved_body r) < AG_RESPONSE_BODY)"

lemma store_response_fit:
  "store_response r rs = Some rs' \<Longrightarrow>
    length rs' = length rs \<and> set rs' \<subseteq> insert r (set rs)"
  by (induction rs arbitrary: rs') (auto split: if_splits)

lemma fetch_response_fit:
  "fetch_response q rs = (found, rs') \<Longrightarrow> \<forall>r \<in> set rs. P (saved_body r) \<Longrightarrow>
    length rs' = length rs \<and> (\<forall>r \<in> set rs'. P (saved_body r))"
  by (induction rs arbitrary: rs') (auto split: if_splits prod.splits)

lemma saved_fit_store:
  assumes "saved_fit rs" and "store_response r rs = Some rs'" and "length (saved_body r) < AG_RESPONSE_BODY"
  shows "saved_fit rs'"
  using store_response_fit [OF assms(2)] assms(1,3) by (auto simp: saved_fit_def)

lemma saved_fit_fetch:
  "saved_fit rs \<Longrightarrow> fetch_response q rs = (found, rs') \<Longrightarrow> saved_fit rs'"
  using fetch_response_fit [where P = "\<lambda>b. length b < AG_RESPONSE_BODY"] by (simp add: saved_fit_def)

lemma line_length: "LF \<in> set b \<Longrightarrow> length (takeWhile (\<lambda>c. c \<noteq> LF) b) < length b"
  by (induction b) auto

locale wire_invariant =
  fixes J :: "ag_connection \<Rightarrow> bool"
  assumes tick_ok: "J c \<Longrightarrow> J (c\<lparr>tick := t\<rparr>)"
    and stop_ok: "J c \<Longrightarrow> (stop_requested c \<Longrightarrow> b) \<Longrightarrow> J (c\<lparr>stop_requested := b\<rparr>)"
    and event_ok: "J c \<Longrightarrow> quiet e \<Longrightarrow> J (c\<lparr>trace := e # trace c\<rparr>)"
    and buffer_ok: "J c \<Longrightarrow> length buf \<le> AG_LINE_BUFFER \<Longrightarrow> J (c\<lparr>receive_buffer := buf\<rparr>)"
    and buffer_bound: "J c \<Longrightarrow> length (receive_buffer c) \<le> AG_LINE_BUFFER"
    and saved_ok: "J c \<Longrightarrow> saved_fit rs \<Longrightarrow> J (c\<lparr>saved_responses := rs\<rparr>)"
    and saved_bound: "J c \<Longrightarrow> saved_fit (saved_responses c)"
begin

lemma sys_keeps: "keeps J (sys f)"
  by (rule keepsI) (simp add: wp_sys tick_ok)

lemma log_keeps: "quiet (Log l m) \<Longrightarrow> keeps J (ag_log l m)"
  by (rule keepsI) (simp add: wp_ag_log event_ok)

lemma emit_keeps: "quiet e \<Longrightarrow> keeps J (emit e)"
  by (rule keepsI) (simp add: wp_emit event_ok)

lemma clock_keeps: "keeps J (monotonic_milliseconds E)"
  by (rule keepsI) (simp add: wp_monotonic tick_ok)

lemma stop_keeps: "keeps J (read_stop E)"
proof (rule keepsI)
  fix c assume J: "J c"
  show "wp (read_stop E) (\<lambda>_. J) J c"
    using stop_ok [OF tick_ok [OF J, of "Suc (tick c)"], of "stop_seen E c"] by (simp add: wp_read_stop stop_seen_def)
qed

lemmas wire_keeps = keeps_rules sys_keeps log_keeps emit_keeps clock_keeps stop_keeps

lemma send_all_keeps: "keeps J (send_all E n data)"
proof (induction n arbitrary: data)
  case (Suc n)
  have "keeps J (case r of Sys_error e \<Rightarrow> if e = EINTR then send_all E n data else ret (- 1)
      | Sys_ok k \<Rightarrow> let sent = min k (length data)
          in if sent = 0 then ret (- 1)
             else bind (emit (Sent (take sent data))) (\<lambda>_. send_all E n (drop sent data)))" for r
    by (cases r) (auto intro!: wire_keeps Suc.IH)
  then show ?case unfolding send_all.simps by (intro wire_keeps)
qed (auto intro!: wire_keeps)

lemma extract_line_keeps: "keeps J (extract_line AG_LINE_BUFFER)"
proof (rule keepsI)
  fix c assume J: "J c"
  have "J (c\<lparr>receive_buffer := drop k (receive_buffer c)\<rparr>)" for k
    using J buffer_bound [OF J] by (intro buffer_ok) auto
  then show "wp (extract_line AG_LINE_BUFFER) (\<lambda>_. J) J c"
    using J buffer_bound [OF J] line_length [of "receive_buffer c"]
    by (auto simp: extract_line_def wp_rules Let_def)
qed

lemma poll_inv:
  "J c \<Longrightarrow> length (receive_buffer c) < AG_LINE_BUFFER \<Longrightarrow>
    wp (poll_and_receive E n AG_LINE_BUFFER) (\<lambda>_. J) J c"
proof (induction n arbitrary: c)
  case (Suc n)
  have chunk: "J (c\<lparr>tick := t, receive_buffer := receive_buffer c @ take (AG_LINE_BUFFER - length (receive_buffer c)) bytes\<rparr>)"
    for t bytes
    using Suc.prems tick_ok buffer_ok [of "c\<lparr>tick := t\<rparr>"] by auto
  show ?case using Suc.prems
    by (auto simp: wp_rules Let_def tick_ok intro!: Suc.IH keepsD [OF extract_line_keeps] chunk
        simp del: wire_limits split: poll_result.split sysret.split)
qed (simp add: wp_rules)

lemma read_line_keeps: "keeps J (read_line E n AG_LINE_BUFFER)"
proof (rule keepsI)
  fix c assume J: "J c"
  have "wp (poll_and_receive E n AG_LINE_BUFFER) (\<lambda>_. J) J c'"
    if "J c'" "length (receive_buffer c') \<noteq> AG_LINE_BUFFER" for c'
    using that buffer_bound [OF that(1)] by (intro poll_inv) simp_all
  then show "wp (read_line E n AG_LINE_BUFFER) (\<lambda>_. J) J c"
    unfolding read_line_def wp_bind
    by (intro wp_mono [OF keepsD [OF extract_line_keeps J]])
      (auto simp: wp_rules event_ok simp del: wire_limits)
qed

lemma save_response_keeps: "keeps J (save_response q code body)"
  using saved_fit_store [OF saved_bound]
  by (intro keepsI)
    (auto simp: save_response_def wp_rules event_ok length_snprintf_str intro!: saved_ok split: option.split)

lemma take_response_keeps: "keeps J (take_response q)"
  using saved_fit_fetch [OF saved_bound]
  by (intro keepsI) (auto simp: take_response_def wp_rules intro!: saved_ok split: prod.split)

lemma accept_response_keeps: "keeps J (accept_response command code body k)"
  unfolding accept_response_def by (intro wire_keeps) simp_all

end

lemma command_frame_length: "length (command_frame q command) \<le> length command + 13"
proof -
  have "unat q < 2 ^ LENGTH(32)" by (rule unsigned_less)
  then have "unat q < 10 ^ 10" by simp
  then have "length (dec_string (unat q)) \<le> 10" by (rule dec_string_length) simp
  then show ?thesis by (simp add: command_frame_def)
qed

subsection \<open>Invariants of a command in progress\<close>

locale command_invariant = wire_invariant J for J :: "ag_connection \<Rightarrow> bool" +
  fixes cfg :: ag_config
  assumes busy: "J c \<Longrightarrow> command_in_progress c"
    and context_ok: "J c \<Longrightarrow> same_context (vw cfg c) c"
    and antennas_ok: "J c \<Longrightarrow> antennas (config c) = antennas cfg"
    and line_ok: "J c \<Longrightarrow> after_line cfg line c c' \<Longrightarrow>
      interlock_id c = [] \<or> observe_only c \<or> v_wanted (vw cfg c') = v_wanted (vw cfg c) \<Longrightarrow> J c'"
    and defer_ok: "J c \<Longrightarrow> after_line cfg line c c' \<Longrightarrow> \<not> observe_only c \<Longrightarrow> interlock_id c \<noteq> [] \<Longrightarrow>
      J (c'\<lparr>interlock_update_pending := True, pending_interlock_ready := v_wanted (vw cfg c')\<rparr>)"
begin

lemma handle_status_inv:
  assumes J: "J c"
  shows "wp (handle_status send line) (\<lambda>_. J) J (c\<lparr>trace := Log AG_LOG_DEBUG (Msg_line line) # trace c\<rparr>)"
proof (rule handle_status_wp [OF context_ok [OF J] antennas_ok [OF J]])
  fix c' assume al: "after_line cfg line c c'"
  show "J c'" if "interlock_id c = [] \<or> observe_only c \<or> v_wanted (vw cfg c') = v_wanted (vw cfg c)"
    using J al that by (rule line_ok)
  show "wp (set_interlock send (v_wanted (vw cfg c'))) (\<lambda>_. J) J c'"
    using line_ok [OF J al] defer_ok [OF J al] busy [OF J] after_line_frame [OF al]
    by (auto simp: set_interlock_def wp_rules)
qed

lemma response_line_inv:
  assumes J: "J c" and resp: "parse_response line = Some x"
  shows "J (c\<lparr>trace := Log AG_LOG_DEBUG (Msg_line line) # trace c\<rparr>)"
proof -
  let ?c = "c\<lparr>trace := Log AG_LOG_DEBUG (Msg_line line) # trace c\<rparr>"
  have "?c = with_context (vw cfg c) ([] @ [Log AG_LOG_DEBUG (Msg_line line)]) c"
    using context_ok [OF J] by (cases c) (simp add: with_context_def same_context_def)
  then have "after_line cfg line c ?c"
    unfolding after_line_def response_is_no_report [OF resp]
    by (intro exI [of _ "[]"]) simp
  then show ?thesis using after_line_view response_is_no_report [OF resp] by (intro line_ok [OF J]) auto
qed

lemma line_keeps:
  assumes "keeps J m"
  shows "keeps J (bind (ag_log AG_LOG_DEBUG (Msg_line line)) (\<lambda>_.
    case parse_response line of
      Some (rs, code, body) \<Rightarrow>
        if rs \<noteq> q then bind (save_response rs code body) (\<lambda>_. m) else accept_response command code body k
    | None \<Rightarrow> bind (handle_status send line) (\<lambda>rc. if rc \<noteq> 0 \<and> \<not> cleanup then ret (- 1, []) else m)))"
proof (rule keepsI)
  fix c assume J: "J c"
  show "wp (bind (ag_log AG_LOG_DEBUG (Msg_line line)) (\<lambda>_.
    case parse_response line of
      Some (rs, code, body) \<Rightarrow>
        if rs \<noteq> q then bind (save_response rs code body) (\<lambda>_. m) else accept_response command code body k
    | None \<Rightarrow> bind (handle_status send line) (\<lambda>rc. if rc \<noteq> 0 \<and> \<not> cleanup then ret (- 1, []) else m)))
    (\<lambda>_. J) J c"
  proof (cases "parse_response line")
    case None
    show ?thesis unfolding None option.case wp_bind wp_ag_log
      by (rule wp_mono [OF handle_status_inv [OF J]]) (simp_all add: wp_rules keepsD [OF assms])
  next
    case (Some x)
    have "keeps J (case x of (rs, code, body) \<Rightarrow>
        if rs \<noteq> q then bind (save_response rs code body) (\<lambda>_. m) else accept_response command code body k)"
      by (intro keeps_rules save_response_keeps accept_response_keeps assms)
    then show ?thesis unfolding Some option.case wp_bind wp_ag_log
      using response_line_inv [OF J Some] by (rule keepsD)
  qed
qed

lemma await_response_keeps: "keeps J (await_response E send n command k cleanup q deadline)"
proof (induction n)
  case (Suc n)
  show ?case unfolding await_response.simps
    by (intro wire_keeps take_response_keeps accept_response_keeps read_line_keeps line_keeps Suc.IH) simp_all
qed (simp add: keeps_cut)

text \<open>One command: it is logged and its response awaited, or it is not sent at all.\<close>

lemma send_command_once_wp:
  assumes sent: "\<And>q t b. (stop_requested c \<Longrightarrow> b) \<Longrightarrow>
      J (c\<lparr>sequence := q, tick := t, stop_requested := b,
           trace := Log AG_LOG_DEBUG (Msg_command command) # trace c\<rparr>)"
    and unsent: "\<And>q t b. \<not> cleanup \<Longrightarrow> P (c\<lparr>sequence := q, tick := t, stop_requested := b\<rparr>)"
    and len: "length command \<le> 1000"
  shows "wp (send_command_once E send n command k cleanup)
    (\<lambda>(rc, body) c'. J c' \<or> \<not> cleanup \<and> rc = - 1 \<and> P c') J c"
proof -
  define q where "q = sequence c + 1"
  define b where "b = stop_seen E (c\<lparr>sequence := q, tick := Suc (tick c)\<rparr>)"
  have b: "stop_requested c \<Longrightarrow> b" by (simp add: b_def stop_seen_def)
  have frame: "length (command_frame q command) < AG_COMMAND_SIZE"
    using len command_frame_length [of q command] by simp
  have await: "keeps J (bind (send_all E n (command_frame q command)) (\<lambda>sent.
      if sent \<noteq> 0 then bind (ag_log AG_LOG_ERROR Msg_send_failed) (\<lambda>_. ret (- 1, []))
      else await_response E send n command k cleanup q deadline))" for deadline
    by (intro wire_keeps send_all_keeps await_response_keeps) simp_all
  have start: "J (c\<lparr>sequence := q, tick := Suc (Suc (tick c)), stop_requested := b,
      trace := Log AG_LOG_DEBUG (Msg_command command) # trace c\<rparr>)" by (rule sent [OF b])
  note run = keepsD [OF await start]
  show ?thesis
  proof (cases "b \<and> \<not> cleanup")
    case True
    then show ?thesis using unsent
      by (simp add: send_command_once_def wp_rules q_def [symmetric] b_def [symmetric])
  next
    case False
    have "wp (bind (send_all E n (command_frame q command)) (\<lambda>sent.
        if sent \<noteq> 0 then bind (ag_log AG_LOG_ERROR Msg_send_failed) (\<lambda>_. ret (- 1, []))
        else await_response E send n command k cleanup q (clock_at E (tick c) + AG_COMMAND_TIMEOUT_MS)))
      (\<lambda>(rc, body) c'. J c' \<or> \<not> cleanup \<and> rc = - 1 \<and> P c') J
      (c\<lparr>sequence := q, tick := Suc (Suc (tick c)), stop_requested := b,
         trace := Log AG_LOG_DEBUG (Msg_command command) # trace c\<rparr>)"
      by (rule wp_mono [OF run]) auto
    moreover have unstopped: "(b \<and> \<not> cleanup) = False" using False by simp
    ultimately show ?thesis using frame
      by (simp add: unstopped send_command_once_def wp_gets wp_modify wp_if wp_ret wp_ag_log wp_bind [of "modify f" for f]
          wp_bind [of "gets f" for f] wp_bind [of "monotonic_milliseconds E"] wp_bind [of "read_stop E"]
          wp_bind [of "ag_log l m" for l m] wp_monotonic wp_read_stop
          q_def [symmetric] b_def [symmetric] del: wire_limits cong: if_cong)
  qed
qed

end

end
