(* ===== verification/Flex_Safety.thy ===== *)
theory Flex_Safety
  imports Flex_Invariants
begin

text \<open>
  A whole session against the specification of \<open>Interlock_Spec\<close>: every command it sends is
  accepted, at every point of every run, whatever the radio, the network and the clock do.
\<close>

subsection \<open>The invariants\<close>

definition well_sized :: "ag_connection \<Rightarrow> bool" where
  "well_sized c \<longleftrightarrow>
     length (receive_buffer c) \<le> AG_LINE_BUFFER \<and> saved_fit (saved_responses c)
       \<and> length (interlock_id c) < INTERLOCK_ID_SIZE \<and> length (tx_antenna c) \<le> AG_MAX_ANTENNA_ID"

text \<open>What holds at every point of a session.\<close>

definition sound :: "ag_config \<Rightarrow> bool \<Rightarrow> ag_connection \<Rightarrow> bool" where
  "sound cfg obs c \<longleftrightarrow>
     well_sized c \<and> antennas (config c) = antennas cfg \<and> observe_only c = obs \<and> 0 \<le> socket_fd c
       \<and> same_context (vw cfg c) c \<and> ph cfg c \<noteq> None"

text \<open>
  What holds until the interlock is removed: the radio has our interlock exactly when we know
  its name, and a deferred release is one that is still wanted.
\<close>

definition alive :: "ag_config \<Rightarrow> bool \<Rightarrow> phase \<Rightarrow> ag_connection \<Rightarrow> bool" where
  "alive cfg obs p c \<longleftrightarrow>
     sound cfg obs c \<and> ph cfg c = Some p \<and> p \<noteq> Removed
       \<and> (interlock_update_pending c \<longrightarrow>
            armed p \<and> (pending_interlock_ready c \<longrightarrow> v_wanted (vw cfg c)))
       \<and> (armed p \<longrightarrow> interlock_id c \<noteq> [])
       \<and> (interlock_id c \<noteq> [] \<longrightarrow> \<not> obs \<and> (p = Creating \<or> armed p))"

text \<open>A released interlock is wanted, or else the update that blocks it is on its way.\<close>

definition settled :: "ag_config \<Rightarrow> phase \<Rightarrow> ag_connection \<Rightarrow> bool" where
  "settled cfg p c \<longleftrightarrow>
     (p = Released \<and> \<not> v_wanted (vw cfg c) \<longrightarrow>
        interlock_update_pending c \<and> \<not> pending_interlock_ready c)"

text \<open>While a command is in progress, and while the interlock is being removed.\<close>

definition flight :: "ag_config \<Rightarrow> bool \<Rightarrow> phase \<Rightarrow> string \<Rightarrow> ag_connection \<Rightarrow> bool" where
  "flight cfg obs p i c \<longleftrightarrow>
     alive cfg obs p c \<and> command_in_progress c \<and> interlock_id c = i
       \<and> (i \<noteq> [] \<longrightarrow> armed p) \<and> settled cfg p c"

definition removing :: "ag_config \<Rightarrow> bool \<Rightarrow> ag_connection \<Rightarrow> bool" where
  "removing cfg obs c \<longleftrightarrow> sound cfg obs c \<and> command_in_progress c \<and> ph cfg c = Some Removed"

text \<open>Between commands; and in the main loop, where nothing is deferred.\<close>

definition calm :: "ag_config \<Rightarrow> bool \<Rightarrow> string \<Rightarrow> ag_connection \<Rightarrow> bool" where
  "calm cfg obs i c \<longleftrightarrow>
     (\<exists>p. alive cfg obs p c \<and> settled cfg p c \<and> (i \<noteq> [] \<longrightarrow> armed p))
       \<and> \<not> command_in_progress c \<and> interlock_id c = i"

definition listening :: "ag_config \<Rightarrow> bool \<Rightarrow> string \<Rightarrow> ag_connection \<Rightarrow> bool" where
  "listening cfg obs i c \<longleftrightarrow> calm cfg obs i c \<and> \<not> interlock_update_pending c"

subsection \<open>The view and the phase under updates of the connection\<close>

lemma vw_simps [simp]:
  "vw cfg (c\<lparr>tick := t\<rparr>) = vw cfg c" "vw cfg (c\<lparr>stop_requested := b\<rparr>) = vw cfg c"
  "vw cfg (c\<lparr>receive_buffer := s\<rparr>) = vw cfg c" "vw cfg (c\<lparr>saved_responses := rs\<rparr>) = vw cfg c"
  "vw cfg (c\<lparr>sequence := q\<rparr>) = vw cfg c" "vw cfg (c\<lparr>command_in_progress := b\<rparr>) = vw cfg c"
  "vw cfg (c\<lparr>interlock_update_pending := b\<rparr>) = vw cfg c"
  "vw cfg (c\<lparr>pending_interlock_ready := b\<rparr>) = vw cfg c" "vw cfg (c\<lparr>interlock_id := i\<rparr>) = vw cfg c"
  "vw cfg (c\<lparr>socket_fd := fd\<rparr>) = vw cfg c"
  by (simp_all add: vw_def)

lemma ph_simps [simp]:
  "ph cfg (c\<lparr>tick := t\<rparr>) = ph cfg c" "ph cfg (c\<lparr>stop_requested := b\<rparr>) = ph cfg c"
  "ph cfg (c\<lparr>receive_buffer := s\<rparr>) = ph cfg c" "ph cfg (c\<lparr>saved_responses := rs\<rparr>) = ph cfg c"
  "ph cfg (c\<lparr>sequence := q\<rparr>) = ph cfg c" "ph cfg (c\<lparr>command_in_progress := b\<rparr>) = ph cfg c"
  "ph cfg (c\<lparr>interlock_update_pending := b\<rparr>) = ph cfg c"
  "ph cfg (c\<lparr>pending_interlock_ready := b\<rparr>) = ph cfg c" "ph cfg (c\<lparr>interlock_id := i\<rparr>) = ph cfg c"
  "ph cfg (c\<lparr>socket_fd := fd\<rparr>) = ph cfg c"
  by (simp_all add: ph_def)

lemma vw_trace: "vw cfg (c\<lparr>trace := e # tr\<rparr>) = view_step (permits_of cfg) e (vw cfg (c\<lparr>trace := tr\<rparr>))"
  by (simp add: vw_def)

lemma ph_trace:
  "ph cfg (c\<lparr>trace := e # trace c\<rparr>) =
    (case ph cfg c of None \<Rightarrow> None
     | Some p \<Rightarrow> phase_step (\<not> observe_only c) (v_wanted (vw cfg c)) e p)"
  by (simp add: ph_def vw_def split: option.split)

lemma vw_quiet [simp]: "quiet e \<Longrightarrow> vw cfg (c\<lparr>trace := e # trace c\<rparr>) = vw cfg c"
  by (simp add: vw_def)

lemma ph_quiet [simp]: "quiet e \<Longrightarrow> ph cfg (c\<lparr>trace := e # trace c\<rparr>) = ph cfg c"
  by (simp add: ph_trace split: option.split)

lemma same_context_simps [simp]:
  "same_context v (c\<lparr>tick := t\<rparr>) = same_context v c"
  "same_context v (c\<lparr>stop_requested := b\<rparr>) = same_context v c"
  "same_context v (c\<lparr>trace := tr\<rparr>) = same_context v c"
  "same_context v (c\<lparr>receive_buffer := s\<rparr>) = same_context v c"
  "same_context v (c\<lparr>saved_responses := rs\<rparr>) = same_context v c"
  "same_context v (c\<lparr>sequence := q\<rparr>) = same_context v c"
  "same_context v (c\<lparr>command_in_progress := b\<rparr>) = same_context v c"
  "same_context v (c\<lparr>interlock_update_pending := b\<rparr>) = same_context v c"
  "same_context v (c\<lparr>pending_interlock_ready := b\<rparr>) = same_context v c"
  "same_context v (c\<lparr>interlock_id := i\<rparr>) = same_context v c"
  "same_context v (c\<lparr>socket_fd := fd\<rparr>) = same_context v c"
  by (simp_all add: same_context_def)

lemma sound_simps [simp]:
  "sound cfg obs (c\<lparr>tick := t\<rparr>) = sound cfg obs c"
  "sound cfg obs (c\<lparr>stop_requested := b\<rparr>) = sound cfg obs c"
  "sound cfg obs (c\<lparr>sequence := q\<rparr>) = sound cfg obs c"
  "sound cfg obs (c\<lparr>command_in_progress := b\<rparr>) = sound cfg obs c"
  "sound cfg obs (c\<lparr>interlock_update_pending := b\<rparr>) = sound cfg obs c"
  "sound cfg obs (c\<lparr>pending_interlock_ready := b\<rparr>) = sound cfg obs c"
  by (simp_all add: sound_def well_sized_def)

lemma sound_wire [simp]:
  "sound cfg obs c \<Longrightarrow> quiet e \<Longrightarrow> sound cfg obs (c\<lparr>trace := e # trace c\<rparr>)"
  "sound cfg obs c \<Longrightarrow> length buf \<le> AG_LINE_BUFFER \<Longrightarrow> sound cfg obs (c\<lparr>receive_buffer := buf\<rparr>)"
  "sound cfg obs c \<Longrightarrow> saved_fit rs \<Longrightarrow> sound cfg obs (c\<lparr>saved_responses := rs\<rparr>)"
  by (simp_all add: sound_def well_sized_def)

lemma soundD:
  assumes "sound cfg obs c"
  shows "length (receive_buffer c) \<le> AG_LINE_BUFFER" "saved_fit (saved_responses c)"
    "same_context (vw cfg c) c" "antennas (config c) = antennas cfg" "observe_only c = obs"
    "length (interlock_id c) < INTERLOCK_ID_SIZE" "0 \<le> socket_fd c"
  using assms by (simp_all add: sound_def well_sized_def)

lemma alive_simps [simp]:
  "alive cfg obs p (c\<lparr>tick := t\<rparr>) = alive cfg obs p c"
  "alive cfg obs p (c\<lparr>stop_requested := b\<rparr>) = alive cfg obs p c"
  "alive cfg obs p (c\<lparr>sequence := q\<rparr>) = alive cfg obs p c"
  "alive cfg obs p (c\<lparr>command_in_progress := b\<rparr>) = alive cfg obs p c"
  by (simp_all add: alive_def)

lemma alive_wire [simp]:
  "alive cfg obs p c \<Longrightarrow> quiet e \<Longrightarrow> alive cfg obs p (c\<lparr>trace := e # trace c\<rparr>)"
  "alive cfg obs p c \<Longrightarrow> length buf \<le> AG_LINE_BUFFER \<Longrightarrow> alive cfg obs p (c\<lparr>receive_buffer := buf\<rparr>)"
  "alive cfg obs p c \<Longrightarrow> saved_fit rs \<Longrightarrow> alive cfg obs p (c\<lparr>saved_responses := rs\<rparr>)"
  by (simp_all add: alive_def)

lemma aliveD:
  assumes "alive cfg obs p c"
  shows "sound cfg obs c" "ph cfg c = Some p" "p \<noteq> Removed"
    "interlock_update_pending c \<Longrightarrow> armed p"
    "interlock_update_pending c \<Longrightarrow> pending_interlock_ready c \<Longrightarrow> v_wanted (vw cfg c)"
    "armed p \<Longrightarrow> interlock_id c \<noteq> []" "interlock_id c \<noteq> [] \<Longrightarrow> \<not> obs"
    "interlock_id c \<noteq> [] \<Longrightarrow> p = Creating \<or> armed p"
  using assms by (auto simp: alive_def)

lemma settled_simps [simp]:
  "settled cfg p (c\<lparr>tick := t\<rparr>) = settled cfg p c"
  "settled cfg p (c\<lparr>stop_requested := b\<rparr>) = settled cfg p c"
  "settled cfg p (c\<lparr>sequence := q\<rparr>) = settled cfg p c"
  "settled cfg p (c\<lparr>command_in_progress := b\<rparr>) = settled cfg p c"
  "settled cfg p (c\<lparr>receive_buffer := buf\<rparr>) = settled cfg p c"
  "settled cfg p (c\<lparr>saved_responses := rs\<rparr>) = settled cfg p c"
  "settled cfg p (c\<lparr>socket_fd := fd\<rparr>) = settled cfg p c"
  "quiet e \<Longrightarrow> settled cfg p (c\<lparr>trace := e # trace c\<rparr>) = settled cfg p c"
  by (simp_all add: settled_def)

lemma sound_after_line:
  assumes "sound cfg obs c" and "after_line cfg line c c'"
  shows "sound cfg obs c'"
proof -
  have "v_antenna (vw cfg c) = tx_antenna c" using assms(1) by (simp add: sound_def same_context_def)
  then have "length (v_antenna (vw cfg c')) \<le> 31"
    using assms(1) report_antenna_bound after_line_view [OF assms(2)]
    by (simp add: sound_def well_sized_def AG_MAX_ANTENNA_ID_def)
  moreover have "tx_antenna c' = v_antenna (vw cfg c')"
    using after_line_context [OF assms(2)] by (simp add: same_context_def)
  ultimately show ?thesis
    using assms(1) after_line_frame [OF assms(2)] after_line_context [OF assms(2)] after_line_phase [OF assms(2)]
    by (simp add: sound_def well_sized_def AG_MAX_ANTENNA_ID_def)
qed

lemma alive_after_line:
  assumes "alive cfg obs p c" and "after_line cfg line c c'"
    and "interlock_update_pending c \<and> pending_interlock_ready c \<longrightarrow> v_wanted (vw cfg c')"
  shows "alive cfg obs p c'"
  using assms(1,3) sound_after_line [OF _ assms(2)] after_line_frame [OF assms(2)] after_line_phase [OF assms(2)]
  by (simp add: alive_def)

interpretation flight: command_invariant "flight cfg obs p i" cfg for cfg obs p i
proof unfold_locales
  fix line c c'
  assume J: "flight cfg obs p i c" and al: "after_line cfg line c c'"
  note frame = after_line_frame [OF al]
  have alive: "alive cfg obs p c" and armed: "i \<noteq> [] \<longrightarrow> armed p"
    and id: "interlock_id c = i" and set: "settled cfg p c" and busy: "command_in_progress c"
    using J by (simp_all add: flight_def)
  have obs: "observe_only c = obs" using soundD [OF aliveD(1) [OF alive]] by simp
  show "flight cfg obs p i c'"
    if "interlock_id c = [] \<or> observe_only c \<or> v_wanted (vw cfg c') = v_wanted (vw cfg c)"
  proof -
    have "i = [] \<or> v_wanted (vw cfg c') = v_wanted (vw cfg c)"
      using that obs id aliveD(7) [OF alive] by auto
    then have "alive cfg obs p c' \<and> settled cfg p c'"
      using alive_after_line [OF alive al] aliveD(4,5,6) [OF alive] set frame id
      by (auto simp: settled_def)
    then show ?thesis using armed id busy frame by (simp add: flight_def)
  qed
  show "flight cfg obs p i (c'\<lparr>interlock_update_pending := True, pending_interlock_ready := v_wanted (vw cfg c')\<rparr>)"
    if "\<not> observe_only c" "interlock_id c \<noteq> []"
    using that alive armed id busy obs sound_after_line [OF aliveD(1) [OF alive] al] frame
      after_line_phase [OF al]
    by (simp add: flight_def alive_def settled_def)
qed (simp_all add: flight_def del: wire_limits, (blast dest: aliveD(1) soundD)+)

interpretation removing: command_invariant "removing cfg obs" cfg for cfg obs
proof unfold_locales
  fix line c c'
  assume J: "removing cfg obs c" and al: "after_line cfg line c c'"
  have J': "removing cfg obs c'"
    using J sound_after_line [OF _ al] after_line_frame [OF al] after_line_phase [OF al]
    by (simp add: removing_def)
  then show "removing cfg obs c'" .
  from J' show "removing cfg obs (c'\<lparr>interlock_update_pending := True, pending_interlock_ready := v_wanted (vw cfg c')\<rparr>)"
    by (simp add: removing_def)
qed (simp_all add: removing_def del: wire_limits, (blast dest: soundD)+)

interpretation listening: wire_invariant "listening cfg obs i" for cfg obs i
proof unfold_locales
  fix c and buf :: string assume "listening cfg obs i c" "length buf \<le> AG_LINE_BUFFER"
  then show "listening cfg obs i (c\<lparr>receive_buffer := buf\<rparr>)"
    unfolding listening_def calm_def by (auto intro: alive_wire simp del: wire_limits)
next
  fix c rs assume "listening cfg obs i c" "saved_fit rs"
  then show "listening cfg obs i (c\<lparr>saved_responses := rs\<rparr>)"
    unfolding listening_def calm_def by (auto intro: alive_wire)
next
  fix c e assume "listening cfg obs i c" "quiet e"
  then show "listening cfg obs i (c\<lparr>trace := e # trace c\<rparr>)"
    unfolding listening_def calm_def by (auto intro: alive_wire)
qed (auto simp: listening_def calm_def dest: aliveD(1) soundD(1,2) simp del: wire_limits)

subsection \<open>The commands\<close>

lemma classify_interlock_command:
  assumes "length i < INTERLOCK_ID_SIZE"
  shows "classify (interlock_command b i) = Set_ready b" "length (interlock_command b i) \<le> 1000"
proof -
  have "interlock_command b i = ''interlock '' @ (if b then ''ready'' else ''not_ready'') @ '' '' @ i"
    using assms unfolding interlock_command_def by (intro snprintf_str_fits) simp
  then show "classify (interlock_command b i) = Set_ready b" "length (interlock_command b i) \<le> 1000"
    using assms by (simp_all add: classify_def starts_with_def)
qed

lemma classify_create: "classify (create_command names) = Create"
  by (simp add: classify_def create_command_def starts_with_def)

lemma classify_remove: "classify (remove_command i) = Remove" "length (remove_command i) \<le> 1000"
  by (simp_all add: remove_command_def classify_def starts_with_def snprintf_str_def)

lemma classify_subscriptions: "map classify subscriptions = map Subscription [0, 1, 2, 3]"
  by code_simp

lemma command_step_kinds:
  assumes "command_step protect wanted r p = Some p'"
  shows "p' = Released \<Longrightarrow> wanted" "p' = Removed \<longleftrightarrow> r = Remove" "p \<noteq> Removed"
  using assms by (cases "(protect, wanted, r, p)" rule: command_step.cases; auto split: if_splits)+

text \<open>
  A command that the specification accepts, while its predecessors are all answered. The last
  condition says that only setting the interlock leads to an armed phase, and needs its name.
\<close>

definition acceptable :: "ag_config \<Rightarrow> bool \<Rightarrow> phase \<Rightarrow> string \<Rightarrow> phase \<Rightarrow> ag_connection \<Rightarrow> bool" where
  "acceptable cfg obs p command p' c \<longleftrightarrow>
     alive cfg obs p c \<and> length command \<le> 1000
       \<and> command_step (\<not> obs) (v_wanted (vw cfg c)) (classify command) p = Some p'
       \<and> (p' \<noteq> Removed \<longrightarrow>
            \<not> interlock_update_pending c \<and> (interlock_id c \<noteq> [] \<longleftrightarrow> armed p'))"

lemma sound_command:
  assumes "sound cfg obs c" and "ph cfg c = Some p"
    and "command_step (\<not> obs) (v_wanted (vw cfg c)) (classify command) p = Some p'"
  shows "sound cfg obs (c\<lparr>trace := Log l (Msg_command command) # trace c\<rparr>)"
    "ph cfg (c\<lparr>trace := Log l (Msg_command command) # trace c\<rparr>) = Some p'"
    "vw cfg (c\<lparr>trace := Log l (Msg_command command) # trace c\<rparr>) = vw cfg c"
proof -
  have "observe_only c = obs" using assms(1) by (rule soundD)
  then show "ph cfg (c\<lparr>trace := Log l (Msg_command command) # trace c\<rparr>) = Some p'"
    using assms(2,3) by (simp add: ph_trace)
  moreover show "vw cfg (c\<lparr>trace := Log l (Msg_command command) # trace c\<rparr>) = vw cfg c"
    by (simp add: vw_def)
  ultimately show "sound cfg obs (c\<lparr>trace := Log l (Msg_command command) # trace c\<rparr>)"
    using assms(1) by (simp add: sound_def well_sized_def)
qed

lemma flight_starts:
  assumes "acceptable cfg obs p command p' c" and "p' \<noteq> Removed" and "interlock_id c = i"
  shows "flight cfg obs p' i (c\<lparr>command_in_progress := True, sequence := q, tick := t, stop_requested := b,
      trace := Log l (Msg_command command) # trace c\<rparr>)"
proof -
  let ?c = "c\<lparr>command_in_progress := True, sequence := q, tick := t, stop_requested := b\<rparr>"
  let ?c' = "c\<lparr>command_in_progress := True, sequence := q, tick := t, stop_requested := b,
      trace := Log l (Msg_command command) # trace c\<rparr>"
  have al: "alive cfg obs p ?c" using assms(1) by (simp add: acceptable_def)
  have st: "command_step (\<not> obs) (v_wanted (vw cfg ?c)) (classify command) p = Some p'"
    using assms(1) by (simp add: acceptable_def)
  note now = sound_command [OF aliveD(1,2) [OF al] st, of l, simplified]
  have "interlock_id c \<noteq> [] \<Longrightarrow> \<not> obs" using aliveD(7) [OF al] by simp
  then have "alive cfg obs p' ?c'"
    using now assms(1,2) by (auto simp: alive_def acceptable_def)
  moreover have "settled cfg p' ?c'"
    using command_step_kinds(1) [OF st] now by (auto simp: settled_def)
  ultimately show ?thesis using assms by (simp add: flight_def acceptable_def)
qed

lemma removing_starts:
  assumes "acceptable cfg obs p command Removed c"
  shows "removing cfg obs (c\<lparr>command_in_progress := True, sequence := q, tick := t, stop_requested := b,
      trace := Log l (Msg_command command) # trace c\<rparr>)"
proof -
  let ?c = "c\<lparr>command_in_progress := True, sequence := q, tick := t, stop_requested := b\<rparr>"
  have al: "alive cfg obs p ?c" using assms(1) by (simp add: acceptable_def)
  have st: "command_step (\<not> obs) (v_wanted (vw cfg ?c)) (classify command) p = Some Removed"
    using assms(1) by (simp add: acceptable_def)
  show ?thesis using sound_command [OF aliveD(1,2) [OF al] st, of l]
    by (simp add: removing_def)
qed

text \<open>What is left when a command failed: nothing is known to be settled.\<close>

definition shaken :: "ag_config \<Rightarrow> bool \<Rightarrow> string \<Rightarrow> ag_connection \<Rightarrow> bool" where
  "shaken cfg obs i c \<longleftrightarrow> (\<exists>p. alive cfg obs p c) \<and> interlock_id c = i"

lemma once_wp:
  assumes "acceptable cfg obs p command p' c" and "p' \<noteq> Removed" and "interlock_id c = i"
  shows "wp (send_command_once E send n command k cleanup)
    (\<lambda>(rc, body) c'. flight cfg obs p' i c' \<or> rc = - 1 \<and> shaken cfg obs i c') (flight cfg obs p' i)
    (c\<lparr>command_in_progress := True\<rparr>)"
proof -
  have "alive cfg obs p c" "length command \<le> 1000" using assms(1) by (simp_all add: acceptable_def)
  then have "\<And>q t b. shaken cfg obs i (c\<lparr>command_in_progress := True, sequence := q, tick := t, stop_requested := b\<rparr>)"
    using assms(3) by (auto simp: shaken_def)
  then show ?thesis
    using flight.send_command_once_wp [of "c\<lparr>command_in_progress := True\<rparr>" cfg obs p' i command cleanup
        "shaken cfg obs i" E send n k] flight_starts [OF assms] \<open>length command \<le> 1000\<close>
    by (auto elim!: wp_mono)
qed

lemma once_remove_wp:
  assumes "acceptable cfg obs p command Removed c"
  shows "wp (send_command_once E send n command k True) (\<lambda>_. removing cfg obs) (removing cfg obs)
    (c\<lparr>command_in_progress := True\<rparr>)"
proof -
  have "length command \<le> 1000" using assms by (simp add: acceptable_def)
  then show ?thesis
    using removing.send_command_once_wp [of "c\<lparr>command_in_progress := True\<rparr>" cfg obs command True
        "\<lambda>_. False" E send n k] removing_starts [OF assms]
    by (auto elim!: wp_mono)
qed

text \<open>The state after a command returned.\<close>

definition returned :: "ag_config \<Rightarrow> bool \<Rightarrow> string \<Rightarrow> int \<Rightarrow> ag_connection \<Rightarrow> bool" where
  "returned cfg obs i rc c \<longleftrightarrow>
     shaken cfg obs i c \<and> \<not> command_in_progress c
       \<and> (rc = 0 \<longrightarrow> calm cfg obs i c \<and> (interlock_update_pending c \<longrightarrow> stop_requested c))"

lemma flight_sound: "flight cfg obs p i c \<Longrightarrow> sound cfg obs c"
  by (auto simp: flight_def dest: aliveD(1))

lemma flight_calm: "flight cfg obs p i c \<Longrightarrow> calm cfg obs i (c\<lparr>command_in_progress := False\<rparr>)"
  by (auto simp: flight_def calm_def)

lemma calm_sound: "calm cfg obs i c \<Longrightarrow> sound cfg obs c"
  by (auto simp: calm_def dest: aliveD(1))

lemma calm_shaken: "calm cfg obs i c \<Longrightarrow> shaken cfg obs i c"
  by (auto simp: calm_def shaken_def)

lemma shaken_sound: "shaken cfg obs i c \<Longrightarrow> sound cfg obs c"
  by (auto simp: shaken_def dest: aliveD(1))

lemma calm_returned:
  "calm cfg obs i c \<Longrightarrow> (rc = 0 \<Longrightarrow> interlock_update_pending c \<Longrightarrow> stop_requested c) \<Longrightarrow>
    returned cfg obs i rc c"
  using calm_shaken by (auto simp: returned_def calm_def)

lemma shaken_quiet:
  assumes "shaken cfg obs i c" and "quiet e"
  shows "shaken cfg obs i (c\<lparr>trace := e # trace c\<rparr>)"
proof -
  obtain p where "alive cfg obs p c" "interlock_id c = i" using assms(1) by (auto simp: shaken_def)
  then show ?thesis using alive_wire(1) [of cfg obs p c e] assms(2) unfolding shaken_def
    by (intro conjI exI [of _ p]) simp_all
qed

lemma calm_quiet:
  assumes "calm cfg obs i c" and "quiet e"
  shows "calm cfg obs i (c\<lparr>trace := e # trace c\<rparr>)"
proof -
  obtain p where "alive cfg obs p c" "settled cfg p c" "i \<noteq> [] \<longrightarrow> armed p"
    "\<not> command_in_progress c" "interlock_id c = i" using assms(1) by (auto simp: calm_def)
  then show ?thesis using alive_wire(1) [of cfg obs p c e] assms(2) unfolding calm_def
    by (intro conjI exI [of _ p]) simp_all
qed

lemma returned_quiet:
  "returned cfg obs i rc c \<Longrightarrow> quiet e \<Longrightarrow> returned cfg obs i rc (c\<lparr>trace := e # trace c\<rparr>)"
  by (simp add: returned_def shaken_quiet calm_quiet)

lemma calm_wire [simp]:
  "calm cfg obs i (c\<lparr>tick := t\<rparr>) = calm cfg obs i c"
  "calm cfg obs i (c\<lparr>stop_requested := b\<rparr>) = calm cfg obs i c"
  by (simp_all add: calm_def)

text \<open>The calculus without the state argument, for programs under a binder.\<close>

lemma wp_fun:
  "wp (bind m f) Q C = wp m (\<lambda>x. wp (f x) Q C) C"
  "wp (modify g) Q' C = (\<lambda>s. Q' () (g s))"
  "wp (ret x) Q C = Q x"
  by (simp_all add: fun_eq_iff wp_rules)

lemma drain_none: "\<not> interlock_update_pending c \<Longrightarrow> wp (drain_interlock E send n) Q C c = Q 0 c"
  by (cases n) (simp_all add: wp_rules)

text \<open>Taking up the deferred update makes its command the next acceptable one.\<close>

lemma deferred_acceptable:
  assumes "calm cfg obs i c" and "interlock_update_pending c"
  shows "\<exists>p. acceptable cfg obs p (interlock_command (pending_interlock_ready c) i)
      (if pending_interlock_ready c then Released else Blocked) (c\<lparr>interlock_update_pending := False\<rparr>)"
proof -
  obtain p where p: "alive cfg obs p c" and i: "interlock_id c = i" using assms(1) by (auto simp: calm_def)
  have arm: "armed p" and want: "pending_interlock_ready c \<Longrightarrow> v_wanted (vw cfg c)"
    using aliveD [OF p] assms(2) by auto
  have id: "length i < INTERLOCK_ID_SIZE" "i \<noteq> []" "\<not> obs"
    using soundD [OF aliveD(1) [OF p]] aliveD [OF p] arm i by auto
  have "alive cfg obs p (c\<lparr>interlock_update_pending := False\<rparr>)" using p by (simp add: alive_def)
  then show ?thesis
    using classify_interlock_command [OF id(1)] arm want id i
    by (intro exI [of _ p]) (auto simp: acceptable_def)
qed

lemma drain_wp:
  "calm cfg obs i c \<Longrightarrow> wp (drain_interlock E send n) (returned cfg obs i) (sound cfg obs) c"
proof (induction n arbitrary: c)
  case 0
  then show ?case using calm_sound calm_shaken
    by (auto simp: wp_rules returned_def shaken_def calm_def stop_seen_def)
next
  case (Suc n)
  have i: "interlock_id c = i" and busy: "\<not> command_in_progress c" using Suc.prems by (auto simp: calm_def)
  show ?case
  proof (cases "interlock_update_pending c")
    case False
    then show ?thesis using Suc.prems calm_shaken busy by (simp add: drain_none returned_def del: drain_interlock.simps)
  next
    case True
    let ?c = "c\<lparr>tick := Suc (tick c), stop_requested := False\<rparr>"
    show ?thesis
    proof (cases "stop_seen E c")
      case stopped: True
      then show ?thesis using True Suc.prems calm_shaken [of cfg obs i "c\<lparr>tick := Suc (tick c), stop_requested := True\<rparr>"] busy
        by (simp add: wp_rules returned_def)
    next
      case going: False
      let ?cmd = "interlock_command (pending_interlock_ready c) i"
      have "calm cfg obs i ?c" using Suc.prems by simp
      from deferred_acceptable [OF this] True obtain p where
        acc: "acceptable cfg obs p ?cmd (if pending_interlock_ready c then Released else Blocked)
          (?c\<lparr>interlock_update_pending := False\<rparr>)" by auto
      have continue: "wp (if rc \<noteq> 0 then ret rc else drain_interlock E send n) (returned cfg obs i) (sound cfg obs)
          (c'\<lparr>command_in_progress := False\<rparr>)"
        if "flight cfg obs (if pending_interlock_ready c then Released else Blocked) i c' \<or> rc = - 1 \<and> shaken cfg obs i c'"
        for rc c'
        using that
      proof (elim disjE conjE)
        assume "flight cfg obs (if pending_interlock_ready c then Released else Blocked) i c'"
        from flight_calm [OF this] show ?thesis
          using Suc.IH calm_returned by (cases "rc = 0") (simp_all add: wp_ret del: drain_interlock.simps)
      next
        assume "rc = - 1" "shaken cfg obs i c'"
        then show ?thesis by (auto simp: wp_ret returned_def shaken_def)
      qed
      have "wp (send_command_once E send n ?cmd 0 False)
        (\<lambda>x c'. wp (if fst x \<noteq> 0 then ret (fst x) else drain_interlock E send n) (returned cfg obs i) (sound cfg obs)
          (c'\<lparr>command_in_progress := False\<rparr>)) (sound cfg obs)
        (?c\<lparr>interlock_update_pending := False, command_in_progress := True\<rparr>)"
        using i by (intro wp_mono [OF once_wp [OF acc _ , of i]] continue)
          (auto intro: flight_sound simp: case_prod_beta)
      then show ?thesis using True going i
        by (simp add: wp_gets wp_modify wp_read_stop wp_fun case_prod_beta)
    qed
  qed
qed


lemma send_command_wp:
  assumes acc: "acceptable cfg obs p command p' c" and p': "p' \<noteq> Removed"
    and i: "interlock_id c = i" and busy: "\<not> command_in_progress c"
  shows "wp (send_command E n command k False)
    (\<lambda>(rc, body) c'. returned cfg obs i rc c' \<and> (rc = 0 \<and> i = [] \<longrightarrow> alive cfg obs p' c'))
    (sound cfg obs) c"
proof (cases n)
  case 0
  have "sound cfg obs c" using acc by (auto simp: acceptable_def dest: aliveD(1))
  then show ?thesis using 0 by (simp add: wp_cut)
next
  case (Suc m)
  let ?Q = "\<lambda>(rc, body) c'. returned cfg obs i rc c' \<and> (rc = 0 \<and> i = [] \<longrightarrow> alive cfg obs p' c')"
  have continue: "wp (if rc \<noteq> 0 then ret (rc, body)
      else bind (drain_interlock E (send_command E m) m) (\<lambda>rc'. ret (rc', body))) ?Q (sound cfg obs)
      (c'\<lparr>command_in_progress := False\<rparr>)"
    if "flight cfg obs p' i c' \<or> rc = - 1 \<and> shaken cfg obs i c'" for rc c' body
    using that
  proof (elim disjE conjE)
    assume fl: "flight cfg obs p' i c'"
    note calm = flight_calm [OF fl]
    have al: "alive cfg obs p' c'" using fl by (simp add: flight_def)
    consider "rc \<noteq> 0" | "rc = 0" "i = []" | "rc = 0" "i \<noteq> []" by blast
    then show ?thesis
    proof cases
      case 1
      then show ?thesis using calm_returned [OF calm] by (simp add: wp_ret)
    next
      case 2
      then have "\<not> interlock_update_pending c'"
        using aliveD(4,6) [OF al] fl by (auto simp: flight_def)
      then show ?thesis using 2 calm_returned [OF calm] al
        by (simp add: wp_bind drain_none wp_ret del: drain_interlock.simps)
    next
      case 3
      have "wp (drain_interlock E (send_command E m) m)
          (\<lambda>rc'. wp (ret (rc', body)) ?Q (sound cfg obs)) (sound cfg obs) (c'\<lparr>command_in_progress := False\<rparr>)"
        by (rule wp_mono [OF drain_wp [OF calm]]) (simp_all add: wp_ret 3)
      then show ?thesis using 3 by (simp add: wp_bind del: drain_interlock.simps)
    qed
  next
    assume "rc = - 1" "shaken cfg obs i c'"
    then show ?thesis by (auto simp: wp_ret returned_def shaken_def)
  qed
  have "wp (send_command_once E (send_command E m) m command k False)
      (\<lambda>x c'. wp (if fst x \<noteq> 0 then ret (fst x, snd x)
        else bind (drain_interlock E (send_command E m) m) (\<lambda>rc'. ret (rc', snd x))) ?Q (sound cfg obs)
        (c'\<lparr>command_in_progress := False\<rparr>)) (sound cfg obs) (c\<lparr>command_in_progress := True\<rparr>)"
    by (rule wp_mono [OF once_wp [OF acc p' i]], rule continue)
      (auto intro: flight_sound simp: case_prod_beta)
  then show ?thesis using Suc busy
    by (simp add: wp_gets wp_modify wp_fun case_prod_beta del: drain_interlock.simps)
qed

lemma send_cleanup_wp:
  assumes acc: "acceptable cfg obs p command Removed c" and busy: "\<not> command_in_progress c"
  shows "wp (send_command E n command k True)
    (\<lambda>_ c'. sound cfg obs c' \<and> ph cfg c' = Some Removed) (sound cfg obs) c"
proof (cases n)
  case 0
  have "sound cfg obs c" using acc by (auto simp: acceptable_def dest: aliveD(1))
  then show ?thesis using 0 by (simp add: wp_cut)
next
  case (Suc m)
  have "wp (send_command_once E (send_command E m) m command k True)
      (\<lambda>x c'. sound cfg obs (c'\<lparr>command_in_progress := False\<rparr>) \<and> ph cfg c' = Some Removed) (sound cfg obs)
      (c\<lparr>command_in_progress := True\<rparr>)"
    by (intro wp_mono [OF once_remove_wp [OF acc]]) (auto simp: removing_def)
  then show ?thesis using Suc busy
    by (simp add: wp_gets wp_modify wp_fun case_prod_beta del: drain_interlock.simps)
qed

lemma set_interlock_wp:
  assumes al: "alive cfg obs p c" and idle: "\<not> interlock_update_pending c" "\<not> command_in_progress c"
    and i: "interlock_id c = i" "i \<noteq> []" and b: "b \<Longrightarrow> v_wanted (vw cfg c) \<and> armed p"
  shows "wp (set_interlock (send_command E n) b) (returned cfg obs i) (sound cfg obs) c"
proof -
  have facts: "\<not> obs" "observe_only c = obs" "p = Creating \<or> armed p" "length i < INTERLOCK_ID_SIZE"
    using aliveD [OF al] soundD [OF aliveD(1) [OF al]] i by auto
  have "acceptable cfg obs p (interlock_command b i) (if b then Released else Blocked) c"
    using classify_interlock_command [OF facts(4), of b] al idle i b facts by (auto simp: acceptable_def)
  note run = send_command_wp [OF this _ i(1) idle(2), of E n 0]
  show ?thesis using facts i idle
    by (simp add: set_interlock_def wp_gets wp_bind)
      (rule wp_mono [OF run], auto simp: wp_ret)
qed

lemma handle_line_wp:
  assumes "listening cfg obs i c"
  shows "wp (bind (ag_log AG_LOG_DEBUG (Msg_line line)) (\<lambda>_. handle_status (send_command E n) line))
    (returned cfg obs i) (sound cfg obs) c"
proof -
  obtain p where al: "alive cfg obs p c" and set: "settled cfg p c" and arm: "i \<noteq> [] \<longrightarrow> armed p"
    and idle: "\<not> interlock_update_pending c" "\<not> command_in_progress c" and i: "interlock_id c = i"
    using assms by (auto simp: listening_def calm_def)
  note snd = aliveD(1) [OF al]
  have after: "alive cfg obs p c'" "\<not> interlock_update_pending c'" "\<not> command_in_progress c'"
    "interlock_id c' = i" "observe_only c' = obs"
    if "after_line cfg line c c'" for c'
    using alive_after_line [OF al that] after_line_frame [OF that] idle i soundD [OF snd] by auto
  have still: "returned cfg obs i 0 c'"
    if a: "after_line cfg line c c'" and w: "i = [] \<or> obs \<or> v_wanted (vw cfg c') = v_wanted (vw cfg c)" for c'
  proof -
    have "settled cfg p c'" using w set aliveD(6,7) [OF al] i after(2) [OF a] idle by (auto simp: settled_def)
    then have "calm cfg obs i c'" using after [OF a] arm by (auto simp: calm_def)
    then show ?thesis using after(2) [OF a] by (intro calm_returned) auto
  qed
  have "wp (handle_status (send_command E n) line) (returned cfg obs i) (sound cfg obs)
      (c\<lparr>trace := Log AG_LOG_DEBUG (Msg_line line) # trace c\<rparr>)"
  proof (rule handle_status_wp [OF soundD(3,4) [OF snd]])
    fix c' assume a: "after_line cfg line c c'"
    show "returned cfg obs i 0 c'"
      if "interlock_id c = [] \<or> observe_only c \<or> v_wanted (vw cfg c') = v_wanted (vw cfg c)"
      using that i soundD [OF snd] by (intro still [OF a]) auto
    show "wp (set_interlock (send_command E n) (v_wanted (vw cfg c'))) (returned cfg obs i) (sound cfg obs) c'"
    proof (cases "i = []")
      case True
      then show ?thesis using still [OF a] after [OF a] by (simp add: set_interlock_def wp_gets wp_bind wp_ret)
    next
      case False
      then show ?thesis using after [OF a] arm by (intro set_interlock_wp) auto
    qed
  qed
  then show ?thesis by (simp add: wp_bind wp_ag_log)
qed

subsection \<open>The session\<close>

text \<open>Before the interlock exists nothing is deferred, and a settled phase is no question.\<close>

definition preparing :: "ag_config \<Rightarrow> bool \<Rightarrow> phase \<Rightarrow> ag_connection \<Rightarrow> bool" where
  "preparing cfg obs p c \<longleftrightarrow> alive cfg obs p c \<and> interlock_id c = [] \<and> \<not> command_in_progress c"

lemma preparing_idle: "preparing cfg obs p c \<Longrightarrow> \<not> interlock_update_pending c \<and> \<not> armed p"
  by (auto simp: preparing_def dest: aliveD(4,6))

lemma preparing_calm: "preparing cfg obs p c \<Longrightarrow> calm cfg obs [] c"
  using preparing_idle [of cfg obs p c] by (auto simp: preparing_def calm_def settled_def)

definition prepared :: "ag_config \<Rightarrow> bool \<Rightarrow> phase \<Rightarrow> int \<Rightarrow> ag_connection \<Rightarrow> bool" where
  "prepared cfg obs p rc c \<longleftrightarrow>
     (if rc = 0 then preparing cfg obs p c else shaken cfg obs [] c \<and> \<not> command_in_progress c)"

lemma prepared_failed: "prepared cfg obs p rc c \<Longrightarrow> rc \<noteq> 0 \<Longrightarrow> rc' \<noteq> 0 \<Longrightarrow> prepared cfg obs p' rc' c"
  by (simp add: prepared_def)

lemma prepared_returned: "prepared cfg obs p rc c \<Longrightarrow> returned cfg obs [] rc c"
  using preparing_calm [of cfg obs p c] preparing_idle [of cfg obs p c]
  by (auto simp: prepared_def returned_def intro: calm_shaken simp: preparing_def split: if_splits)

lemma preparing_command_wp:
  assumes "preparing cfg obs p c" and "length command \<le> 1000"
    and "command_step (\<not> obs) (v_wanted (vw cfg c)) (classify command) p = Some p'"
    and "p' \<noteq> Removed" "\<not> armed p'"
  shows "wp (send_command E n command k False) (\<lambda>(rc, body). prepared cfg obs p' rc) (sound cfg obs) c"
proof -
  have "acceptable cfg obs p command p' c"
    using assms preparing_idle [OF assms(1)] by (simp add: acceptable_def preparing_def)
  note run = send_command_wp [OF this assms(4) _ _, of "[]" E n k]
  show ?thesis using assms(1)
    by (intro wp_mono [OF run]) (auto simp: prepared_def preparing_def returned_def shaken_def)
qed

lemma send_commands_wp:
  "preparing cfg obs (Setup j) c \<Longrightarrow> map classify cs = map Subscription [j..<j + length cs] \<Longrightarrow>
    \<forall>command \<in> set cs. length command \<le> 1000 \<Longrightarrow>
    wp (send_commands (send_command E n) cs) (prepared cfg obs (Setup (j + length cs))) (sound cfg obs) c"
proof (induction cs arbitrary: j c)
  case (Cons command cs)
  have first: "classify command = Subscription j"
    and rest: "map classify cs = map Subscription [Suc j..<Suc j + length cs]"
    using Cons.prems(2) by (simp_all add: upt_conv_Cons del: upt_Suc)
  have step: "wp (send_command E n command 0 False)
      (\<lambda>(rc, body). prepared cfg obs (Setup (Suc j)) rc) (sound cfg obs) c"
    using Cons.prems first by (intro preparing_command_wp) auto
  have tail: "wp (send_commands (send_command E n) cs)
      (prepared cfg obs (Setup (j + length (command # cs)))) (sound cfg obs) c'"
    if "prepared cfg obs (Setup (Suc j)) 0 c'" for c'
  proof -
    have "preparing cfg obs (Setup (Suc j)) c'" using that by (simp add: prepared_def)
    from Cons.IH [OF this rest] Cons.prems(3) show ?thesis by simp
  qed
  show ?case unfolding send_commands.simps wp_fun
  proof (rule wp_mono [OF step])
    fix x :: "int \<times> string" and c' assume "(case x of (rc, body) \<Rightarrow> prepared cfg obs (Setup (Suc j)) rc) c'"
    then have p: "prepared cfg obs (Setup (Suc j)) (fst x) c'" by (simp add: case_prod_beta)
    show "wp (case x of (rc, body) \<Rightarrow> if rc \<noteq> 0 then ret (- 1) else send_commands (send_command E n) cs)
        (prepared cfg obs (Setup (j + length (command # cs)))) (sound cfg obs) c'"
      using tail [of c'] p prepared_failed [OF p, of "- 1" "Setup (j + length (command # cs))"]
      by (cases "fst x = 0") (simp_all add: wp_ret case_prod_beta del: list.size)
  qed simp
qed (simp add: wp_ret prepared_def)

lemma antenna_list_length:
  "antenna_list k acc ps = Some names \<Longrightarrow> length acc < ANTENNA_LIST_SIZE \<Longrightarrow> length names < ANTENNA_LIST_SIZE"
  by (induction k acc ps rule: antenna_list.induct) (auto simp: Let_def split: if_splits)

lemma create_command_length:
  assumes "antenna_list 0 [] ps = Some names"
  shows "length (create_command names) \<le> 1000" "\<not> AG_COMMAND_SIZE \<le> length (create_command names)"
  using antenna_list_length [OF assms]
  by (simp_all add: create_command_def ANTENNA_LIST_SIZE_def AG_MAX_ANTENNAS_def AG_MAX_ANTENNA_ID_def)

lemma name_interlock:
  assumes "preparing cfg obs Creating c" and "\<not> obs" and "length i < INTERLOCK_ID_SIZE"
  shows "alive cfg obs Creating (c\<lparr>interlock_id := i\<rparr>)"
    "\<not> interlock_update_pending (c\<lparr>interlock_id := i\<rparr>)" "\<not> command_in_progress (c\<lparr>interlock_id := i\<rparr>)"
  using assms preparing_idle [OF assms(1)]
  by (simp_all add: preparing_def alive_def sound_def well_sized_def)

definition session_returned :: "ag_config \<Rightarrow> bool \<Rightarrow> int \<Rightarrow> ag_connection \<Rightarrow> bool" where
  "session_returned cfg obs rc c \<longleftrightarrow> (\<exists>i. returned cfg obs i rc c)"

lemma session_returned_quiet:
  "session_returned cfg obs rc c \<Longrightarrow> quiet e \<Longrightarrow> session_returned cfg obs rc (c\<lparr>trace := e # trace c\<rparr>)"
  by (auto simp: session_returned_def intro: returned_quiet)

lemma session_returned_failed:
  "session_returned cfg obs rc c \<Longrightarrow> rc' \<noteq> 0 \<Longrightarrow> session_returned cfg obs rc' c"
  by (auto simp: session_returned_def returned_def)

lemma arm_interlock_wp:
  assumes c: "preparing cfg obs Creating c" and obs: "\<not> obs"
  shows "wp (arm_interlock (send_command E n) body) (session_returned cfg obs) (sound cfg obs) c"
proof -
  let ?i = "takeWhile (\<lambda>c. c \<noteq> CHR ''|'') body"
  have start: "session_returned cfg obs 0 c"
    unfolding session_returned_def using preparing_calm [OF c] preparing_idle [OF c] calm_returned by blast
  have "wp (set_interlock (send_command E n) False)
      (\<lambda>rc. wp (if rc \<noteq> 0 then ret (- 1) else bind (ag_log AG_LOG_INFO (Msg_armed ?i)) (\<lambda>_. ret 0))
        (session_returned cfg obs) (sound cfg obs)) (sound cfg obs) (c\<lparr>interlock_id := ?i\<rparr>)"
    if i: "?i \<noteq> []" "length ?i < INTERLOCK_ID_SIZE"
  proof -
    have "wp (set_interlock (send_command E n) False) (returned cfg obs ?i) (sound cfg obs) (c\<lparr>interlock_id := ?i\<rparr>)"
      using i by (intro set_interlock_wp [OF name_interlock [OF c obs i(2)]]) simp_all
    then show ?thesis
    proof (rule wp_mono)
      fix rc c' assume "returned cfg obs ?i rc c'"
      then have "session_returned cfg obs rc c'" by (auto simp: session_returned_def)
      then show "wp (if rc \<noteq> 0 then ret (- 1) else bind (ag_log AG_LOG_INFO (Msg_armed ?i)) (\<lambda>_. ret 0))
          (session_returned cfg obs) (sound cfg obs) c'"
        by (auto simp: wp_ret wp_bind wp_ag_log intro: session_returned_quiet session_returned_failed)
    qed
  qed
  then show ?thesis
    using session_returned_failed [OF session_returned_quiet [OF start]]
    by (simp add: arm_interlock_def Let_def wp_if wp_bind wp_modify wp_ag_log wp_ret not_le del: wire_limits)
qed

lemma initialize_session_wp:
  assumes "preparing cfg obs (Setup 0) c"
  shows "wp (initialize_session (send_command E n)) (session_returned cfg obs) (sound cfg obs) c"
proof -
  have "map classify subscriptions = map Subscription [0..<0 + length subscriptions]" by code_simp
  moreover have "\<forall>command \<in> set subscriptions. length command \<le> 1000" by (simp add: subscriptions_def)
  moreover have "length subscriptions = 4" by (simp add: subscriptions_def)
  ultimately have subs: "wp (send_commands (send_command E n) subscriptions) (prepared cfg obs (Setup 4)) (sound cfg obs) c"
    using send_commands_wp [OF assms, of subscriptions E n] by simp
  have rest: "wp (if rc \<noteq> 0 then ret (- 1) else
     bind (gets (\<lambda>c. c)) (\<lambda>c.
       if observe_only c then bind (ag_log AG_LOG_INFO Msg_observe_active) (\<lambda>_. ret 0)
       else
     case antenna_list 0 [] (antennas (config c)) of
       None \<Rightarrow> ret (- 1)
     | Some names \<Rightarrow>
         if AG_COMMAND_SIZE \<le> length (create_command names)
         then bind (ag_log AG_LOG_ERROR Msg_antenna_list_too_long) (\<lambda>_. ret (- 1))
         else
     bind (send_command E n (create_command names) AG_RESPONSE_BODY False) (\<lambda>(rc, body).
       if rc \<noteq> 0 then ret (- 1) else arm_interlock (send_command E n) body)))
     (session_returned cfg obs) (sound cfg obs) c'"
    if prep: "prepared cfg obs (Setup 4) rc c'" for rc c'
  proof -
    have fin: "session_returned cfg obs rc c'"
      using prepared_returned [OF prep] by (auto simp: session_returned_def)
    show ?thesis
    proof (cases "rc = 0")
      case True
      then have p4: "preparing cfg obs (Setup 4) c'" using prep by (simp add: prepared_def)
      have obs: "observe_only c' = obs" 
        using soundD(5) [OF aliveD(1)] p4 unfolding preparing_def by blast
      have "wp (send_command E n (create_command names) AG_RESPONSE_BODY False)
          (\<lambda>x. wp (case x of (rc, body) \<Rightarrow> if rc \<noteq> 0 then ret (- 1) else arm_interlock (send_command E n) body)
            (session_returned cfg obs) (sound cfg obs)) (sound cfg obs) c'"
        if o: "\<not> obs" and l: "antenna_list 0 [] (antennas (config c')) = Some names" for names
      proof (rule wp_mono)
        show "wp (send_command E n (create_command names) AG_RESPONSE_BODY False)
            (\<lambda>(rc, body). prepared cfg obs Creating rc) (sound cfg obs) c'"
          using create_command_length [OF l] o classify_create by (intro preparing_command_wp [OF p4]) simp_all
        fix x :: "int \<times> string" and c2 assume "(case x of (rc, body) \<Rightarrow> prepared cfg obs Creating rc) c2"
        then have "prepared cfg obs Creating (fst x) c2" by (simp add: case_prod_beta)
        then show "wp (case x of (rc, body) \<Rightarrow> if rc \<noteq> 0 then ret (- 1) else arm_interlock (send_command E n) body)
            (session_returned cfg obs) (sound cfg obs) c2"
          using prepared_returned [of cfg obs Creating "fst x" c2] arm_interlock_wp [OF _ o]
          by (auto simp: wp_ret case_prod_beta prepared_def session_returned_def returned_def)
      qed simp
      then have created: "wp (case antenna_list 0 [] (antennas (config c')) of
           None \<Rightarrow> ret (- 1)
         | Some names \<Rightarrow>
             if AG_COMMAND_SIZE \<le> length (create_command names)
             then bind (ag_log AG_LOG_ERROR Msg_antenna_list_too_long) (\<lambda>_. ret (- 1))
             else
         bind (send_command E n (create_command names) AG_RESPONSE_BODY False) (\<lambda>(rc, body).
           if rc \<noteq> 0 then ret (- 1) else arm_interlock (send_command E n) body))
         (session_returned cfg obs) (sound cfg obs) c'" if "\<not> obs"
        using that session_returned_failed [OF fin] create_command_length
        by (cases "antenna_list 0 [] (antennas (config c'))") (simp_all add: wp_ret wp_bind del: wire_limits)
      show ?thesis
      proof (cases obs)
        case True
        then show ?thesis using \<open>rc = 0\<close> obs session_returned_quiet [OF fin, of "Log AG_LOG_INFO Msg_observe_active"]
          by (simp add: wp_gets wp_bind wp_ag_log wp_ret)
      next
        case False
        note now = created [OF this]
        show ?thesis unfolding wp_if wp_bind [of "gets f" for f] wp_gets using False \<open>rc = 0\<close> obs now
          by (simp only: if_False simp_thms)
      qed
    qed (use fin in \<open>auto simp: wp_ret intro: session_returned_failed\<close>)
  qed
  show ?thesis unfolding initialize_session_def wp_fun(1) [of "send_commands a b" for a b]
    by (rule wp_mono [OF subs rest])
qed

lemma remove_interlock_wp:
  assumes c: "session_returned cfg obs rc c"
  shows "wp (remove_interlock (send_command E n))
    (\<lambda>_ c'. sound cfg obs c' \<and> (\<forall>p. ph cfg c' = Some p \<longrightarrow> \<not> armed p)) (sound cfg obs) c"
proof -
  obtain p where al: "alive cfg obs p c" and busy: "\<not> command_in_progress c"
    using c by (auto simp: session_returned_def returned_def shaken_def)
  note snd = aliveD(1) [OF al]
  let ?cmd = "remove_command (interlock_id c)"
  show ?thesis
  proof (cases "interlock_id c = []")
    case True
    then show ?thesis using snd aliveD(2,6) [OF al]
      by (auto simp: remove_interlock_def wp_gets wp_bind wp_ret)
  next
    case False
    then have kind: "p = Creating \<or> armed p" "\<not> obs" using aliveD(7,8) [OF al] by auto
    have "acceptable cfg obs p ?cmd Removed c"
      using al kind by (auto simp: acceptable_def classify_remove)
    note run = send_cleanup_wp [OF this busy, of E n 0]
    have fin: "sound cfg obs (c'\<lparr>trace := Log l m # trace c', interlock_id := []\<rparr>)
        \<and> (\<forall>p. ph cfg (c'\<lparr>trace := Log l m # trace c', interlock_id := []\<rparr>) = Some p \<longrightarrow> \<not> armed p)"
      if "sound cfg obs c' \<and> ph cfg c' = Some Removed" "quiet (Log l m)" for c' l m
      using that by (simp add: sound_def well_sized_def)
    have "wp (send_command E n ?cmd 0 True)
      (\<lambda>x. wp (bind (if fst x = 0 then ag_log AG_LOG_INFO (Msg_removed (interlock_id c))
           else ag_log AG_LOG_WARNING Msg_cleanup_unconfirmed) (\<lambda>_. modify (\<lambda>c. c\<lparr>interlock_id := []\<rparr>)))
        (\<lambda>_ c'. sound cfg obs c' \<and> (\<forall>p. ph cfg c' = Some p \<longrightarrow> \<not> armed p)) (sound cfg obs)) (sound cfg obs) c"
      by (rule wp_mono [OF run]) (use fin in \<open>simp_all add: wp_bind wp_ag_log wp_modify\<close>)
    then show ?thesis using False kind soundD(5,7) [OF snd]
      by (simp add: remove_interlock_def wp_gets wp_bind [of "gets f" for f] wp_fun(1) [of "send_command a b e d k" for a b e d k]
          case_prod_beta)
  qed
qed

lemma session_loop_wp:
  "returned cfg obs i 0 c \<Longrightarrow>
    wp (session_loop E (send_command E m) n)
      (\<lambda>r c'. session_returned cfg obs 1 c' \<and> (r \<noteq> AG_SESSION_ERROR \<longrightarrow> calm cfg obs i c')) (sound cfg obs) c"
proof (induction n arbitrary: c)
  case 0
  then have calm: "calm cfg obs i (c\<lparr>tick := Suc (tick c), stop_requested := b\<rparr>)" for b
    by (simp add: returned_def)
  have "session_returned cfg obs 1 (c\<lparr>tick := Suc (tick c), stop_requested := b\<rparr>)" for b
    using calm_returned [OF calm, of 1 b] by (auto simp: session_returned_def)
  then show ?case using calm calm_sound [OF calm] by (simp add: wp_rules)
next
  case (Suc n)
  let ?Q = "\<lambda>r c'. session_returned cfg obs 1 c' \<and> (r \<noteq> AG_SESSION_ERROR \<longrightarrow> calm cfg obs i c')"
  let ?c = "\<lambda>b. c\<lparr>tick := Suc (tick c), stop_requested := b\<rparr>"
  have calm: "calm cfg obs i (?c b)" for b using Suc.prems by (simp add: returned_def)
  have done1: "?Q r c'" if "calm cfg obs i c'" for r :: ag_session_result and c'
    using that calm_returned [of cfg obs i c' 1] by (auto simp: session_returned_def)
  have line: "wp (bind (ag_log AG_LOG_DEBUG (Msg_line line)) (\<lambda>_.
      bind (handle_status (send_command E m) line) (\<lambda>rc.
        if rc \<noteq> 0 then ret AG_SESSION_ERROR else session_loop E (send_command E m) n))) ?Q (sound cfg obs) c'"
    if "listening cfg obs i c'" for c' line
  proof -
    have "wp (bind (ag_log AG_LOG_DEBUG (Msg_line line)) (\<lambda>_. handle_status (send_command E m) line))
      (\<lambda>rc. wp (if rc \<noteq> 0 then ret AG_SESSION_ERROR else session_loop E (send_command E m) n) ?Q (sound cfg obs))
      (sound cfg obs) c'"
    proof (rule wp_mono [OF handle_line_wp [OF that]])
      fix rc c2 assume r: "returned cfg obs i rc c2"
      then show "wp (if rc \<noteq> 0 then ret AG_SESSION_ERROR else session_loop E (send_command E m) n) ?Q (sound cfg obs) c2"
        using Suc.IH session_returned_failed [of cfg obs rc c2 1]
        by (cases "rc = 0") (auto simp: wp_ret session_returned_def simp del: session_loop.simps)
    qed
    then show ?thesis by (simp only: wp_fun)
  qed
  have reading: "wp (bind (read_line E n AG_LINE_BUFFER) (\<lambda>(read_result, line).
      if read_result < 0
      then bind (ag_log AG_LOG_WARNING Msg_connection_lost) (\<lambda>_. ret AG_SESSION_DISCONNECTED)
      else if read_result = 0 then session_loop E (send_command E m) n
      else bind (ag_log AG_LOG_DEBUG (Msg_line line)) (\<lambda>_.
        bind (handle_status (send_command E m) line) (\<lambda>rc.
          if rc \<noteq> 0 then ret AG_SESSION_ERROR else session_loop E (send_command E m) n)))) ?Q (sound cfg obs) c'"
    if l: "listening cfg obs i c'" for c'
    unfolding wp_bind [of "read_line E n AG_LINE_BUFFER"]
  proof (rule wp_mono [OF keepsD [OF listening.read_line_keeps l]])
    fix x :: "int \<times> string" and c2 assume l2: "listening cfg obs i c2"
    then have c2: "calm cfg obs i c2" "returned cfg obs i 0 c2"
      using calm_returned [of cfg obs i c2 0] by (auto simp: listening_def)
    obtain rr line where x: "x = (rr, line)" by (cases x)
    consider "rr < 0" | "rr = 0" | "0 < rr" by linarith
    then show "wp (case x of (read_result, line) \<Rightarrow>
        if read_result < 0
        then bind (ag_log AG_LOG_WARNING Msg_connection_lost) (\<lambda>_. ret AG_SESSION_DISCONNECTED)
        else if read_result = 0 then session_loop E (send_command E m) n
        else bind (ag_log AG_LOG_DEBUG (Msg_line line)) (\<lambda>_.
          bind (handle_status (send_command E m) line) (\<lambda>rc.
            if rc \<noteq> 0 then ret AG_SESSION_ERROR else session_loop E (send_command E m) n))) ?Q (sound cfg obs) c2"
    proof cases
      case 1
      then show ?thesis
        using done1 [OF calm_quiet [OF c2(1), of "Log AG_LOG_WARNING Msg_connection_lost"],
            of AG_SESSION_DISCONNECTED]
        by (simp add: x wp_bind wp_ag_log wp_ret)
    next
      case 2
      then show ?thesis using Suc.IH [OF c2(2)] by (simp add: x)
    next
      case 3
      then show ?thesis using line [OF l2, of line] by (simp add: x)
    qed
  next
    fix c2 assume "listening cfg obs i c2"
    then show "sound cfg obs c2" by (auto simp: listening_def calm_sound)
  qed
  show ?case
  proof (cases "stop_seen E c")
    case True
    then show ?thesis using done1 [OF calm [of True], of AG_SESSION_STOPPED] by (simp add: wp_bind wp_read_stop wp_ret)
  next
    case False
    then have "\<not> interlock_update_pending c" using Suc.prems by (auto simp: returned_def stop_seen_def)
    then have "listening cfg obs i (?c False)" using calm by (simp add: listening_def)
    from reading [OF this] show ?thesis using False
      by (simp add: wp_bind [of "read_stop E"] wp_read_stop)
  qed
qed

text \<open>What a session leaves behind.\<close>

definition left :: "ag_config \<Rightarrow> bool \<Rightarrow> ag_connection \<Rightarrow> bool" where
  "left cfg obs c \<longleftrightarrow> observe_only c = obs \<and> (\<exists>p. ph cfg c = Some p \<and> \<not> armed p)"

lemma sound_phase: "sound cfg obs c \<Longrightarrow> ph cfg c \<noteq> None"
  by (simp add: sound_def)

lemma close_session_wp:
  assumes "session_returned cfg obs rc c"
  shows "wp (close_session (send_command E n)) (\<lambda>_. left cfg obs) (sound cfg obs) c"
  unfolding close_session_def wp_fun(1) [of "remove_interlock s" for s]
  by (rule wp_mono [OF remove_interlock_wp [OF assms]])
    (auto simp: wp_bind wp_gets wp_close_fd wp_ret left_def dest: sound_phase soundD(5))

lemma connected_session_wp:
  assumes "preparing cfg obs (Setup 0) c"
  shows "wp (connected_session E n) (\<lambda>_. left cfg obs) (sound cfg obs) c"
proof -
  have close: "wp (bind (close_session (send_command E n)) (\<lambda>_. ret r)) (\<lambda>_. left cfg obs) (sound cfg obs) c'"
    if "session_returned cfg obs rc c'" for r :: ag_session_result and rc c'
    using wp_mono [OF close_session_wp [OF that]] by (simp add: wp_fun)
  have "wp (if rc \<noteq> 0
           then bind (read_stop E) (\<lambda>stop. ret (if stop then AG_SESSION_STOPPED else AG_SESSION_ERROR))
           else session_loop E (send_command E n) n)
      (\<lambda>r. wp (bind (close_session (send_command E n)) (\<lambda>_. ret r)) (\<lambda>_. left cfg obs) (sound cfg obs)) (sound cfg obs) c'"
    if r: "session_returned cfg obs rc c'" for rc c'
  proof (cases "rc = 0")
    case True
    then obtain i where "returned cfg obs i 0 c'" using r by (auto simp: session_returned_def)
    then show ?thesis using True
      by (simp del: session_loop.simps) (rule wp_mono [OF session_loop_wp], auto intro: close)
  next
    case False
    have sr: "session_returned cfg obs rc (c'\<lparr>tick := t, stop_requested := b\<rparr>)" for t b
      using r False by (auto simp: session_returned_def returned_def shaken_def)
    show ?thesis using False close [OF sr] by (simp add: wp_bind [of "read_stop E"] wp_read_stop wp_ret)
  qed
  then show ?thesis unfolding connected_session_def
      wp_fun(1) [of "initialize_session s" for s] wp_fun(1) [of "if b then m else m'" for b m m']
    by (rule wp_mono [OF initialize_session_wp [OF assms]])
qed

text \<open>A connection that has not spoken to the radio yet.\<close>

definition fresh :: "ag_config \<Rightarrow> bool \<Rightarrow> ag_connection \<Rightarrow> bool" where
  "fresh cfg obs c \<longleftrightarrow>
     well_sized c \<and> config c = cfg \<and> observe_only c = obs \<and> same_context no_view c \<and> interlock_id c = []
       \<and> \<not> command_in_progress c \<and> \<not> interlock_update_pending c \<and> left cfg obs c"

interpretation fresh: wire_invariant "fresh cfg obs" for cfg obs
  by unfold_locales (simp_all add: fresh_def well_sized_def left_def)

context wire_invariant
begin

lemma close_keeps: "keeps J (close_fd fd)"
  unfolding close_fd_def by (rule emit_keeps) simp

lemma try_address_keeps: "keeps J (try_address E)"
proof -
  have give_up: "keeps J (give_up fd)" for fd
    unfolding give_up_def by (intro wire_keeps close_keeps)
  have sysret: "keeps J m \<Longrightarrow> (\<And>x. keeps J (f x)) \<Longrightarrow>
      keeps J (case r of Sys_error e \<Rightarrow> m | Sys_ok x \<Rightarrow> f x)" for r :: "nat sysret" and m f
    by (cases r) simp_all
  have poll: "keeps J (case r of Poll_ready ev \<Rightarrow> ret True | _ \<Rightarrow> ret False)" for r
    by (cases r) (simp_all add: keeps_ret)
  show ?thesis unfolding try_address_def by (intro wire_keeps give_up sysret poll)
qed

lemma try_addresses_keeps: "keeps J (try_addresses E k)"
  by (induction k) (auto intro!: wire_keeps try_address_keeps)

lemma connect_socket_keeps: "keeps J (connect_socket E cfg)"
proof -
  have sysret: "keeps J (case r of Sys_error e \<Rightarrow> bind (ag_log AG_LOG_ERROR (Msg_cannot_resolve (host cfg))) (\<lambda>_. ret SOCKET_NONE)
      | Sys_ok addresses \<Rightarrow> f addresses)" if "\<And>x. keeps J (f x)" for r :: "nat sysret" and f
    using that by (cases r) (auto intro!: wire_keeps)
  show ?thesis unfolding connect_socket_def by (intro wire_keeps sysret try_addresses_keeps)
qed

end

lemma connected_wp:
  assumes "fresh cfg obs c" and "0 \<le> fd"
  shows "wp (bind (ag_log AG_LOG_INFO (Msg_connected h p)) (\<lambda>_. connected_session E n))
    (\<lambda>_. left cfg obs) (sound cfg obs) (c\<lparr>socket_fd := fd\<rparr>)"
proof -
  obtain q where "ph cfg c = Some q" "\<not> armed q" using assms(1) by (auto simp: fresh_def left_def)
  then have "preparing cfg obs (Setup 0) (c\<lparr>socket_fd := fd, trace := Log AG_LOG_INFO (Msg_connected h p) # trace c\<rparr>)"
    using assms by (simp add: fresh_def preparing_def alive_def sound_def well_sized_def vw_def ph_def)
  from connected_session_wp [OF this] show ?thesis by (simp add: wp_bind wp_ag_log)
qed

text \<open>Whether it connects or not, a session is accepted by the specification throughout.\<close>

definition accepted :: "ag_config \<Rightarrow> bool \<Rightarrow> ag_connection \<Rightarrow> bool" where
  "accepted cfg obs c \<longleftrightarrow> observe_only c = obs \<and> ph cfg c \<noteq> None"

lemma session_program_wp:
  assumes "fresh cfg obs c"
  shows "wp (session_program E n attempt) (\<lambda>_. left cfg obs) (accepted cfg obs) c"
proof -
  have left: "fresh cfg obs c' \<Longrightarrow> left cfg obs (c'\<lparr>socket_fd := fd\<rparr>)" for c' fd
    by (simp add: fresh_def left_def)
  have sound: "sound cfg obs c' \<Longrightarrow> accepted cfg obs c'" for c'
    by (simp add: sound_def accepted_def)
  have fresh: "fresh cfg obs c' \<Longrightarrow> accepted cfg obs c'" for c'
    by (auto simp: fresh_def left_def accepted_def)
  have failed: "wp (bind (read_stop E) (\<lambda>stop.
         bind (if \<not> stop \<and> attempt then ag_log AG_LOG_ERROR (Msg_could_not_connect h p) else ret ()) (\<lambda>_.
         bind (read_stop E) (\<lambda>stop. ret (if stop then AG_SESSION_STOPPED else AG_SESSION_UNAVAILABLE)))))
      (\<lambda>_. left cfg obs) (accepted cfg obs) c'" if "left cfg obs c'" for c' h p
    using that by (simp add: wp_rules left_def)
  have connected: "wp (bind (ag_log AG_LOG_INFO (Msg_connected h p)) (\<lambda>_. connected_session E n))
      (\<lambda>_. left cfg obs) (accepted cfg obs) (c'\<lparr>socket_fd := fd\<rparr>)" if "fresh cfg obs c'" "0 \<le> fd" for c' fd h p
    by (rule wp_mono [OF connected_wp [OF that]]) (auto intro: sound)
  have "wp (bind (connect_socket E cfg) (\<lambda>fd. bind (modify (\<lambda>c. c\<lparr>socket_fd := fd\<rparr>)) (\<lambda>_.
       if fd < 0 then
         bind (read_stop E) (\<lambda>stop.
         bind (if \<not> stop \<and> attempt then ag_log AG_LOG_ERROR (Msg_could_not_connect (host cfg) (port cfg)) else ret ()) (\<lambda>_.
         bind (read_stop E) (\<lambda>stop. ret (if stop then AG_SESSION_STOPPED else AG_SESSION_UNAVAILABLE))))
       else bind (ag_log AG_LOG_INFO (Msg_connected (host cfg) (port cfg))) (\<lambda>_. connected_session E n))))
      (\<lambda>_. left cfg obs) (accepted cfg obs) c'" if c': "fresh cfg obs c'" for c'
    unfolding wp_fun(1) [of "connect_socket E cfg"]
  proof (rule wp_mono [OF keepsD [OF fresh.connect_socket_keeps c']])
    fix fd c2 assume c2: "fresh cfg obs c2"
    show "wp (bind (modify (\<lambda>c. c\<lparr>socket_fd := fd\<rparr>)) (\<lambda>_.
       if fd < 0 then
         bind (read_stop E) (\<lambda>stop.
         bind (if \<not> stop \<and> attempt then ag_log AG_LOG_ERROR (Msg_could_not_connect (host cfg) (port cfg)) else ret ()) (\<lambda>_.
         bind (read_stop E) (\<lambda>stop. ret (if stop then AG_SESSION_STOPPED else AG_SESSION_UNAVAILABLE))))
       else bind (ag_log AG_LOG_INFO (Msg_connected (host cfg) (port cfg))) (\<lambda>_. connected_session E n)))
      (\<lambda>_. left cfg obs) (accepted cfg obs) c2"
      using failed [OF left [OF c2]] connected [OF c2]
      by (cases "fd < 0") (simp_all add: wp_bind [of "modify f" for f] wp_modify del: read_stop_def)
  qed (rule fresh)
  moreover have "fresh cfg obs (c\<lparr>trace := Log l (Msg_connecting h p) # trace c\<rparr>)" for l h p
    using assms fresh.event_ok by simp
  moreover have "config c = cfg" using assms by (simp add: fresh_def)
  ultimately show ?thesis using assms unfolding session_program_def
    by (cases attempt) (simp_all only: wp_bind [of "gets f" for f] wp_gets wp_bind [of "ag_log l m" for l m]
        wp_ag_log bind_ret if_True if_False)
qed

definition phase_in :: "ag_config \<Rightarrow> bool \<Rightarrow> 'w world_scheme \<Rightarrow> phase option" where
  "phase_in cfg obs w = phase_of (permits_of cfg) (\<not> obs) (trace w)"

text \<open>A world in which no interlock of ours is set up.\<close>

definition at_rest :: "ag_config \<Rightarrow> bool \<Rightarrow> 'w world_scheme \<Rightarrow> bool" where
  "at_rest cfg obs w \<longleftrightarrow> (\<exists>p. phase_in cfg obs w = Some p \<and> \<not> armed p)"

lemma run_session_wp:
  assumes "at_rest cfg obs w"
  shows "wp (ag_flex_run_session E n cfg obs attempt) (\<lambda>_. at_rest cfg obs)
    (\<lambda>w'. phase_in cfg obs w' \<noteq> None) w"
proof -
  have "saved_fit (replicate AG_SAVED_RESPONSES free_slot)" by (auto simp: saved_fit_def free_slot_def)
  then have "fresh cfg obs (new_connection cfg obs w)"
    using assms by (simp add: fresh_def new_connection_def well_sized_def same_context_def no_view_def left_def
        ph_def at_rest_def phase_in_def)
  from session_program_wp [OF this, of E n attempt]
  show ?thesis
    by (auto simp: wp_def ag_flex_run_session_def left_def accepted_def ph_def at_rest_def phase_in_def
        split: prod.splits option.splits)
qed

end
