(* ===== verification/Flex_History.thy ===== *)
theory Flex_History
  imports Flex_Safety
begin

text \<open>
  What no part of a session ever undoes: the trace only grows, and the stop flag is never
  cleared. A property that such steps keep is kept by every operation of \<^verbatim>\<open>src/flex.c\<close>.
\<close>

definition extends :: "event list \<Rightarrow> 'w world_scheme \<Rightarrow> bool" where
  "extends tr c \<longleftrightarrow> (\<exists>ql. trace c = ql @ tr)"

lemma extends_refl [simp]: "extends (trace c) c"
  by (simp add: extends_def)

lemma extends_Cons: "extends tr c \<Longrightarrow> trace c' = e # trace c \<Longrightarrow> extends tr c'"
  by (auto simp: extends_def)

lemma keeps_sysret:
  "(\<And>e. keeps J (f e)) \<Longrightarrow> (\<And>x. keeps J (g x)) \<Longrightarrow>
    keeps J (case r of Sys_error e \<Rightarrow> f e | Sys_ok x \<Rightarrow> g x)"
  by (cases r) simp_all

lemma keeps_poll:
  "(\<And>e. keeps J (f e)) \<Longrightarrow> keeps J m \<Longrightarrow> (\<And>ev. keeps J (g ev)) \<Longrightarrow>
    keeps J (case r of Poll_error e \<Rightarrow> f e | Poll_timeout \<Rightarrow> m | Poll_ready ev \<Rightarrow> g ev)"
  by (cases r) simp_all

locale history =
  fixes J :: "ag_connection \<Rightarrow> bool"
  assumes later: "J c \<Longrightarrow> extends (trace c) c' \<Longrightarrow> (stop_requested c \<Longrightarrow> stop_requested c') \<Longrightarrow> J c'"
begin

lemma modify_keeps:
  "(\<And>c. trace (f c) = trace c) \<Longrightarrow> (\<And>c. stop_requested (f c) = stop_requested c) \<Longrightarrow> keeps J (modify f)"
  by (rule keeps_modify, erule later) (simp_all add: extends_def)

lemma emit_keeps: "keeps J (emit e)"
  by (rule keepsI) (auto simp: wp_emit extends_def elim: later)

lemma log_keeps: "keeps J (ag_log l m)"
  unfolding ag_log_def by (rule emit_keeps)

lemma sys_keeps: "keeps J (sys f)"
  by (rule keepsI) (auto simp: wp_sys extends_def elim: later)

lemma stop_keeps: "keeps J (read_stop E)"
  by (rule keepsI) (auto simp: wp_read_stop stop_seen_def extends_def elim: later)

lemma clock_keeps: "keeps J (monotonic_milliseconds E)"
  by (rule keepsI) (auto simp: wp_monotonic extends_def elim: later)

lemma close_keeps: "keeps J (close_fd fd)"
  unfolding close_fd_def by (rule emit_keeps)

lemmas history_keeps =
  keeps_rules keeps_sysret keeps_poll modify_keeps emit_keeps sys_keeps log_keeps stop_keeps clock_keeps close_keeps

lemma send_all_keeps: "keeps J (send_all E n data)"
  by (induction n arbitrary: data) (auto simp: Let_def intro!: history_keeps)

lemma extract_line_keeps: "keeps J (extract_line k)"
  unfolding extract_line_def by (intro history_keeps) simp_all

lemma poll_keeps: "keeps J (poll_and_receive E n k)"
  by (induction n) (auto simp: Let_def intro!: history_keeps extract_line_keeps)

lemma read_line_keeps: "keeps J (read_line E n k)"
  unfolding read_line_def by (intro history_keeps extract_line_keeps poll_keeps)

lemma save_keeps: "keeps J (save_response q code body)"
  unfolding save_response_def by (intro history_keeps) simp_all

lemma take_keeps: "keeps J (take_response q)"
  unfolding take_response_def by (intro history_keeps) simp_all

lemma accept_keeps: "keeps J (accept_response command code body k)"
  unfolding accept_response_def by (intro history_keeps)

text \<open>The handlers, with the function that they send commands with.\<close>

lemma set_interlock_keeps:
  "(\<And>command k cleanup. keeps J (send command k cleanup)) \<Longrightarrow> keeps J (set_interlock send b)"
  unfolding set_interlock_def by (intro history_keeps) simp_all

lemma handle_status_keeps:
  assumes "\<And>command k cleanup. keeps J (send command k cleanup)"
  shows "keeps J (handle_status send line)"
proof -
  have "keeps J (handle_transmit send p)" for p
    unfolding handle_transmit_def set_antenna_def
    by (intro history_keeps set_interlock_keeps assms) (simp_all add: set_frequency_def Let_def)
  moreover have "keeps J (handle_interlock send p)" for p
    unfolding handle_interlock_def log_decision_def by (intro history_keeps set_interlock_keeps assms)
  ultimately show ?thesis unfolding status_dispatch by (intro keeps_rules)
qed

lemma await_keeps:
  assumes "\<And>command k cleanup. keeps J (send command k cleanup)"
  shows "keeps J (await_response E send n command k cleanup q deadline)"
proof (induction n)
  case (Suc n)
  show ?case unfolding await_response.simps
    by (intro history_keeps read_line_keeps take_keeps accept_keeps save_keeps handle_status_keeps assms Suc.IH)
qed (simp add: keeps_cut)

lemma once_keeps:
  assumes "\<And>command k cleanup. keeps J (send command k cleanup)"
  shows "keeps J (send_command_once E send n command k cleanup)"
  unfolding send_command_once_def
  by (intro history_keeps await_keeps send_all_keeps assms) simp_all

lemma drain_keeps:
  "(\<And>command k cleanup. keeps J (send command k cleanup)) \<Longrightarrow> keeps J (drain_interlock E send n)"
  by (induction n) (auto intro!: history_keeps once_keeps)

lemma send_command_keeps: "keeps J (send_command E n command k cleanup)"
proof (induction n arbitrary: command k cleanup)
  case (Suc n)
  show ?case unfolding send_command.simps
    by (intro history_keeps once_keeps [OF Suc.IH] drain_keeps [OF Suc.IH]) simp_all
qed (simp add: keeps_cut)

lemma close_session_keeps: "keeps J (close_session (send_command E n))"
  unfolding close_session_def remove_interlock_def
  by (intro history_keeps send_command_keeps) simp_all

end

interpretation growing: history "extends tr" for tr
  by unfold_locales (auto simp: extends_def)

interpretation stopping: history stop_requested
  by unfold_locales blast

end
