(* ===== verification/Session_Properties.thy ===== *)
theory Session_Properties
  imports Flex_History
begin

text \<open>
  The properties of a whole Flex session, and of the connection while one runs: consequences
  of the invariants of \<open>Flex_Safety\<close>, stated over the trace of \<open>ag_flex_run_session\<close>.
\<close>

subsection \<open>Consequences of acceptance\<close>

definition start_world :: world where
  "start_world = \<lparr>tick = 0, stop_requested = False, trace = []\<rparr>"

lemma start_at_rest: "at_rest cfg obs start_world"
  by (simp add: at_rest_def phase_in_def start_world_def)

lemma session_accepted:
  assumes "at_rest cfg obs w"
  shows "accepts (permits_of cfg) (\<not> obs) (trace (snd (ag_flex_run_session E n cfg obs attempt w)))"
  using run_session_wp [OF assms, of E n attempt]
  by (auto simp: wp_def accepts_def at_rest_def phase_in_def split: prod.splits option.splits)

lemma ready_prefix: "starts_with ''interlock ready '' c \<Longrightarrow> classify c = Set_ready True"
proof -
  assume "starts_with ''interlock ready '' c"
  then obtain r where "c = ''interlock ready '' @ r" by (auto simp only: starts_with_iff)
  then show ?thesis by (simp add: classify_def starts_with_def)
qed

lemma classify_subscription: "classify c = Subscription j \<Longrightarrow> c \<in> set setup_commands"
proof -
  assume "classify c = Subscription j"
  then have "\<not> index_from (\<lambda>s. s = c) 0 setup_commands < 0"
    by (simp add: classify_def Let_def split: if_split_asm del: setup_commands_def)
  then obtain k where "k < length setup_commands" "setup_commands ! k = c"
    using index_from_Some [of "\<lambda>s. s = c" 0 setup_commands] by auto
  then show ?thesis by (metis nth_mem)
qed

lemma observe_commands:
  "accepts permits False tr \<Longrightarrow> Log l (Msg_command c) \<in> set tr \<Longrightarrow> c \<in> set setup_commands"
proof (induction tr)
  case (Cons e tr)
  have acc: "accepts permits False tr" using Cons.prems(1) accepts_suffix [of permits False "[e]"] by simp
  show ?case
  proof (cases "e = Log l (Msg_command c)")
    case True
    obtain k where "phase_of permits False tr = Some (Setup k)" using observe_only_subscribes [OF acc] by blast
    then have "command_step False w (classify c) (Setup k) \<noteq> None" if "w = v_wanted (view_of permits tr)" for w
      using Cons.prems(1) True that by (auto simp: accepts_def)
    then obtain j where "classify c = Subscription j" by (cases "classify c") simp_all
    then show ?thesis by (rule classify_subscription)
  next
    case False
    then show ?thesis using Cons acc by auto
  qed
qed simp

subsection \<open>An allowed request is granted\<close>

text \<open>A command that succeeds has been sent, and its log message is the first thing it leaves.\<close>

lemma once_logged:
  "wp (send_command_once E (send_command E m) n command k cleanup)
    (\<lambda>(rc, body) c'. rc = 0 \<longrightarrow> extends (Log AG_LOG_DEBUG (Msg_command command) # trace c) c')
    (\<lambda>_. True) c"
proof -
  let ?tr = "Log AG_LOG_DEBUG (Msg_command command) # trace c"
  have tail: "keeps (extends ?tr) (bind (send_all E n frame) (\<lambda>sent.
      if sent \<noteq> 0 then bind (ag_log AG_LOG_ERROR Msg_send_failed) (\<lambda>_. ret (- 1, []))
      else await_response E (send_command E m) n command k cleanup q deadline))" for frame q deadline
    by (intro growing.history_keeps growing.send_all_keeps growing.await_keeps growing.send_command_keeps)
  have "wp (bind (send_all E n frame) (\<lambda>sent.
      if sent \<noteq> 0 then bind (ag_log AG_LOG_ERROR Msg_send_failed) (\<lambda>_. ret (- 1, []))
      else await_response E (send_command E m) n command k cleanup q deadline))
      (\<lambda>(rc, body) c'. rc = 0 \<longrightarrow> extends ?tr c') (\<lambda>_. True) c'" if "trace c' = ?tr" for frame q deadline c'
    using wp_mono [OF keepsD [OF tail], of c'] that extends_refl [of c'] by (auto simp: case_prod_beta)
  then show ?thesis
    by (simp add: send_command_once_def wp_gets wp_modify wp_if wp_ret wp_ag_log wp_bind [of "modify f" for f]
        wp_bind [of "gets f" for f] wp_bind [of "monotonic_milliseconds E"] wp_bind [of "read_stop E"]
        wp_bind [of "ag_log l m" for l m] wp_monotonic wp_read_stop del: wire_limits)
qed

lemma send_command_logged:
  "wp (send_command E n command k cleanup)
    (\<lambda>(rc, body) c'. rc = 0 \<longrightarrow> extends (Log AG_LOG_DEBUG (Msg_command command) # trace c) c')
    (\<lambda>_. True) c"
proof (cases n)
  case (Suc m)
  let ?tr = "Log AG_LOG_DEBUG (Msg_command command) # trace c"
  let ?Q = "\<lambda>(rc, body) c'. rc = 0 \<longrightarrow> extends ?tr c'"
  have tail: "wp (if rc \<noteq> 0 \<or> cleanup then ret (rc, body)
      else bind (drain_interlock E (send_command E m) m) (\<lambda>rc'. ret (rc', body))) ?Q (\<lambda>_. True)
      (c'\<lparr>command_in_progress := False\<rparr>)" if "rc = 0 \<longrightarrow> extends ?tr c'" for rc body c'
  proof -
    have "keeps (extends ?tr) (if rc \<noteq> 0 \<or> cleanup then ret (rc, body)
        else bind (drain_interlock E (send_command E m) m) (\<lambda>rc'. ret (rc', body)))"
      by (intro growing.history_keeps growing.drain_keeps growing.send_command_keeps)
    moreover have "rc = 0 \<Longrightarrow> extends ?tr (c'\<lparr>command_in_progress := False\<rparr>)"
      using that by (simp add: extends_def)
    ultimately show ?thesis
      by (cases "rc = 0") (auto simp: wp_ret case_prod_beta simp del: drain_interlock.simps dest!: keepsD elim!: wp_mono)
  qed
  have "wp (send_command_once E (send_command E m) m command k cleanup)
      (\<lambda>x c'. wp (if fst x \<noteq> 0 \<or> cleanup then ret (fst x, snd x)
        else bind (drain_interlock E (send_command E m) m) (\<lambda>rc'. ret (rc', snd x))) ?Q (\<lambda>_. True)
        (c'\<lparr>command_in_progress := False\<rparr>)) (\<lambda>_. True) (c\<lparr>command_in_progress := True\<rparr>)"
    by (rule wp_mono [OF once_logged], rule tail) (auto simp: case_prod_beta)
  then show ?thesis using Suc
    by (simp add: wp_gets wp_modify wp_if wp_ag_log wp_ret wp_fun case_prod_beta del: drain_interlock.simps)
qed (simp add: wp_cut)

definition is_request :: "string \<Rightarrow> bool" where
  "is_request line \<longleftrightarrow>
     starts_with ''interlock '' (status_payload line) \<and> \<not> starts_with ''transmit '' (status_payload line)
       \<and> flex_field_value (drop 10 (status_payload line)) ''state'' 64 = Some ''PTT_REQUESTED''"

lemma request_wp:
  assumes c: "listening cfg obs i c" and i: "i \<noteq> []" and line: "is_request line"
  shows "wp (bind (ag_log AG_LOG_DEBUG (Msg_line line)) (\<lambda>_. handle_status (send_command E n) line))
    (\<lambda>rc c'. rc = 0 \<longrightarrow> (\<exists>ql. list_all quiet ql \<and>
       extends (Log AG_LOG_DEBUG (Msg_command (interlock_command (allowed (evaluate_context c)) i))
         # ql @ Log AG_LOG_DEBUG (Msg_line line) # trace c) c')) (\<lambda>_. True) c"
proof -
  let ?c = "c\<lparr>trace := Log AG_LOG_DEBUG (Msg_line line) # trace c\<rparr>"
  obtain p where al: "alive cfg obs p c" and idle: "\<not> command_in_progress c" and id: "interlock_id c = i"
    using c by (auto simp: listening_def calm_def)
  note snd = soundD [OF aliveD(1) [OF al]]
  have obs: "\<not> observe_only c" using aliveD(7) [OF al] i id snd(5) by auto
  have sc: "same_context (vw cfg c) ?c" "antennas (config ?c) = antennas cfg" using snd by simp_all
  have dec: "allowed (evaluate_context ?c) = allowed (evaluate_context c)" by (simp add: evaluate_context_def)
  have act: "interlock_action (observe_only ?c) b (flex_field_value (drop 10 (status_payload line)) ''state'' 64) = Some b" for b
    using line by (simp add: is_request_def interlock_action_def)
  obtain ql where ql: "list_all quiet ql" and
    h: "\<And>Q C. wp (handle_interlock (send_command E n) (drop 10 (status_payload line))) Q C ?c \<longleftrightarrow>
      wp (set_interlock (send_command E n) (allowed (evaluate_context c))) Q C (?c\<lparr>trace := ql @ trace ?c\<rparr>)"
    using handle_interlock_wp [OF sc, of "send_command E n" "drop 10 (status_payload line)"]
    unfolding act option.case evaluate_context_permitted [OF sc, symmetric] dec by blast
  let ?c2 = "?c\<lparr>trace := ql @ trace ?c\<rparr>"
  let ?cmd = "interlock_command (allowed (evaluate_context c)) i"
  have "wp (send_command E n ?cmd 0 False)
      (\<lambda>x c'. fst x = 0 \<longrightarrow> (\<exists>ql. list_all quiet ql \<and>
         extends (Log AG_LOG_DEBUG (Msg_command ?cmd) # ql @ Log AG_LOG_DEBUG (Msg_line line) # trace c) c'))
      (\<lambda>_. True) ?c2"
    by (rule wp_mono [OF send_command_logged]) (use ql in \<open>auto simp: case_prod_beta\<close>)
  then have "wp (set_interlock (send_command E n) (allowed (evaluate_context c)))
      (\<lambda>rc c'. rc = 0 \<longrightarrow> (\<exists>ql. list_all quiet ql \<and>
         extends (Log AG_LOG_DEBUG (Msg_command ?cmd) # ql @ Log AG_LOG_DEBUG (Msg_line line) # trace c) c'))
      (\<lambda>_. True) ?c2"
    using obs i id idle
    by (simp add: set_interlock_def wp_gets wp_bind [of "gets f" for f] wp_fun case_prod_beta)
  then show ?thesis using line h
    by (simp add: wp_bind wp_ag_log status_dispatch is_request_def)
qed

subsection \<open>What a trace must satisfy\<close>

text \<open>Every command that releases the interlock comes when the last reported context is allowed.\<close>

definition allowed_view :: "ag_config \<Rightarrow> view \<Rightarrow> bool" where
  "allowed_view cfg v = allowed (ag_policy_evaluate cfg (v_known v) (v_mhz v) (Some (v_antenna v)))"

definition releases :: "event \<Rightarrow> bool" where
  "releases e =
     (case e of Log l m \<Rightarrow> (case m of Msg_command c \<Rightarrow> starts_with ''interlock ready '' c | _ \<Rightarrow> False)
      | _ \<Rightarrow> False)"

primrec released_when_allowed :: "ag_config \<Rightarrow> event list \<Rightarrow> bool" where
  "released_when_allowed cfg [] = True"
| "released_when_allowed cfg (e # tr) =
     ((if releases e then allowed_view cfg (view_of (permits_of cfg) tr) else True)
       \<and> released_when_allowed cfg tr)"

lemma releasesE: "releases e \<Longrightarrow> \<exists>l c. e = Log l (Msg_command c) \<and> classify c = Set_ready True"
  using ready_prefix by (auto simp: releases_def split: event.splits log_message.splits)

lemma accepts_released: "accepts (permits_of cfg) b tr \<Longrightarrow> released_when_allowed cfg tr"
proof (induction tr)
  case (Cons e tr)
  have "accepts (permits_of cfg) b tr" using Cons.prems accepts_suffix [of "permits_of cfg" b "[e]" tr] by simp
  moreover have "allowed_view cfg (view_of (permits_of cfg) tr)" if "releases e"
  proof -
    from releasesE [OF that] obtain l c where "e = Log l (Msg_command c)" "classify c = Set_ready True" by blast
    then have "permitted (permits_of cfg) (view_of (permits_of cfg) tr)"
      using ready_is_permitted(1) [of "permits_of cfg" b "[]" l c tr] Cons.prems by simp
    then show ?thesis by (simp only: permitted_def permits_of_def allowed_view_def)
  qed
  ultimately show ?case using Cons.IH by simp
qed simp

text \<open>The commands of an observing session.\<close>

definition observing :: "event \<Rightarrow> bool" where
  "observing e =
     (case e of Log l m \<Rightarrow> (case m of Msg_command c \<Rightarrow> c \<in> set subscriptions | _ \<Rightarrow> True) | _ \<Rightarrow> True)"

lemma accepts_observing: "accepts permits False tr \<Longrightarrow> list_all observing tr"
proof -
  have "subscriptions = setup_commands" by (simp add: subscriptions_def setup_commands_def)
  then show "accepts permits False tr \<Longrightarrow> list_all observing tr"
    using observe_commands [of permits tr]
    by (auto simp: list_all_iff observing_def split: event.splits log_message.splits)
qed

subsection \<open>Sizes\<close>

interpretation sizes: wire_invariant well_sized
  by unfold_locales (simp_all add: well_sized_def)

lemma extract_line_length:
  assumes "length (receive_buffer c) \<le> AG_LINE_BUFFER"
  shows "wp (extract_line AG_LINE_BUFFER)
    (\<lambda>(result, line) c'. length line < AG_LINE_BUFFER \<and> result \<in> {- 1, 0, 1}
       \<and> (result = 0 \<longrightarrow> c' = c)) (\<lambda>_. True) c"
proof -
  let ?b = "receive_buffer c"
  have "length (cstr (take k ?b)) < AG_LINE_BUFFER" if "k < length ?b" for k
    using length_cstr [of "take k ?b"] that assms by simp
  moreover have "length (takeWhile (\<lambda>c. c \<noteq> LF) ?b) < length ?b" if "LF \<in> set ?b"
    using line_length [OF that] .
  moreover have "0 < AG_LINE_BUFFER" by simp
  ultimately show ?thesis by (auto simp: extract_line_def wp_rules Let_def simp del: wire_limits)
qed

lemma poll_length:
  "length (receive_buffer c) \<le> AG_LINE_BUFFER \<Longrightarrow>
    wp (poll_and_receive E n AG_LINE_BUFFER)
      (\<lambda>(result, line) c'. length line < AG_LINE_BUFFER \<and> result \<in> {- 1, 0, 1}) (\<lambda>_. True) c"
proof (induction n arbitrary: c)
  case (Suc n)
  have received: "wp (extract_line AG_LINE_BUFFER)
      (\<lambda>(result, line) c'. length line < AG_LINE_BUFFER \<and> (result = - 1 \<or> result = 0 \<or> result = 1)) (\<lambda>_. True)
      (c\<lparr>tick := t, receive_buffer := receive_buffer c @ take (AG_LINE_BUFFER - length (receive_buffer c)) bytes\<rparr>)"
    for t bytes
    by (rule wp_mono [OF extract_line_length]) (use Suc.prems in auto)
  have "0 < AG_LINE_BUFFER" by simp
  then show ?case using Suc
    by (auto simp: wp_rules Let_def received simp del: wire_limits split: poll_result.split sysret.split)
qed (simp add: wp_rules)

lemma read_line_length:
  assumes "length (receive_buffer c) \<le> AG_LINE_BUFFER"
  shows "wp (read_line E n AG_LINE_BUFFER)
    (\<lambda>(result, line) c'. length line < AG_LINE_BUFFER \<and> result \<in> {- 1, 0, 1}) (\<lambda>_. True) c"
  unfolding read_line_def wp_bind
  by (rule wp_mono [OF extract_line_length [OF assms]])
    (use assms poll_length in \<open>auto simp: wp_rules\<close>)

lemma soundD_sized: "sound cfg obs c \<Longrightarrow> well_sized c"
  by (simp add: sound_def)

subsection \<open>A sample connection\<close>

definition test_config :: ag_config where
  "test_config =
     \<lparr>radio_mode = AG_RADIO_DIRECT, host = ''radio'', radio_serial = [], discovery_ip = [],
      port = 4992, reconnect_seconds = 3, reconnect_max_seconds = 30, reconnect_log_seconds = 300,
      antennas = [\<lparr>antenna_id = ''ANT1'', allowed_bands = 1\<rparr>]\<rparr>"

text \<open>A network on which every call succeeds and nothing ever arrives.\<close>

definition silent_env :: env where
  "silent_env =
     \<lparr>env_signal = (\<lambda>t. False), env_clock = (\<lambda>t. (int t, 0)), env_poll = (\<lambda>t. Poll_timeout),
      env_recv = (\<lambda>t. Sys_ok []), env_send = (\<lambda>t. Sys_ok 4096), env_getaddrinfo = (\<lambda>t. Sys_ok 1),
      env_socket = (\<lambda>t. Sys_ok 3), env_fcntl = (\<lambda>t. Sys_ok ()), env_connect = (\<lambda>t. Sys_ok ()),
      env_so_error = (\<lambda>t. Sys_ok 0), env_setsockopt = (\<lambda>t. Sys_ok ()), env_bind = (\<lambda>t. Sys_ok ()),
      env_nanosleep = (\<lambda>t. Sys_ok ())\<rparr>"

text \<open>A connection in the main loop: interlock 12 is blocked, ANT1 on 1.9 MHz was reported.\<close>

definition armed_trace :: "event list" where
  "armed_trace =
     map (Log AG_LOG_DEBUG)
       ([Msg_line ''S7|transmit freq=1.9 tx_antenna=ANT1'', Msg_command ''interlock not_ready 12'',
         Msg_command ''interlock create type=ANT'', Msg_command ''sub tx all'', Msg_command ''sub slice all'',
         Msg_command ''sub radio all'', Msg_command ''name AntennaGuardianPiLite''])"

definition armed_connection :: ag_connection where
  "armed_connection =
     (let v = view_of (permits_of test_config) armed_trace
      in (new_connection test_config False start_world)
           \<lparr>trace := armed_trace, socket_fd := 3, interlock_id := ''12'', has_frequency := v_known v,
            frequency_mhz := v_mhz v, tx_antenna := v_antenna v\<rparr>)"

lemma armed_facts:
  "phase_of (permits_of test_config) True armed_trace = Some Blocked"
  "view_of (permits_of test_config) armed_trace =
    \<lparr>v_known = True, v_mhz = double_literal (19 / 10), v_antenna = ''ANT1'', v_wanted = False\<rparr>"
  by code_simp+

lemma armed_allowed: "allowed (evaluate_context armed_connection)"
proof -
  have "in_band (double_literal (of_nat 1900000 / 10 ^ 6)) (BANDS ! 0)"
    using in_band_hertz [of 0 1900000] by (simp add: lower_limit_def upper_limit_def band_limits_def)
  then have "in_band (double_literal (19 / 10)) (BANDS ! 0)" by simp
  moreover have "band_permitted test_config ''ANT1'' 0" by code_simp
  ultimately have "allowed (ag_policy_evaluate test_config True (double_literal (19 / 10)) (Some ''ANT1''))"
    by (subst evaluate_in_band [of True "''ANT1''" 0]) simp_all
  then show ?thesis
    by (simp add: evaluate_context_def armed_connection_def armed_facts new_connection_def)
qed

lemma armed_listening: "listening test_config False ''12'' armed_connection"
proof -
  have "saved_fit (replicate AG_SAVED_RESPONSES free_slot)" by (auto simp: saved_fit_def free_slot_def)
  then have "alive test_config False Blocked armed_connection"
    by (simp add: armed_connection_def armed_facts alive_def sound_def well_sized_def new_connection_def
        same_context_def vw_def ph_def AG_MAX_ANTENNA_ID_def)
  then show ?thesis
    by (auto simp: listening_def calm_def settled_def armed_connection_def new_connection_def Let_def)
qed

lemma armed_sound: "sound test_config False armed_connection"
  using armed_listening by (auto simp: listening_def calm_def dest: aliveD(1))

subsection \<open>Properties\<close>

text \<open>
  C2. A session only ever does what the abstract interlock allows: whatever the radio, the network,
  the clock and the signals do, and wherever the run is cut off, the trace of commands is one
  the specification accepts. In particular subscriptions come first and in order, the interlock
  is created only outside observe mode, it is set only after it was created and never after
  its removal, it is released only while an allowed transmission is wanted, and the messages
  of the defensive branches for nested commands, long commands and long lines never occur.
\<close>

theorem session_refines_interlock:
  "accepts (permits_of cfg) (\<not> observe)
     (trace (snd (ag_flex_run_session E n cfg observe attempt start_world)))"
  by (rule session_accepted [OF start_at_rest])

text \<open>
  No unlisted transmission is ever enabled: each \<^verbatim>\<open>interlock ready\<close> command of a session is
  issued at a point where the frequency and antenna the radio last reported are allowed by
  the policy of the configuration.
\<close>

lemma session_releases_only_when_allowed:
  "released_when_allowed cfg (trace (snd (ag_flex_run_session E n cfg observe attempt start_world)))"
  by (rule accepts_released [OF session_accepted [OF start_at_rest]])

text \<open>
  In observe mode a session sends nothing but its name and the three subscriptions: no
  interlock is created, set or removed.
\<close>

lemma observe_mode_sends_only_subscriptions:
  "list_all observing (trace (snd (ag_flex_run_session E n cfg True attempt start_world)))"
proof (rule accepts_observing)
  show "accepts (permits_of cfg) False (trace (snd (ag_flex_run_session E n cfg True attempt start_world)))"
    using session_accepted [OF start_at_rest, where obs = True] by simp
qed

text \<open>
  A session that returns, for whatever reason, leaves no armed interlock behind: if one was
  set up, the command to remove it has been sent after every other command.
\<close>

lemma session_removes_interlock:
  "case ag_flex_run_session E n cfg observe attempt start_world of
     (None, w) \<Rightarrow> True
   | (Some result, w) \<Rightarrow> phase_in cfg observe w \<notin> {None, Some Blocked, Some Released}"
  using run_session_wp [OF start_at_rest, of E n cfg observe attempt]
  by (auto simp: wp_def at_rest_def split: prod.splits option.splits)





text \<open>
  C29. Reading a line stays within the buffers: the receive buffer never holds more than its 8192
  bytes, a line fits the 8192 bytes of its caller with its terminating NUL, no cached response
  outgrows its slot, and the result is one of the three codes.
\<close>

theorem read_line_bounds:
  assumes "well_sized c"
  shows "wp (read_line E n AG_LINE_BUFFER)
    (\<lambda>(result, line) c'. well_sized c' \<and> length line < AG_LINE_BUFFER \<and> result \<in> {- 1, 0, 1})
    well_sized c"
  using wp_conj [OF keepsD [OF sizes.read_line_keeps assms] read_line_length [of c E n]] assms
  by (auto simp: well_sized_def case_prod_beta elim!: wp_mono)

theorem read_line_bounds_witness:
  "wp (read_line silent_env 5 AG_LINE_BUFFER)
    (\<lambda>(result, line) c'. well_sized c' \<and> length line < AG_LINE_BUFFER \<and> result \<in> {- 1, 0, 1})
    well_sized armed_connection"
  by (rule read_line_bounds [OF soundD_sized [OF armed_sound]])

end
