(* ===== verification/Discovery_Properties.thy ===== *)
theory Discovery_Properties
  imports Discovery Config_Correct
begin

text \<open>
  What UDP discovery guarantees: announcements are read back as they were written, what is
  read fits its buffers, only a radio that the configuration selects is returned, and the
  text comparison of addresses is a comparison of addresses.
\<close>

subsection \<open>Addresses as text\<close>

lemma digit_char_zero: "digit_char 0 = CHR ''0''"
  by code_simp

lemma dec_string_value:
  assumes "w \<noteq> []" "list_all isdigit w" "hd w = CHR ''0'' \<longrightarrow> length w = 1"
  shows "dec_string (digits_value 10 w) = w"
  using assms
proof (induction w rule: rev_induct)
  case (snoc c w)
  have c: "digit_char (digit_value c) = c" "digit_value c < 10"
    using snoc.prems(2) by (auto simp: isdigit_def digit_char_def digit_value_def xdigit_value_def)
  show ?case
  proof (cases "w = []")
    case True
    then show ?thesis using c by (subst dec_string.simps) (simp add: digits_value_def)
  next
    case False
    then have h: "hd w \<noteq> CHR ''0''" using snoc.prems(3) by (cases w) auto
    then have ih: "dec_string (digits_value 10 w) = w" using snoc False by auto
    have "digits_value 10 w \<noteq> 0"
    proof
      assume "digits_value 10 w = 0"
      then have "w = dec_string 0" using ih by simp
      then have "w = [CHR ''0'']" by (simp add: dec_string.simps digit_char_zero)
      then show False using h by simp
    qed
    then show ?thesis using ih c
      by (subst dec_string.simps) (simp add: digits_value_append)
  qed
qed simp

fun join_on :: "char \<Rightarrow> string list \<Rightarrow> string" where
  "join_on d [] = []"
| "join_on d [w] = w"
| "join_on d (w # v # ws) = w @ d # join_on d (v # ws)"

lemma join_split: "join_on d (split_on d s) = s"
proof (induction d s rule: split_on.induct)
  case (2 d c cs)
  then show ?case by (cases "split_on d cs") (auto split: list.splits, (cases "tl (split_on d cs)"; simp)+)
qed simp

lemma inet_pton4_text:
  assumes "inet_pton4 s = Some bytes"
  shows "s = join_on (CHR ''.'') (map dec_string bytes)"
proof -
  let ?ws = "split_on (CHR ''.'') s"
  have ok: "list_all octet_ok ?ws" and b: "bytes = map (digits_value 10) ?ws"
    using assms by (auto simp: inet_pton4_def Let_def split: if_splits)
  have "map dec_string bytes = ?ws"
    using ok unfolding b by (auto simp: list_all_iff octet_ok_def intro!: map_idI dec_string_value)
  then show ?thesis by (simp add: join_split)
qed

lemma inet_pton4_inject:
  "inet_pton4 s = Some bytes \<Longrightarrow> inet_pton4 t = Some bytes \<Longrightarrow> s = t"
  using inet_pton4_text [of s bytes] inet_pton4_text [of t bytes] by simp

subsection \<open>What is read fits\<close>

lemma payload_no_NUL: "packet_payload packet = Some payload \<Longrightarrow> NUL \<notin> set payload"
  by (auto simp: packet_payload_def Let_def split: if_splits)

lemma field_length: "discovery_field_value p f n = Some v \<Longrightarrow> 0 < length v \<and> length v < n"
  by (auto simp: discovery_field_value_def split: option.splits if_splits)

lemma field_or_empty_length:
  "0 < n \<Longrightarrow> length (field_or_empty (discovery_field_value p f n)) < n"
  using field_length [of p f n] by (auto simp: field_or_empty_def split: option.splits)

lemma parse_port_range: "parse_port t = Some p \<Longrightarrow> 1 \<le> unat p"
proof -
  assume "parse_port t = Some p"
  then obtain v :: "64 word" where v: "p = ucast v" "\<not> v < 1" "\<not> 65535 < v"
    by (auto simp: parse_port_def Let_def split: if_splits)
  have "unat v \<noteq> 0" using v(2) by (simp add: word_less_nat_alt)
  moreover have "unat v \<le> 65535" using v(3) by (simp add: word_less_nat_alt)
  ultimately show ?thesis 
    by (simp add: v(1) unsigned_ucast_eq unsigned_take_bit_eq take_bit_nat_eq_self)
qed

definition radio_fits :: "ag_discovered_radio \<Rightarrow> bool" where
  "radio_fits radio \<longleftrightarrow>
     0 < length (serial radio) \<and> length (serial radio) \<le> AG_MAX_RADIO_SERIAL
       \<and> length (radio_host radio) \<le> AG_MAX_IPV4_TEXT \<and> inet_pton4 (radio_host radio) \<noteq> None
       \<and> 1 \<le> unat (radio_port radio)
       \<and> length (model radio) \<le> AG_MAX_RADIO_MODEL \<and> length (radio_name radio) \<le> AG_MAX_RADIO_NAME"

lemma parse_packet_fits:
  assumes "parse_packet packet = Some radio"
  shows "radio_fits radio"
proof -
  obtain payload where p: "parse_fields payload = Some radio"
    using assms by (auto simp: parse_packet_def split: option.splits)
  obtain s ip pt q where
    f: "discovery_field_value payload ''serial'' (AG_MAX_RADIO_SERIAL + 1) = Some s"
      "discovery_field_value payload ''ip'' (AG_MAX_IPV4_TEXT + 1) = Some ip"
      "inet_pton4 ip \<noteq> None" "parse_port pt = Some q"
    and r: "serial radio = s" "radio_host radio = ip" "radio_port radio = q"
      "model radio = field_or_empty (discovery_field_value payload ''model'' (AG_MAX_RADIO_MODEL + 1))"
      "radio_name radio = (case discovery_field_value payload ''nickname'' (AG_MAX_RADIO_NAME + 1) of
         Some nickname \<Rightarrow> nickname
       | None \<Rightarrow> field_or_empty (discovery_field_value payload ''name'' (AG_MAX_RADIO_NAME + 1)))"
    using p by (auto simp: parse_fields_def split: option.splits if_splits)
  have "length (radio_name radio) < AG_MAX_RADIO_NAME + 1"
    using field_length [of payload "''nickname''"] field_or_empty_length [of "AG_MAX_RADIO_NAME + 1"]
    by (auto simp: r split: option.split)
  moreover have "length (model radio) < AG_MAX_RADIO_MODEL + 1"
    using field_or_empty_length by (simp add: r)
  ultimately show ?thesis
    using field_length [OF f(1)] field_length [OF f(2)] f(3) parse_port_range [OF f(4)]
    by (simp add: radio_fits_def r)
qed

subsection \<open>Waiting\<close>

text \<open>What a result of \<open>ag_discovery_wait\<close> in world \<open>w'\<close> says, started in a world with trace \<open>tr\<close>.\<close>

definition discovery_failure :: "log_message \<Rightarrow> bool" where
  "discovery_failure m \<longleftrightarrow>
     m = Msg_discovery_configure_failed \<or> m = Msg_discovery_bind_failed \<or> m = Msg_discovery_listener_failed"

definition discovery_outcome ::
  "env \<Rightarrow> ag_config \<Rightarrow> event list \<Rightarrow> ag_discovery_result \<Rightarrow> 'w world_scheme \<Rightarrow> bool" where
  "discovery_outcome E cfg tr r w' =
     (case r of
        AG_DISCOVERY_MATCHED radio \<Rightarrow>
          matches_selector cfg radio
            \<and> (\<exists>t bytes. env_recv E t = Sys_ok bytes
                 \<and> parse_packet (take AG_DISCOVERY_PACKET_MAX bytes) = Some radio)
            \<and> (\<exists>fd. trace w' = Closed fd # tr)
      | AG_DISCOVERY_STOPPED \<Rightarrow> stop_requested w' \<and> (\<exists>fd. trace w' = Closed fd # tr)
      | AG_DISCOVERY_ERROR \<Rightarrow>
          trace w' = Log AG_LOG_ERROR Msg_discovery_socket_failed # tr
            \<or> (\<exists>fd m. trace w' = Closed fd # Log AG_LOG_ERROR m # tr \<and> discovery_failure m))"

lemma outcome_intros:
  "matches_selector cfg radio \<Longrightarrow> env_recv E t = Sys_ok bytes \<Longrightarrow>
    parse_packet (take AG_DISCOVERY_PACKET_MAX bytes) = Some radio \<Longrightarrow> trace w' = Closed fd # tr \<Longrightarrow>
    discovery_outcome E cfg tr (AG_DISCOVERY_MATCHED radio) w'"
  "stop_requested w' \<Longrightarrow> trace w' = Closed fd # tr \<Longrightarrow> discovery_outcome E cfg tr AG_DISCOVERY_STOPPED w'"
  "trace w' = Closed fd # Log AG_LOG_ERROR m # tr \<Longrightarrow> discovery_failure m \<Longrightarrow>
    discovery_outcome E cfg tr AG_DISCOVERY_ERROR w'"
  "trace w' = Log AG_LOG_ERROR Msg_discovery_socket_failed # tr \<Longrightarrow>
    discovery_outcome E cfg tr AG_DISCOVERY_ERROR w'"
  by (auto simp: discovery_outcome_def)

lemma discovery_poll_wp:
  fixes w :: "'w world_scheme"
  shows "wp (discovery_poll E n cfg fd) (discovery_outcome E cfg (trace w)) (\<lambda>w'. trace w' = trace w) w"
proof (induction n arbitrary: w)
  case (Suc n)
  have again: "wp (discovery_poll E n cfg fd) (discovery_outcome E cfg (trace w)) (\<lambda>w'. trace w' = trace w) w'"
    if "trace w' = trace w" for w' :: "'w world_scheme"
    using Suc.IH [of w'] that by simp
  show ?case
    by (auto simp: wp_rules discovery_failure_def intro: again outcome_intros split: poll_result.split sysret.split option.split)
qed (simp add: wp_rules outcome_intros(2))

lemma discovery_poll_from:
  "trace w = tr \<Longrightarrow> wp (discovery_poll E n cfg fd) (discovery_outcome E cfg tr) (\<lambda>w'. trace w' = tr) w"
  using discovery_poll_wp [of E n cfg fd w] by simp

lemma discovery_wait_wp:
  "wp (ag_discovery_wait E n cfg) (discovery_outcome E cfg (trace w)) (\<lambda>w'. trace w' = trace w) w"
  by (auto simp: ag_discovery_wait_def wp_rules discovery_failure_def intro: outcome_intros discovery_poll_from split: sysret.split)

subsection \<open>Announcements\<close>

text \<open>The bytes of a number in network order, and a VITA-49 packet as a radio sends it.\<close>

definition network_word :: "nat \<Rightarrow> string" where
  "network_word n = map (\<lambda>k. chr (n div 256 ^ k mod 256)) [3, 2, 1, 0]"

definition stamps_length :: "nat \<Rightarrow> nat \<Rightarrow> nat" where
  "stamps_length tsi tsf = (if tsi \<noteq> 0 then 4 else 0) + (if tsf \<noteq> 0 then 8 else 0)"

definition pad_length :: "string \<Rightarrow> nat" where
  "pad_length payload = (4 - length payload mod 4) mod 4"

definition packet_words :: "nat \<Rightarrow> nat \<Rightarrow> string \<Rightarrow> nat" where
  "packet_words tsi tsf payload = (16 + stamps_length tsi tsf + length payload + pad_length payload) div 4"

definition announcement :: "nat \<Rightarrow> nat \<Rightarrow> nat \<Rightarrow> string \<Rightarrow> string \<Rightarrow> string" where
  "announcement tsi tsf counter stamps payload =
     network_word (3 * 2 ^ 28 + 2 ^ 27 + tsi * 2 ^ 22 + tsf * 2 ^ 20 + counter * 2 ^ 16
       + packet_words tsi tsf payload)
     @ network_word 0x800 @ network_word 0x1c2d @ network_word 0x534cffff
     @ stamps @ payload @ replicate (pad_length payload) NUL"

lemma pad_length_dvd: "4 dvd length payload + pad_length payload"
proof -
  define n r where "n = length payload" and "r = n mod 4"
  consider "r = 0" | "r = 1" | "r = 2" | "r = 3" using mod_less_divisor [of 4 n] unfolding r_def by linarith
  then have "(r + (4 - r) mod 4) mod 4 = 0" by cases simp_all
  then have "(n + (4 - r) mod 4) mod 4 = 0" unfolding r_def by (simp only: mod_add_left_eq)
  then show ?thesis by (simp only: pad_length_def n_def [symmetric] r_def [symmetric] dvd_eq_mod_eq_0)
qed

lemma length_network_word [simp]: "length (network_word n) = 4"
  by (simp add: network_word_def)

lemma read_network_word_inverse:
  assumes "n < 2 ^ 32"
  shows "read_network_word (network_word n @ rest) = of_nat n"
proof -
  define a b c where "a = n div 256" and "b = a div 256" and "c = b div 256"
  have c: "c < 256" using assms by (simp add: a_def b_def c_def div_mult2_eq [symmetric])
  have parts: "n div 256 ^ 3 = c" "n div 256 ^ 2 = b" "n div 256 ^ 1 = a" "n div 256 ^ 0 = n"
    by (simp_all add: a_def b_def c_def div_mult2_eq [symmetric])
  have split: "((c mod 256 * 256 + b mod 256) * 256 + a mod 256) * 256 + n mod 256 = n"
    using c by (simp add: a_def b_def c_def)
  have "read_network_word (network_word n @ rest) =
      ((of_nat (c mod 256) * 256 + of_nat (b mod 256)) * 256 + of_nat (a mod 256)) * 256 + of_nat (n mod 256)"
    using parts by (simp add: read_network_word_def network_word_def)
  also have "\<dots> = of_nat (((c mod 256 * 256 + b mod 256) * 256 + a mod 256) * 256 + n mod 256)"
    by (simp only: of_nat_add of_nat_mult of_nat_numeral)
  also have "\<dots> = of_nat n" by (simp only: split)
  finally show ?thesis .
qed

lemma read_network_word_drop:
  "n < 2 ^ 32 \<Longrightarrow> length pre = k \<Longrightarrow> read_network_word (drop k (pre @ network_word n @ rest)) = of_nat n"
  by (simp add: read_network_word_inverse)

lemma header_fields:
  assumes "tsi < 4" "tsf < 4" "counter < 16" "words < 2 ^ 16"
  defines "h \<equiv> 3 * 2 ^ 28 + 2 ^ 27 + tsi * 2 ^ 22 + tsf * 2 ^ 20 + counter * 2 ^ 16 + words"
  shows "h < 2 ^ 32"
    and "drop_bit 28 (of_nat h :: 32 word) = 3"
    and "drop_bit 27 (of_nat h :: 32 word) = 7"
    and "and (of_nat h :: 32 word) AG_VITA_CLASS_PRESENT \<noteq> 0"
    and "unat (and (of_nat h :: 32 word) 0xffff) = words"
    and "and (drop_bit 22 (of_nat h :: 32 word)) 3 \<noteq> 0 \<longleftrightarrow> tsi \<noteq> 0"
    and "and (drop_bit 20 (of_nat h :: 32 word)) 3 \<noteq> 0 \<longleftrightarrow> tsf \<noteq> 0"
proof -
  show h: "h < 2 ^ 32" using assms by (simp add: h_def)
  have u: "unat (of_nat h :: 32 word) = h" using h by (simp add: unat_of_nat)
  have db: "unat (drop_bit k (of_nat h :: 32 word)) = h div 2 ^ k" for k
    by (simp only: unat_drop_bit_eq u) (simp only: drop_bit_eq_div)
  have "h = (3 * 2 ^ 12 + 2 ^ 11 + tsi * 2 ^ 6 + tsf * 2 ^ 4 + counter) * 2 ^ 16 + words" by (simp add: h_def)
  then have multiple: "h mod 2 ^ 16 = words" using assms(4) by (metis mod_less mod_mult_self3)
  have "h div 2 ^ 28 = 3" "h div 2 ^ 27 = 7" using assms by (simp_all add: h_def)
  then have "unat (drop_bit 28 (of_nat h :: 32 word)) = unat (3 :: 32 word)"
    "unat (drop_bit 27 (of_nat h :: 32 word)) = unat (7 :: 32 word)" unfolding db by simp_all
  then show "drop_bit 28 (of_nat h :: 32 word) = 3" and "drop_bit 27 (of_nat h :: 32 word) = 7"
    by (simp_all only: word_unat_eq_iff)
  then have "bit (of_nat h :: 32 word) 27" by (simp add: bit_iff_odd_drop_bit)
  moreover have "AG_VITA_CLASS_PRESENT = 2 ^ 27" by (simp add: vita_constants)
  ultimately show "and (of_nat h :: 32 word) AG_VITA_CLASS_PRESENT \<noteq> 0"
    by (metis and_exp_eq_0_iff_not_bit)
  have tb: "unat (take_bit k w) = unat w mod 2 ^ k" for k and w :: "32 word"
    by (simp only: unsigned_take_bit_eq) (simp only: take_bit_eq_mod)
  have "and (of_nat h :: 32 word) 0xffff = take_bit 16 (of_nat h)"
    by (simp add: take_bit_eq_mask mask_eq_exp_minus_1)
  then show "unat (and (of_nat h :: 32 word) 0xffff) = words"
    using multiple by (simp only: tb u)
  have two: "and w 3 = take_bit 2 w" for w :: "32 word"
    by (simp add: take_bit_eq_mask mask_eq_exp_minus_1)
  have nz: "w \<noteq> 0 \<longleftrightarrow> unat w \<noteq> 0" for w :: "32 word" by (simp only: unsigned_eq_0_iff)
  have "h = (224 + tsi) * 2 ^ 22 + (tsf * 2 ^ 20 + counter * 2 ^ 16 + words)"
    "tsf * 2 ^ 20 + counter * 2 ^ 16 + words < 2 ^ 22"
    using assms by (simp_all add: h_def)
  then have q22: "h div 2 ^ 22 = 224 + tsi" by simp
  have "h = ((224 + tsi) * 4 + tsf) * 2 ^ 20 + (counter * 2 ^ 16 + words)" "counter * 2 ^ 16 + words < 2 ^ 20"
    using assms by (simp_all add: h_def)
  then have q20: "h div 2 ^ 20 = (224 + tsi) * 4 + tsf" by simp
  have "(224 + tsi) mod 2 ^ 2 = (224 mod 2 ^ 2 + tsi) mod 2 ^ 2" by (simp only: mod_add_left_eq)
  then have m22: "h div 2 ^ 22 mod 2 ^ 2 = tsi" using assms(1) unfolding q22 by simp
  have m20: "h div 2 ^ 20 mod 2 ^ 2 = tsf"
    using mod_mult_self3 [of "224 + tsi" 4 tsf] assms(2) unfolding q20 by simp
  show "and (drop_bit 22 (of_nat h :: 32 word)) 3 \<noteq> 0 \<longleftrightarrow> tsi \<noteq> 0"
    unfolding two nz tb db m22 ..
  show "and (drop_bit 20 (of_nat h :: 32 word)) 3 \<noteq> 0 \<longleftrightarrow> tsf \<noteq> 0"
    unfolding two nz tb db m20 ..
qed

lemma dropWhile_NUL_payload:
  assumes "payload \<noteq> []" "NUL \<notin> set payload"
  shows "rev (dropWhile (\<lambda>c. c = NUL) (rev (payload @ replicate k NUL))) = payload"
proof -
  obtain xs x where p: "payload = xs @ [x]" using assms(1) by (cases payload rule: rev_cases) auto
  then have "x \<noteq> NUL" using assms(2) by auto
  then have "dropWhile (\<lambda>c. c = NUL) (rev (payload @ replicate k NUL)) = rev payload"
    by (simp add: p) (induction k, auto)
  then show ?thesis by simp
qed

lemma packet_payload_announcement:
  assumes "tsi < 4" "tsf < 4" "counter < 16" "length stamps = stamps_length tsi tsf"
    and "payload \<noteq> []" "NUL \<notin> set payload" "length payload \<le> AG_DISCOVERY_PACKET_MAX"
  shows "packet_payload (announcement tsi tsf counter stamps payload @ trailing) = Some payload"
proof -
  define words where "words = packet_words tsi tsf payload"
  define h where "h = 3 * 2 ^ 28 + 2 ^ 27 + tsi * 2 ^ 22 + tsf * 2 ^ 20 + counter * 2 ^ 16 + words"
  let ?body = "stamps @ payload @ replicate (pad_length payload) NUL"
  let ?packet = "announcement tsi tsf counter stamps payload"
  have packet: "?packet = network_word h @ network_word 0x800 @ network_word 0x1c2d @ network_word 0x534cffff @ ?body"
    by (simp add: announcement_def h_def words_def)
  have "4 dvd length payload + pad_length payload" by (rule pad_length_dvd)
  moreover have "4 dvd 16 + stamps_length tsi tsf" by (simp add: stamps_length_def)
  ultimately have "4 dvd (16 + stamps_length tsi tsf) + (length payload + pad_length payload)"
    by (rule dvd_add [rotated])
  then have size: "words * 4 = 16 + length ?body"
    using assms(4) by (simp add: words_def packet_words_def algebra_simps)
  have "pad_length payload < 4" "stamps_length tsi tsf \<le> 12" by (simp_all add: pad_length_def stamps_length_def)
  then have "words * 4 < 2 ^ 18" using size assms(4,7) by (simp add: AG_DISCOVERY_PACKET_MAX_def)
  then have "words < 2 ^ 16" by simp
  note hf = header_fields [OF assms(1,2,3) this, folded h_def]
  have w0: "read_network_word (?packet @ trailing) = of_nat h"
    using read_network_word_inverse [OF hf(1)] by (simp add: packet)
  have w1: "read_network_word (drop 4 (?packet @ trailing)) = of_nat 0x800"
    using read_network_word_drop [of "0x800" "network_word h" 4] by (simp add: packet)
  have w3: "read_network_word (drop 12 (?packet @ trailing)) = of_nat 0x534cffff"
    using read_network_word_drop [of "0x534cffff" "network_word h @ network_word 0x800 @ network_word 0x1c2d" 12]
    by (simp add: packet)
  have len: "length ?packet = words * 4" using size by (simp add: packet)
  have offset: "16 + (if tsi \<noteq> 0 then 4 else 0) + (if tsf \<noteq> 0 then 8 else 0) = 16 + length stamps"
    by (simp add: assms(4) stamps_length_def)
  have body: "drop (16 + length stamps) (take (words * 4) (?packet @ trailing)) = payload @ replicate (pad_length payload) NUL"
    using len by (simp add: packet)
  have more: "\<not> words * 4 \<le> 16 + length stamps" "\<not> words * 4 < 16" "\<not> length (?packet @ trailing) < 16"
    "\<not> length (?packet @ trailing) < words * 4"
    using size assms(5) len by auto
  show ?thesis
    unfolding packet_payload_def Let_def w0 w1 w3 hf(5) hf(6,7) offset body
      dropWhile_NUL_payload [OF assms(5,6)]
    using hf(2,4) more assms(5,6,7) by (simp add: vita_constants)
qed

subsection \<open>A radio as it announces itself\<close>

definition radio_fields :: "ag_discovered_radio \<Rightarrow> (string \<times> string) list" where
  "radio_fields radio =
     [(''discovery_protocol_version'', ''3.0.0.2''), (''model'', model radio), (''serial'', serial radio),
      (''nickname'', radio_name radio), (''ip'', radio_host radio),
      (''port'', dec_string (unat (radio_port radio)))]"

definition plain_text :: "string \<Rightarrow> bool" where
  "plain_text s \<longleftrightarrow> SP \<notin> set s \<and> NUL \<notin> set s"

definition plain_radio :: "ag_discovered_radio \<Rightarrow> bool" where
  "plain_radio radio \<longleftrightarrow> plain_text (serial radio) \<and> plain_text (model radio) \<and> plain_text (radio_name radio)"

lemma plain_digits: "list_all isdigit ds \<Longrightarrow> plain_text ds"
  by (auto simp: plain_text_def list_all_iff dest!: isdigit_not_special)

lemma plain_dec_string [simp]: "plain_text (dec_string n)"
  by (intro plain_digits dec_string_digits)

lemma plain_join: "list_all plain_text ws \<Longrightarrow> plain_text [d] \<Longrightarrow> plain_text (join_on d ws)"
  by (induction d ws rule: join_on.induct) (auto simp: plain_text_def)

lemma plain_address: "inet_pton4 s = Some bytes \<Longrightarrow> plain_text s"
  using inet_pton4_text [of s bytes]
  by (auto intro!: plain_join simp: list_all_iff) (simp add: plain_text_def NUL_def)

lemma word_bound16: "unat (p :: 16 word) < 2 ^ 16"
  using unsigned_less [where 'a = nat, of p] by simp

lemma parse_port_dec: "1 \<le> unat p \<Longrightarrow> parse_port (dec_string (unat p)) = Some p"
proof -
  assume p: "1 \<le> unat p"
  note b = word_bound16 [of p]
  then have "strtoul (dec_string (unat p) @ []) 10
      = \<lparr>ul_value = of_nat (unat p), ul_end = [], ul_erange = False\<rparr>"
    by (subst strtoul_dec) (simp_all add: dec_string_digits digits_value_dec_string)
  moreover have v: "unat (of_nat (unat p) :: 64 word) = unat p"
    by (simp only: unat_of_nat) (use b in simp)
  then have "\<not> (of_nat (unat p) :: 64 word) < 1" "\<not> 65535 < (of_nat (unat p) :: 64 word)"
    using p b unfolding word_less_nat_alt v by simp_all
  moreover have "ucast (of_nat (unat p) :: 64 word) = p"
    by transfer (simp add: take_bit_nat_def take_bit_int_def)
  ultimately show ?thesis by (simp add: parse_port_def Let_def dec_string_nonempty [symmetric])
qed

lemma parse_fields_radio:
  assumes fits: "radio_fits radio" and plain: "plain_radio radio"
  shows "parse_fields (render_fields (radio_fields radio)) = Some radio"
proof -
  define payload where "payload = render_fields (radio_fields radio)"
  let ?get = "discovery_field_value payload"
  obtain bytes where ip: "inet_pton4 (radio_host radio) = Some bytes" using fits by (auto simp: radio_fits_def)
  have pf: "list_all plain_field (radio_fields radio)"
    using plain plain_address [OF ip] plain_dec_string [of "unat (radio_port radio)"]
    unfolding radio_fields_def plain_radio_def
    by (simp add: plain_field_def plain_text_def)
  have raw: "field_raw f payload = map_of (radio_fields radio) f" for f
    unfolding payload_def by (rule field_raw_render [OF pf])
  have host: "radio_host radio \<noteq> []"
    using ip by (auto simp: inet_pton4_def)
  have b: "unat (radio_port radio) < 10 ^ 5" using word_bound16 [of "radio_port radio"] by simp
  have port: "length (dec_string (unat (radio_port radio))) < 16"
    using dec_string_length [OF b] by simp
  have get: "?get ''serial'' (AG_MAX_RADIO_SERIAL + 1) = Some (serial radio)"
    "?get ''ip'' (AG_MAX_IPV4_TEXT + 1) = Some (radio_host radio)"
    "?get ''port'' 16 = Some (dec_string (unat (radio_port radio)))"
    "field_or_empty (?get ''model'' (AG_MAX_RADIO_MODEL + 1)) = model radio"
    "?get ''nickname'' (AG_MAX_RADIO_NAME + 1) = (if radio_name radio = [] then None else Some (radio_name radio))"
    "?get ''name'' (AG_MAX_RADIO_NAME + 1) = None"
    using fits host port
    by (simp_all add: discovery_field_value_def raw radio_fields_def radio_fits_def field_or_empty_def)
  show ?thesis
    unfolding payload_def [symmetric] parse_fields_def get option.case
    using ip fits by (cases radio) (simp add: radio_fits_def parse_port_dec field_or_empty_def)
qed

lemma radio_payload:
  assumes fits: "radio_fits radio" and plain: "plain_radio radio"
  shows "render_fields (radio_fields radio) \<noteq> []" "NUL \<notin> set (render_fields (radio_fields radio))"
    "length (render_fields (radio_fields radio)) \<le> AG_DISCOVERY_PACKET_MAX"
proof -
  obtain bytes where ip: "inet_pton4 (radio_host radio) = Some bytes" using fits by (auto simp: radio_fits_def)
  have b: "unat (radio_port radio) < 10 ^ 5" using word_bound16 [of "radio_port radio"] by simp
  show "render_fields (radio_fields radio) \<noteq> []" by (simp add: radio_fields_def)
  show "NUL \<notin> set (render_fields (radio_fields radio))"
    using plain plain_address [OF ip] plain_dec_string [of "unat (radio_port radio)"]
    by (simp add: radio_fields_def plain_radio_def plain_text_def) (simp add: NUL_def)
  show "length (render_fields (radio_fields radio)) \<le> AG_DISCOVERY_PACKET_MAX"
    using fits dec_string_length [OF b]
    by (simp add: radio_fields_def radio_fits_def AG_DISCOVERY_PACKET_MAX_def AG_MAX_RADIO_SERIAL_def
      AG_MAX_IPV4_TEXT_def AG_MAX_RADIO_MODEL_def AG_MAX_RADIO_NAME_def)
qed

definition example_radio :: ag_discovered_radio where
  "example_radio = \<lparr>radio_host = ''192.168.1.40'', radio_port = 4992, serial = ''1234-5678'',
     model = ''FLEX-6600'', radio_name = []\<rparr>"

lemma example_radio_ok: "radio_fits example_radio" "plain_radio example_radio"
  by code_simp+

text \<open>A configuration that selects by address.\<close>

definition sample_selector :: "string \<Rightarrow> ag_config" where
  "sample_selector ip = zero_config \<lparr>discovery_ip := ip\<rparr>"

text \<open>
  C14. The announcement of a radio is read back: whatever the timestamps and the packet counter, and
  whatever bytes follow the packet in the datagram, \<^verbatim>\<open>parse_packet\<close> finds serial, address, port, model and
  name as they were written.
\<close>

theorem announcement_read_back:
  assumes "radio_fits radio" "plain_radio radio"
    and "tsi < 4" "tsf < 4" "counter < 16" "length stamps = stamps_length tsi tsf"
  shows "parse_packet (announcement tsi tsf counter stamps (render_fields (radio_fields radio)) @ trailing)
    = Some radio"
  using packet_payload_announcement [OF assms(3-6) radio_payload [OF assms(1,2)]]
  by (simp add: parse_packet_def parse_fields_radio assms(1,2))

lemma announcement_read_back_witness:
  "parse_packet (announcement 1 1 7 (replicate 12 (CHR ''t'')) (render_fields (radio_fields example_radio))
     @ ''more'') = Some example_radio"
  by (rule announcement_read_back) (simp_all add: example_radio_ok stamps_length_def)

text \<open>
  C33. Whatever the datagram holds, the radio that \<^verbatim>\<open>parse_packet\<close> returns fits the fixed buffers of
  \<^verbatim>\<open>ag_discovered_radio\<close>: a serial of 1 to 63 bytes, an IPv4 address, a port that is not 0, and a model and
  a name of at most 63 bytes.
\<close>

theorem discovered_radio_fits:
  "parse_packet packet = Some radio \<Longrightarrow>
     0 < length (serial radio) \<and> length (serial radio) \<le> AG_MAX_RADIO_SERIAL
       \<and> length (radio_host radio) \<le> AG_MAX_IPV4_TEXT \<and> inet_pton4 (radio_host radio) \<noteq> None
       \<and> 1 \<le> unat (radio_port radio)
       \<and> length (model radio) \<le> AG_MAX_RADIO_MODEL \<and> length (radio_name radio) \<le> AG_MAX_RADIO_NAME"
  using parse_packet_fits [of packet radio] by (simp add: radio_fits_def)

lemma discovered_radio_fits_witness:
  "length (serial example_radio) \<le> AG_MAX_RADIO_SERIAL"
proof -
  have "parse_packet (announcement 0 0 0 [] (render_fields (radio_fields example_radio)) @ []) = Some example_radio"
    unfolding parse_packet_def
    by (subst packet_payload_announcement) (simp_all add: example_radio_ok radio_payload stamps_length_def parse_fields_radio)
  then show ?thesis using discovered_radio_fits [of "announcement 0 0 0 [] (render_fields (radio_fields example_radio)) @ []"]
    by blast
qed

text \<open>
  C34. The selector compares addresses: for a configured address and a discovered radio, the text
  comparison of \<^verbatim>\<open>matches_selector\<close> accepts exactly the radios whose address is, byte for byte, the configured
  one (an IPv4 address has a single spelling that \<^verbatim>\<open>inet_pton\<close> accepts), and whose serial is the
  configured one up to case, if one is configured.
\<close>

theorem selector_compares_addresses:
  assumes "inet_pton4 (discovery_ip cfg) \<noteq> None"
  shows "matches_selector cfg radio \<longleftrightarrow>
     (radio_serial cfg = [] \<or> strcasecmp_eq (radio_serial cfg) (serial radio))
       \<and> inet_pton4 (discovery_ip cfg) = inet_pton4 (radio_host radio)"
proof -
  obtain bytes where ip: "inet_pton4 (discovery_ip cfg) = Some bytes" using assms by blast
  have "inet_pton4 [] = None" by code_simp
  then have "discovery_ip cfg \<noteq> []" using ip by (metis option.distinct(1))
  moreover have "discovery_ip cfg = radio_host radio \<longleftrightarrow> inet_pton4 (discovery_ip cfg) = inet_pton4 (radio_host radio)"
    using inet_pton4_inject [OF ip, of "radio_host radio"] unfolding ip by (metis ip)
  ultimately show ?thesis unfolding matches_selector_def by blast
qed

lemma selector_compares_addresses_witness:
  "matches_selector (sample_selector ''192.168.1.40'') example_radio
     \<and> \<not> matches_selector (sample_selector ''192.168.1.41'') example_radio"
proof
  have "inet_pton4 (discovery_ip (sample_selector ''192.168.1.40'')) \<noteq> None"
    "radio_serial (sample_selector ''192.168.1.40'') = []"
    "inet_pton4 (discovery_ip (sample_selector ''192.168.1.40'')) = inet_pton4 (radio_host example_radio)"
    by code_simp+
  then show "matches_selector (sample_selector ''192.168.1.40'') example_radio"
    using selector_compares_addresses [of "sample_selector ''192.168.1.40''" example_radio] by blast
  have "inet_pton4 (discovery_ip (sample_selector ''192.168.1.41'')) \<noteq> None"
    "inet_pton4 (discovery_ip (sample_selector ''192.168.1.41'')) \<noteq> inet_pton4 (radio_host example_radio)"
    by code_simp+
  then show "\<not> matches_selector (sample_selector ''192.168.1.41'') example_radio"
    using selector_compares_addresses [of "sample_selector ''192.168.1.41''" example_radio] by blast
qed


end
