(* ===== verification/App_Properties.thy ===== *)
theory App_Properties
  imports App Session_Properties Discovery_Properties
begin

text \<open>
  What the whole program guarantees, from its arguments and its configuration file to its
  exit status, over any number of sessions.
\<close>

subsection \<open>Programs of the daemon\<close>

text \<open>
  An invariant \<open>rest\<close> that holds between sessions and a weaker \<open>run\<close> that holds always, of
  any prefix of a run.
\<close>

definition resting :: "('s \<Rightarrow> bool) \<Rightarrow> ('s \<Rightarrow> bool) \<Rightarrow> ('s, 'a) prog \<Rightarrow> bool" where
  "resting rest run m \<longleftrightarrow> (\<forall>s. rest s \<longrightarrow> wp m (\<lambda>_. rest) run s)"

lemma restingI: "(\<And>s. rest s \<Longrightarrow> wp m (\<lambda>_. rest) run s) \<Longrightarrow> resting rest run m"
  by (simp add: resting_def)

lemma restingD: "resting rest run m \<Longrightarrow> rest s \<Longrightarrow> wp m (\<lambda>_. rest) run s"
  by (simp add: resting_def)

lemma resting_bind: "resting rest run m \<Longrightarrow> (\<And>x. resting rest run (f x)) \<Longrightarrow> resting rest run (bind m f)"
  by (auto simp: resting_def wp_bind intro: wp_mono)

lemma resting_if:
  "(b \<Longrightarrow> resting rest run m) \<Longrightarrow> (\<not> b \<Longrightarrow> resting rest run m') \<Longrightarrow> resting rest run (if b then m else m')"
  by simp

lemma resting_ret: "resting rest run (ret x)"
  by (simp add: resting_def wp_ret)

lemma resting_discovery:
  "resting rest run m \<Longrightarrow> (\<And>radio. resting rest run (f radio)) \<Longrightarrow> resting rest run m' \<Longrightarrow>
    resting rest run (case result of AG_DISCOVERY_STOPPED \<Rightarrow> m | AG_DISCOVERY_MATCHED radio \<Rightarrow> f radio
      | AG_DISCOVERY_ERROR \<Rightarrow> m')"
  by (cases result) simp_all

text \<open>What every program of the daemon between two sessions does: it logs, waits and looks at the stop flag.\<close>

locale between_sessions =
  fixes rest run :: "world \<Rightarrow> bool"
  assumes quiet_ok: "rest s \<Longrightarrow> trace s' = ql @ trace s \<Longrightarrow> list_all quiet ql \<Longrightarrow> rest s'"
    and rest_run: "rest s \<Longrightarrow> run s"
begin

lemma keeps_resting: "keeps rest m \<Longrightarrow> resting rest run m"
  by (auto simp: resting_def dest: keepsD intro: wp_mono rest_run)

lemma cut_resting: "resting rest run cut"
  by (simp add: resting_def wp_cut rest_run)

lemma emit_resting: "quiet e \<Longrightarrow> resting rest run (emit e)"
  by (auto simp: resting_def wp_emit intro: quiet_ok [where ql = "[e]"])

lemma log_resting: "quiet (Log l m) \<Longrightarrow> resting rest run (ag_log l m)"
  unfolding ag_log_def by (rule emit_resting)

lemma sys_resting: "resting rest run (sys f)"
  by (auto simp: resting_def wp_sys intro: quiet_ok [where ql = "[]"])

lemma stop_resting: "resting rest run (read_stop E)"
  by (auto simp: resting_def wp_read_stop intro: quiet_ok [where ql = "[]"])

lemma clock_resting: "resting rest run (monotonic_milliseconds E)"
  by (auto simp: resting_def wp_monotonic intro: quiet_ok [where ql = "[]"])

lemma wait_resting: "resting rest run (ag_discovery_wait E n cfg)"
proof (rule restingI)
  fix s :: world assume s: "rest s"
  have "rest s'" if "discovery_outcome E cfg (trace s) r s'" for r s'
    using that unfolding discovery_outcome_def discovery_failure_def
    by (cases r) (force intro: quiet_ok [OF s, where ql = "[e]" for e] quiet_ok [OF s, where ql = "[e, e']" for e e'])+
  moreover have "rest s'" if "trace s' = trace s" for s' using quiet_ok [OF s, of s' "[]"] that by simp
  ultimately show "wp (ag_discovery_wait E n cfg) (\<lambda>_. rest) run s"
    using discovery_wait_wp [of E n cfg s] by (elim wp_mono) (auto intro: rest_run)
qed

lemmas daemon_rests =
  resting_bind resting_if resting_ret cut_resting log_resting stop_resting clock_resting sys_resting emit_resting

lemma stopped_resting: "resting rest run stopped"
  unfolding stopped_def by (intro daemon_rests) simp

lemma sleep_resting: "resting rest run (sleep_interruptibly E n seconds)"
proof -
  have interval: "resting rest run (sleep_interval E n)" for n
  proof (induction n)
    case (Suc n)
    have "resting rest run (case r of Sys_error e \<Rightarrow>
        if e \<noteq> EINTR then ret () else bind (read_stop E) (\<lambda>stop. if stop then ret () else sleep_interval E n)
      | Sys_ok u \<Rightarrow> emit Slept)" for r :: "unit sysret"
      by (cases r) (auto intro!: daemon_rests Suc.IH)
    then show ?case unfolding sleep_interval.simps by (intro daemon_rests)
  qed (simp add: cut_resting)
  have "resting rest run (sleep_rounds E n k)" for k
    by (induction k) (auto intro!: daemon_rests interval)
  then show ?thesis by (simp add: sleep_interruptibly_def)
qed

lemma discovery_loop_resting:
  assumes "\<And>radio attempt. resting rest run (ag_flex_run_session E n (session_config cfg radio) (opt_observe opts) attempt)"
  shows "resting rest run (discovery_loop E n k cfg opts attempt)"
proof (induction k arbitrary: attempt)
  case (Suc k)
  show ?case unfolding discovery_loop.simps log_discovered_def
    by (intro daemon_rests resting_discovery wait_resting stopped_resting assms Suc.IH) simp_all
qed (auto intro!: daemon_rests stopped_resting)

lemma direct_loop_resting:
  assumes "\<And>attempt. resting rest run (ag_flex_run_session E n cfg (opt_observe opts) attempt)"
  shows "resting rest run (direct_loop E n k cfg opts delay next_log attempt)"
proof (induction k arbitrary: delay next_log attempt)
  case (Suc k)
  show ?case unfolding direct_loop.simps
    by (intro daemon_rests stopped_resting sleep_resting assms Suc.IH) simp_all
qed (auto intro!: daemon_rests stopped_resting)

lemma guard_radio_resting:
  assumes "\<And>radio attempt. resting rest run (ag_flex_run_session E n (session_config cfg radio) (opt_observe opts) attempt)"
    and "\<And>attempt. resting rest run (ag_flex_run_session E n cfg (opt_observe opts) attempt)"
  shows "resting rest run (guard_radio E n opts cfg)"
  unfolding guard_radio_def
  by (intro daemon_rests discovery_loop_resting direct_loop_resting assms) simp_all

end

subsection \<open>Between two sessions no interlock is left\<close>

lemma phase_quiet:
  "list_all quiet ql \<Longrightarrow> phase_of permits protect (ql @ tr) = phase_of permits protect tr"
  by (induction ql) (auto split: option.split)

interpretation unarmed: between_sessions "at_rest cfg obs" "\<lambda>w. phase_in cfg obs w \<noteq> None" for cfg obs
  by unfold_locales (auto simp: at_rest_def phase_in_def phase_quiet)

lemma session_unarmed:
  assumes "antennas cfg' = antennas cfg"
  shows "resting (at_rest cfg obs) (\<lambda>w. phase_in cfg obs w \<noteq> None) (ag_flex_run_session E n cfg' obs attempt)"
proof -
  have "permits_of cfg' = permits_of cfg"
    by (simp add: fun_eq_iff permits_of_def evaluate_antennas_only [OF assms])
  then have "(at_rest cfg obs :: world \<Rightarrow> bool) = at_rest cfg' obs" "(phase_in cfg obs :: world \<Rightarrow> _) = phase_in cfg' obs"
    by (auto simp: at_rest_def phase_in_def)
  then show ?thesis using run_session_wp [of cfg' obs] by (simp add: resting_def)
qed

lemma guard_radio_unarmed:
  "resting (at_rest cfg (opt_observe opts)) (\<lambda>w. phase_in cfg (opt_observe opts) w \<noteq> None) (guard_radio E n opts cfg)"
  by (intro unarmed.guard_radio_resting session_unarmed) (simp_all add: session_config_def)

subsection \<open>The daemon stops when it is told to\<close>

definition ends :: "('a \<Rightarrow> 's \<Rightarrow> bool) \<Rightarrow> ('s, 'a) prog \<Rightarrow> bool" where
  "ends Q m \<longleftrightarrow> (\<forall>s. wp m Q (\<lambda>_. True) s)"

lemma endsD: "ends Q m \<Longrightarrow> wp m Q (\<lambda>_. True) s"
  by (simp add: ends_def)

lemma ends_bind: "(\<And>x. ends Q (f x)) \<Longrightarrow> ends Q (bind m f)"
  by (auto simp: ends_def wp_bind intro: wp_mono [OF wp_True])

lemma ends_if: "(b \<Longrightarrow> ends Q m) \<Longrightarrow> (\<not> b \<Longrightarrow> ends Q m') \<Longrightarrow> ends Q (if b then m else m')"
  by simp

lemma ends_ret: "(\<And>s. Q x s) \<Longrightarrow> ends Q (ret x)"
  by (simp add: ends_def wp_ret)

lemma ends_cut: "ends Q cut"
  by (simp add: ends_def wp_cut)

lemma ends_after:
  assumes "ends R m" and "\<And>x s. R x s \<Longrightarrow> wp (f x) Q (\<lambda>_. True) s"
  shows "ends Q (bind m f)"
  using assms by (auto simp: ends_def wp_bind intro: wp_mono)

text \<open>After a read of the stop flag that was set, it stays set.\<close>

lemma ends_stop:
  assumes "\<And>s. stop_requested s \<Longrightarrow> wp m Q (\<lambda>_. True) s" and "ends Q m'"
  shows "ends Q (bind (read_stop E) (\<lambda>stop. if stop then m else m'))"
  using assms by (auto simp: ends_def wp_bind wp_read_stop)

abbreviation stopped_stops :: "ag_session_result \<Rightarrow> 'w world_scheme \<Rightarrow> bool" where
  "stopped_stops r s \<equiv> r = AG_SESSION_STOPPED \<longrightarrow> stop_requested s"

lemma session_loop_stopped: "ends stopped_stops (session_loop E send n)"
proof (induction n)
  case (Suc n)
  have "ends stopped_stops (case p of (read_result, line) \<Rightarrow>
       if read_result < 0
       then bind (ag_log AG_LOG_WARNING Msg_connection_lost) (\<lambda>_. ret AG_SESSION_DISCONNECTED)
       else if read_result = 0 then session_loop E send n
       else bind (ag_log AG_LOG_DEBUG (Msg_line line)) (\<lambda>_. bind (handle_status send line) (\<lambda>rc.
         if rc \<noteq> 0 then ret AG_SESSION_ERROR else session_loop E send n)))" for p :: "int \<times> string"
    by (cases p) (auto intro!: ends_bind ends_ret Suc.IH)
  then show ?case unfolding session_loop.simps by (intro ends_stop ends_bind) (simp_all add: wp_ret)
qed (auto intro!: ends_stop ends_cut simp: wp_ret)

lemma connected_stopped: "ends stopped_stops (connected_session E n)"
proof -
  have close: "wp (bind (close_session (send_command E n)) (\<lambda>_. ret r)) stopped_stops (\<lambda>_. True) c"
    if "stopped_stops r c" for r c
  proof (cases "r = AG_SESSION_STOPPED")
    case True
    then show ?thesis using that keepsD [OF stopping.close_session_keeps, of c E n]
      by (auto simp: wp_bind wp_ret elim: wp_mono)
  next
    case False
    then show ?thesis by (intro endsD ends_bind ends_ret) simp
  qed
  have stop: "ends stopped_stops (bind (read_stop E) (\<lambda>stop. ret (if stop then AG_SESSION_STOPPED else AG_SESSION_ERROR)))"
    by (simp add: ends_def wp_bind wp_read_stop wp_ret)
  show ?thesis unfolding connected_session_def
    by (rule ends_bind, rule ends_after [where R = stopped_stops]) (intro ends_if stop session_loop_stopped, rule close)
qed

lemma session_stopped: "ends stopped_stops (ag_flex_run_session E n cfg obs attempt)"
proof -
  have stop: "ends stopped_stops (bind (read_stop E) (\<lambda>stop. ret (if stop then AG_SESSION_STOPPED else AG_SESSION_UNAVAILABLE)))"
    by (simp add: ends_def wp_bind wp_read_stop wp_ret)
  have "ends stopped_stops (session_program E n attempt)"
    unfolding session_program_def by (intro ends_bind ends_if stop connected_stopped)
  then show ?thesis
    by (auto simp: ends_def wp_def ag_flex_run_session_def split: prod.splits option.splits)
qed

text \<open>What an exit status says of the world: 0 when stopped, else a failure where one can be.\<close>

definition exit_ok :: "bool \<Rightarrow> int \<Rightarrow> world \<Rightarrow> bool" where
  "exit_ok may_fail status w \<longleftrightarrow>
     (if status = 0 then stop_requested w \<and> (\<exists>tr. trace w = Log AG_LOG_INFO Msg_stopped # tr)
      else may_fail \<and> status = 1)"

lemma stopped_exit: "stop_requested w \<Longrightarrow> wp stopped (exit_ok b) (\<lambda>_. True) w"
  by (simp add: stopped_def wp_rules exit_ok_def)

lemma failed_exit: "ends (exit_ok True) (ret 1)"
  by (simp add: ends_def wp_ret exit_ok_def)

text \<open>What follows a session in either loop.\<close>

lemma after_session:
  assumes "\<And>r. ends (exit_ok b) (g r)"
  shows "ends (exit_ok b) (bind (ag_flex_run_session E n cfg obs attempt) (\<lambda>r. bind (read_stop E) (\<lambda>stop.
    if stop \<or> r = AG_SESSION_STOPPED then stopped else g r)))"
proof (rule ends_after [OF session_stopped])
  fix r and w :: world assume "stopped_stops r w"
  then show "wp (bind (read_stop E) (\<lambda>stop. if stop \<or> r = AG_SESSION_STOPPED then stopped else g r))
      (exit_ok b) (\<lambda>_. True) w"
    using endsD [OF assms] by (auto simp: wp_bind wp_read_stop stop_seen_def intro: stopped_exit)
qed

text \<open>What follows the wait for a radio.\<close>

lemma after_discovery:
  assumes "\<And>radio. ends (exit_ok b) (f radio)" "ends (exit_ok b) m"
  shows "ends (exit_ok b) (bind (ag_discovery_wait E n cfg) (\<lambda>r. case r of
    AG_DISCOVERY_STOPPED \<Rightarrow> stopped | AG_DISCOVERY_MATCHED radio \<Rightarrow> f radio | AG_DISCOVERY_ERROR \<Rightarrow> m))"
proof (rule ends_after [where R = "\<lambda>r w. r = AG_DISCOVERY_STOPPED \<longrightarrow> stop_requested w"])
  show "ends (\<lambda>r w. r = AG_DISCOVERY_STOPPED \<longrightarrow> stop_requested w) (ag_discovery_wait E n cfg)"
    unfolding ends_def by (intro allI wp_mono [OF discovery_wait_wp]) (auto simp: discovery_outcome_def)
  fix r and w :: world assume "r = AG_DISCOVERY_STOPPED \<longrightarrow> stop_requested w"
  then show "wp (case r of AG_DISCOVERY_STOPPED \<Rightarrow> stopped | AG_DISCOVERY_MATCHED radio \<Rightarrow> f radio
      | AG_DISCOVERY_ERROR \<Rightarrow> m) (exit_ok b) (\<lambda>_. True) w"
    using endsD [OF assms(1)] endsD [OF assms(2)] stopped_exit by (cases r) simp_all
qed

lemma discovery_loop_exit: "ends (exit_ok True) (discovery_loop E n k cfg opts attempt)"
proof (induction k arbitrary: attempt)
  case (Suc k)
  show ?case unfolding discovery_loop.simps
    by (rule ends_stop [OF stopped_exit], assumption, rule after_discovery;
      rule ends_stop [OF stopped_exit], assumption)
      (intro ends_bind [of _ _ "if b then m else m'" for b m m'] after_session ends_if failed_exit Suc.IH
        ends_bind [of _ _ "ag_log l m" for l m])+
qed (auto intro!: ends_stop ends_cut stopped_exit)

lemma direct_loop_exit: "ends (exit_ok (once opts)) (direct_loop E n k cfg opts delay next_log attempt)"
proof (induction k arbitrary: delay next_log attempt)
  case (Suc k)
  have once: "once opts \<Longrightarrow> ends (exit_ok (once opts)) (ret 1)" using failed_exit by simp
  show ?case unfolding direct_loop.simps
    by (intro ends_stop stopped_exit, assumption, intro after_session ends_if once Suc.IH)
      (assumption | intro ends_bind Suc.IH)+
qed (auto intro!: ends_stop ends_cut stopped_exit)

lemma guard_radio_exit:
  "ends (exit_ok (once opts \<or> radio_mode cfg = AG_RADIO_DISCOVERY)) (guard_radio E n opts cfg)"
proof (cases "radio_mode cfg = AG_RADIO_DISCOVERY")
  case True
  then show ?thesis by (auto simp: guard_radio_def intro: ends_bind discovery_loop_exit)
next
  case False
  then show ?thesis using direct_loop_exit by (auto simp: guard_radio_def intro!: ends_bind)
qed

subsection \<open>Options\<close>

text \<open>What is printed before the daemon starts.\<close>

fun printed :: "event \<Rightarrow> bool" where
  "printed (Stdout s) = True"
| "printed (Stderr s) = True"
| "printed e = False"

text \<open>One argument, by what it does to the two options that change what the program may do.\<close>

lemma parse_options_step:
  obtains (config) path rest where "arg = ''-c'' \<or> arg = ''--config''" "args = path # rest"
      "parse_options version (arg # args) opts = parse_options version rest (opts\<lparr>config_path := path\<rparr>)"
  | (check) "arg = ''--check-config''"
      "parse_options version (arg # args) opts = parse_options version args (opts\<lparr>check_config := True\<rparr>)"
  | (observe) "arg = ''--observe''"
      "parse_options version (arg # args) opts = parse_options version args (opts\<lparr>opt_observe := True\<rparr>)"
  | (other) opts' where "arg \<noteq> ''--check-config''" "arg \<noteq> ''--observe''"
      "check_config opts' = check_config opts" "opt_observe opts' = opt_observe opts"
      "parse_options version (arg # args) opts = parse_options version args opts'"
  | (printing) out status where "parse_options version (arg # args) opts = Inl (out, status)"
      "list_all printed out" "status = 0 \<or> status = 2"
proof -
  consider (a) "(arg = ''-c'' \<or> arg = ''--config'') \<and> args \<noteq> []" | (b) "arg = ''--check-config''"
    | (c) "arg = ''--observe''" | (d) "arg = ''--once''" | (e) "arg = ''-v'' \<or> arg = ''--verbose''"
    | (f) "arg = ''--version''" | (g) "arg = ''-h'' \<or> arg = ''--help''"
    | (h) "\<not> ((arg = ''-c'' \<or> arg = ''--config'') \<and> args \<noteq> [])" "arg \<noteq> ''--check-config''" "arg \<noteq> ''--observe''"
      "arg \<noteq> ''--once''" "\<not> (arg = ''-v'' \<or> arg = ''--verbose'')" "arg \<noteq> ''--version''"
      "\<not> (arg = ''-h'' \<or> arg = ''--help'')" by (atomize_elim, satx)
  then show thesis
  proof cases
    case a
    then obtain path rest where "args = path # rest" by (cases args) auto
    with a show thesis by (intro config) simp_all
  next
    case b
    then show thesis by (intro check) simp_all
  next
    case c
    then show thesis by (intro observe) simp_all
  next
    case d
    then show thesis by (intro other [of "opts\<lparr>once := True\<rparr>"]) simp_all
  next
    case e
    then show thesis by (elim disjE) (intro other [of "opts\<lparr>verbose := True\<rparr>"]; simp)+
  next
    case f
    show thesis by (rule printing, simp add: f, simp, simp)
  next
    case g
    then show thesis by (elim disjE) (rule printing, simp, simp, simp)+
  next
    case h
    have "parse_options version (arg # args) opts
        = Inl ([Stderr (''Unknown or incomplete option: '' @ arg @ newline), Stderr print_usage], 2)"
      by (simp only: parse_options.simps h if_False)
    then show thesis by (rule printing) simp_all
  qed
qed

declare parse_options.simps(2) [simp del]

lemma parse_options_keeps:
  "parse_options version args opts = Inr opts' \<Longrightarrow>
    (check_config opts \<longrightarrow> check_config opts') \<and> (opt_observe opts \<longrightarrow> opt_observe opts')"
proof (induction "length args" arbitrary: args opts rule: less_induct)
  case less
  show ?case
  proof (cases args)
    case Nil
    then show ?thesis using less.prems by simp
  next
    case (Cons arg rest)
    show ?thesis
      by (rule parse_options_step [of arg rest version opts])
        (use less Cons in \<open>force+\<close>)
  qed
qed

lemma parse_options_sets:
  assumes "parse_options version args opts = Inr opts'" and "''-c'' \<notin> set args" "''--config'' \<notin> set args"
  shows "(''--check-config'' \<in> set args \<longrightarrow> check_config opts') \<and> (''--observe'' \<in> set args \<longrightarrow> opt_observe opts')"
  using assms
proof (induction args arbitrary: opts)
  case (Cons arg args)
  then have plain: "\<not> (arg = ''-c'' \<or> arg = ''--config'')" "''-c'' \<notin> set args" "''--config'' \<notin> set args" by auto
  have "parse_options version args o' = Inr opts' \<Longrightarrow>
      (''--check-config'' \<in> set args \<or> check_config o' \<longrightarrow> check_config opts')
        \<and> (''--observe'' \<in> set args \<or> opt_observe o' \<longrightarrow> opt_observe opts')" for o'
    using Cons.IH [of o'] plain parse_options_keeps [of version args o' opts'] by blast
  note rest = this
  show ?case
  proof (rule parse_options_step [of arg args version opts])
    assume "arg = ''--check-config''"
      "parse_options version (arg # args) opts = parse_options version args (opts\<lparr>check_config := True\<rparr>)"
    then show ?case using rest [of "opts\<lparr>check_config := True\<rparr>"] Cons.prems(1) by simp
  next
    assume "arg = ''--observe''"
      "parse_options version (arg # args) opts = parse_options version args (opts\<lparr>opt_observe := True\<rparr>)"
    then show ?case using rest [of "opts\<lparr>opt_observe := True\<rparr>"] Cons.prems(1) by simp
  next
    fix o' assume "arg \<noteq> ''--check-config''" "arg \<noteq> ''--observe''"
      "parse_options version (arg # args) opts = parse_options version args o'"
    then show ?case using rest [of o'] Cons.prems(1) by (simp only: set_simps insert_iff) blast
  qed (use plain Cons.prems(1) in auto)
qed simp

lemma parse_options_output:
  "parse_options version args opts = Inl (out, status) \<Longrightarrow> list_all printed out \<and> (status = 0 \<or> status = 2)"
proof (induction "length args" arbitrary: args opts rule: less_induct)
  case less
  show ?case
  proof (cases args)
    case Nil
    then show ?thesis using less.prems by simp
  next
    case (Cons arg rest)
    show ?thesis
      by (rule parse_options_step [of arg rest version opts])
        (use less Cons in \<open>force+\<close>)
  qed
qed

lemma emit_all_eq: "emit_all es w = (Some (), w\<lparr>trace := rev es @ trace w\<rparr>)"
  by (induction es arbitrary: w) (simp_all add: ret_def bind_def emit_def modify_def)

text \<open>The options and the configuration that the daemon runs with, if it comes to run.\<close>

definition runs_with :: "string \<Rightarrow> (string \<Rightarrow> file_io) \<Rightarrow> string list \<Rightarrow> (options \<times> ag_config) option" where
  "runs_with version files args =
     (case parse_options version args default_options of
        Inl _ \<Rightarrow> None
      | Inr opts \<Rightarrow>
          (case load_config (config_path opts) (files (config_path opts)) of
             Inl _ \<Rightarrow> None
           | Inr cfg \<Rightarrow> if check_config opts then None else Some (opts, cfg)))"

lemma main_runs: "runs_with version files args = Some (opts, cfg) \<Longrightarrow> main E n version files args = guard_radio E n opts cfg"
  by (auto simp: runs_with_def main_def split: sum.splits prod.splits if_splits)

lemma main_prints:
  assumes "runs_with version files args = None"
  shows "\<exists>status text_out. main E n version files args w = (Some status, w\<lparr>trace := text_out @ trace w\<rparr>)
    \<and> list_all printed text_out \<and> (status = 0 \<or> status = 2)"
proof (cases "parse_options version args default_options")
  case (Inl r)
  obtain text_out status where r: "r = (text_out, status)" by (cases r)
  then have "main E n version files args w = (Some status, w\<lparr>trace := rev text_out @ trace w\<rparr>)"
    by (simp add: main_def Inl bind_def emit_all_eq ret_def)
  then show ?thesis using parse_options_output Inl r by (metis list_all_rev)
next
  case (Inr opts)
  have print: "bind (emit e) (\<lambda>_. ret st) w = (Some st, w\<lparr>trace := [e] @ trace w\<rparr>)" for e and st :: int
    by (simp add: bind_def emit_def modify_def ret_def)
  show ?thesis
  proof (cases "load_config (config_path opts) (files (config_path opts))")
    case (Inl e)
    then show ?thesis by (simp only: main_def Inr sum.case print) (intro exI conjI, rule refl, simp_all)
  next
    case (Inr cfg)
    then have "check_config opts" using assms \<open>parse_options version args default_options = Inr opts\<close>
      by (simp add: runs_with_def split: if_splits)
    then show ?thesis using Inr \<open>parse_options version args default_options = Inr opts\<close>
      by (simp only: main_def sum.case if_True print) (intro exI conjI, rule refl, simp_all)
  qed
qed

lemma runs_with_observe:
  assumes "runs_with version files args = Some (opts, cfg)" "''--observe'' \<in> set args" "''-c'' \<notin> set args" "''--config'' \<notin> set args"
  shows "opt_observe opts"
  using assms(1) parse_options_sets [OF _ assms(3,4)] assms(2)
  by (auto simp: runs_with_def split: sum.splits if_splits)

lemma check_never_runs:
  assumes "''--check-config'' \<in> set args" "''-c'' \<notin> set args" "''--config'' \<notin> set args"
  shows "runs_with version files args = None"
  using parse_options_sets [OF _ assms(2,3)] assms(1)
  by (auto simp: runs_with_def split: sum.splits)

lemma main_accepted:
  assumes "runs_with version files args = Some (opts, cfg)"
  shows "accepts (permits_of cfg) (\<not> opt_observe opts) (trace (snd (main E n version files args start_world)))"
  using restingD [OF guard_radio_unarmed start_at_rest, of E n opts cfg] main_runs [OF assms]
  by (auto simp: wp_def accepts_def at_rest_def phase_in_def split: prod.splits option.splits)

subsection \<open>Sleeping\<close>

definition sleep_failed :: "env \<Rightarrow> bool" where
  "sleep_failed E \<longleftrightarrow> (\<exists>t e. env_nanosleep E t = Sys_error e \<and> e \<noteq> EINTR)"

lemma sleep_interval_wp:
  "wp (sleep_interval E n) (\<lambda>_ w'. (stop_requested w \<longrightarrow> stop_requested w')
      \<and> (trace w' = Slept # trace w \<or> trace w' = trace w \<and> (stop_requested w' \<or> sleep_failed E)))
    (\<lambda>w'. trace w' = trace w) w"
proof (induction n arbitrary: w)
  case (Suc n)
  show ?case
    using Suc.IH [of "w\<lparr>tick := Suc (Suc (tick w)), stop_requested := False\<rparr>"]
    by (auto simp: wp_rules stop_seen_def sleep_failed_def split: sysret.split)
qed (simp add: wp_rules)

lemma sleep_rounds_wp:
  "wp (sleep_rounds E n k) (\<lambda>_ w'. (stop_requested w \<longrightarrow> stop_requested w')
      \<and> (\<exists>j \<le> k. trace w' = replicate j Slept @ trace w \<and> (j = k \<or> stop_requested w' \<or> sleep_failed E)))
    (\<lambda>w'. \<exists>j \<le> k. trace w' = replicate j Slept @ trace w) w"
proof (induction k arbitrary: w)
  case (Suc k)
  let ?Q = "\<lambda>_ w'. (stop_requested w \<longrightarrow> stop_requested w') \<and>
      (\<exists>j \<le> Suc k. trace w' = replicate j Slept @ trace w \<and> (j = Suc k \<or> stop_requested w' \<or> sleep_failed E))"
  let ?C = "\<lambda>w'. \<exists>j \<le> Suc k. trace w' = replicate j Slept @ trace w"
  let ?w = "w\<lparr>tick := Suc (tick w)\<rparr>"
  have rest: "wp (sleep_rounds E n k) ?Q ?C w'"
    if "stop_requested w \<longrightarrow> stop_requested w'"
      "trace w' = Slept # trace w \<or> trace w' = trace w \<and> (stop_requested w' \<or> sleep_failed E)" for w' :: "'a world_scheme"
    using that(2)
  proof
    assume *: "trace w' = Slept # trace w"
    have move: "replicate j Slept @ Slept # trace w = replicate (Suc j) Slept @ trace w" for j
      by (simp add: replicate_app_Cons_same)
    show ?thesis
      by (rule wp_mono [OF Suc.IH [of w']]) (use that(1) in \<open>auto simp: * move simp del: replicate_Suc\<close>)
  next
    assume *: "trace w' = trace w \<and> (stop_requested w' \<or> sleep_failed E)"
    show ?thesis
      by (rule wp_mono [OF Suc.IH [of w']]) (use that(1) * in \<open>auto intro: le_SucI\<close>)
  qed
  show ?case
  proof (cases "stop_seen E w")
    case True
    then show ?thesis by (auto simp: wp_rules)
  next
    case False
    have "wp (sleep_interval E n) (\<lambda>_. wp (sleep_rounds E n k) ?Q ?C) ?C (?w\<lparr>stop_requested := False\<rparr>)"
      by (rule wp_mono [OF sleep_interval_wp], rule rest)
        (use False in \<open>auto simp: stop_seen_def intro: exI [of _ 0]\<close>)
    then show ?thesis using False by (simp add: wp_rules)
  qed
qed (auto simp: wp_rules)

lemma sleep_interruptibly_wp:
  "wp (sleep_interruptibly E n seconds) (\<lambda>_ w'. \<exists>j \<le> 5 * unat seconds.
      trace w' = replicate j Slept @ trace w
        \<and> (j = 5 * unat seconds \<or> stop_requested w' \<or> sleep_failed E \<or> 2 ^ 32 \<le> 5 * unat seconds))
    (\<lambda>w'. \<exists>j \<le> 5 * unat seconds. trace w' = replicate j Slept @ trace w) w"
proof -
  have u: "unat (seconds * 5) = 5 * unat seconds mod 2 ^ 32"
    by (simp add: unat_word_ariths mult.commute)
  then have le: "unat (seconds * 5) \<le> 5 * unat seconds" and
    eq: "unat (seconds * 5) = 5 * unat seconds \<or> 2 ^ 32 \<le> 5 * unat seconds"
    by (simp_all only: mod_less_eq_dividend) (metis mod_less not_le)
  show ?thesis unfolding sleep_interruptibly_def
    by (rule wp_mono [OF sleep_rounds_wp]) (use le eq in \<open>force\<close>)+
qed

subsection \<open>A radio that is not there\<close>

text \<open>The name of the radio never resolves, nothing interrupts the daemon, and sleeping succeeds.\<close>

definition unreachable :: "env \<Rightarrow> bool" where
  "unreachable E \<longleftrightarrow> (\<forall>t. \<exists>e. env_getaddrinfo E t = Sys_error e) \<and> (\<forall>t. \<not> env_signal E t)
     \<and> (\<forall>t. env_nanosleep E t = Sys_ok ())"

definition slept :: "'w world_scheme \<Rightarrow> nat" where
  "slept w = count_list (trace w) Slept"

lemma slept_simps [simp]:
  "slept (w\<lparr>tick := t\<rparr>) = slept w" "slept (w\<lparr>stop_requested := b\<rparr>) = slept w"
  "slept (w\<lparr>trace := Log l m # tr\<rparr>) = slept (w\<lparr>trace := tr\<rparr>)" "slept (w\<lparr>trace := trace w\<rparr>) = slept w"
  by (simp_all add: slept_def)

lemma unreachable_session:
  assumes "unreachable E" "\<not> stop_requested w"
  shows "wp (ag_flex_run_session E n cfg obs attempt)
    (\<lambda>r w'. r = AG_SESSION_UNAVAILABLE \<and> \<not> stop_requested w' \<and> slept w' = slept w) (\<lambda>_. False) w"
proof -
  have "wp (session_program E n attempt)
      (\<lambda>r c. r = AG_SESSION_UNAVAILABLE \<and> \<not> stop_requested c \<and> slept c = slept w) (\<lambda>_. False) (new_connection cfg obs w)"
    using assms
    by (auto simp: session_program_def connect_socket_def unreachable_def wp_rules stop_seen_def new_connection_def
        slept_def SOCKET_NONE_def split: sysret.split) (metis sysret.distinct(1))+
  then show ?thesis
    by (auto simp: wp_def ag_flex_run_session_def slept_def split: prod.splits option.splits)
qed

lemma unreachable_sleep:
  assumes "unreachable E" "0 < n" "\<not> stop_requested w" "5 * unat seconds < 2 ^ 32"
  shows "wp (sleep_interruptibly E n seconds) (\<lambda>_ w'. \<not> stop_requested w' \<and> slept w' = slept w + 5 * unat seconds)
    (\<lambda>_. False) w"
proof -
  obtain m where n: "n = Suc m" using assms(2) by (cases n) auto
  have "wp (sleep_rounds E n k) (\<lambda>_ w'. \<not> stop_requested w' \<and> slept w' = slept w + k) (\<lambda>_. False) w"
    if "\<not> stop_requested w" for k and w :: "'a world_scheme"
    using that
  proof (induction k arbitrary: w)
    case (Suc k)
    let ?w = "w\<lparr>stop_requested := False, tick := Suc (Suc (tick w)), trace := Slept # trace w\<rparr>"
    have "wp (sleep_rounds E n k) (\<lambda>_ w'. \<not> stop_requested w' \<and> slept w' = slept w + Suc k) (\<lambda>_. False)
        ?w"
      using Suc.IH [of ?w]
      by (simp add: slept_def)
    then show ?case using Suc.prems assms(1) by (simp add: n wp_rules stop_seen_def unreachable_def)
  qed (simp add: wp_rules)
  moreover have "unat (seconds * 5) = 5 * unat seconds"
    using assms(4) by (simp add: unat_word_ariths mult.commute)
  ultimately show ?thesis using assms(3) by (simp add: sleep_interruptibly_def)
qed

lemma unreachable_loop:
  assumes "unreachable E" "0 < n" "\<not> once opts" "5 * unat (reconnect_max_seconds cfg) < 2 ^ 32"
    and "\<not> stop_requested w" "unat delay \<le> unat (reconnect_max_seconds cfg)"
  shows "wp (direct_loop E n k cfg opts delay next_log attempt) (\<lambda>_ _. False)
    (\<lambda>w'. slept w' = slept w + 5 * sum_list (map unat (retry_delays k delay (reconnect_max_seconds cfg)))) w"
  using assms(5,6)
proof (induction k arbitrary: w delay next_log attempt)
  case 0
  then show ?case using assms(1) by (simp add: wp_rules stop_seen_def unreachable_def slept_def)
next
  case (Suc k)
  let ?next = "ag_retry_next_delay delay (reconnect_max_seconds cfg)"
  let ?C = "\<lambda>w' :: world. slept w' = slept w + 5 * sum_list (map unat (retry_delays (Suc k) delay (reconnect_max_seconds cfg)))"
  have no_signal: "\<not> env_signal E t" for t using assms(1) by (simp add: unreachable_def)
  have rest: "wp (direct_loop E n k cfg opts ?next l a) (\<lambda>_ _. False) ?C w'"
    if "\<not> stop_requested w'" "slept w' = slept w + 5 * unat delay" for w' :: world and l a
    by (rule wp_mono [OF Suc.IH [of w' ?next]]) (use that in \<open>simp_all add: next_delay_unat\<close>)
  have sleep: "wp (sleep_interruptibly E n delay) (\<lambda>_. wp (bind (monotonic_milliseconds E)
        (\<lambda>now. direct_loop E n k cfg opts ?next (f now) (g now))) (\<lambda>_ _. False) ?C) ?C w'"
    if "\<not> stop_requested w'" "slept w' = slept w" for w' :: world and f g
  proof (rule wp_mono [OF unreachable_sleep [OF assms(1,2) that(1)]])
    show "5 * unat delay < 2 ^ 32" using assms(4) Suc.prems(2) by simp
    fix u :: unit and w'' :: world assume "\<not> stop_requested w'' \<and> slept w'' = slept w' + 5 * unat delay"
    then show "wp (bind (monotonic_milliseconds E) (\<lambda>now. direct_loop E n k cfg opts ?next (f now) (g now)))
        (\<lambda>_ _. False) ?C w''"
      using rest that(2) by (simp add: wp_rules)
  qed simp
  have after: "wp (bind (if attempt
               then bind (ag_log AG_LOG_WARNING (Msg_unavailable delay (reconnect_log_seconds cfg))) (\<lambda>_.
                    bind (monotonic_milliseconds E) (\<lambda>now.
                      ret (now + int (unat (reconnect_log_seconds cfg)) * 1000)))
               else ret next_log) (\<lambda>next_log.
         bind (sleep_interruptibly E n delay) (\<lambda>_.
         bind (monotonic_milliseconds E) (\<lambda>now.
           direct_loop E n k cfg opts ?next next_log (next_log \<le> now))))) (\<lambda>_ _. False) ?C w'"
    if "\<not> stop_requested w'" "slept w' = slept w" for w' :: world
    using that sleep [of _ "\<lambda>_. l" "\<lambda>now. l \<le> now" for l]
    by (auto simp: wp_bind [of "if b then m else m'" for b m m'] wp_bind [of "sleep_interruptibly E n delay"]
        wp_bind [of "ag_log l m" for l m] wp_bind [of "bind m f" for m f] wp_bind [of "ret x" for x] wp_if wp_ret
        wp_ag_log wp_bind [of "monotonic_milliseconds E" "\<lambda>now. ret (f now)" for f] wp_monotonic)
  have session: "wp (ag_flex_run_session E n cfg (opt_observe opts) attempt)
      (\<lambda>r. wp (bind (read_stop E) (\<lambda>stop. if stop \<or> r = AG_SESSION_STOPPED then stopped
        else if once opts then ret 1 else if r = AG_SESSION_UNAVAILABLE then M else M')) (\<lambda>_ _. False) C) C w'"
    if "\<not> stop_requested w'" "slept w' = slept w"
      and M: "\<And>w'. \<not> stop_requested w' \<Longrightarrow> slept w' = slept w \<Longrightarrow> wp M (\<lambda>_ _. False) C w'" for w' M M' and C :: "world \<Rightarrow> bool"
    by (rule wp_mono [OF unreachable_session [OF assms(1) that(1)]])
      (use assms(3) no_signal that(2) in \<open>auto simp: wp_bind wp_read_stop stop_seen_def intro!: M\<close>)
  show ?case
    using Suc.prems(1) session [where C = ?C, OF _ _ after] no_signal
    by (simp add: wp_bind [of "read_stop E"] wp_bind [of "ag_flex_run_session E n c b a" for c b a] wp_read_stop
      stop_seen_def)
qed

subsection \<open>Sample runs\<close>

definition unreachable_env :: env where
  "unreachable_env = silent_env\<lparr>env_getaddrinfo := (\<lambda>t. Sys_error (EOTHER 2))\<rparr>"

lemma test_config_valid: "config_valid test_config"
proof -
  have "radio_valid test_config" "valid_antenna_id ''ANT1''" "ids_distinct [''ANT1'']" by code_simp+
  then show ?thesis
    by (auto simp: config_valid_def antennas_valid_def test_config_def bit_1_iff AG_MAX_ANTENNAS_def ag_band_count_def)
qed

lemma sample_runs:
  "runs_with ''1'' (\<lambda>_. file_of sample_text) [''-c'', ''c.json''] = Some (default_options\<lparr>config_path := ''c.json''\<rparr>, sample_config)"
  by (simp add: runs_with_def parse_options.simps(2) sample_loads default_options_def)

subsection \<open>Properties\<close>

text \<open>
  C1. No unlisted transmission is ever enabled by the program: whatever its arguments, its
  configuration file, the radio, the network and the signals, and over all the sessions of a run,
  each \<^verbatim>\<open>interlock ready\<close> command is issued at a point where the frequency and antenna last reported
  are allowed by the configuration it loaded; a program that does not come to guard a radio only
  prints.
\<close>

theorem program_releases_only_when_allowed:
  "case runs_with version files args of
     None \<Rightarrow> list_all printed (trace (snd (main E n version files args start_world)))
   | Some (opts, cfg) \<Rightarrow> released_when_allowed cfg (trace (snd (main E n version files args start_world)))"
proof (cases "runs_with version files args")
  case None
  then show ?thesis using main_prints [OF None, of E n start_world] by (auto simp: start_world_def)
next
  case (Some r)
  then show ?thesis by (cases r) (simp add: accepts_released [OF main_accepted])
qed








text \<open>
  With \<^verbatim>\<open>--once\<close> each loop runs at most one session: no bound on its iterations above one changes it.
\<close>

lemma once_runs_one_session:
  assumes "once opts" "0 < k"
  shows "direct_loop E n k cfg opts delay next_log attempt = direct_loop E n 1 cfg opts delay next_log attempt
    \<and> discovery_loop E n k cfg opts attempt = discovery_loop E n 1 cfg opts attempt"
proof
  obtain j where k: "k = Suc j" using assms(2) by (cases k) auto
  show "direct_loop E n k cfg opts delay next_log attempt = direct_loop E n 1 cfg opts delay next_log attempt"
    unfolding k One_nat_def direct_loop.simps using assms(1) by (simp only: if_True)
  show "discovery_loop E n k cfg opts attempt = discovery_loop E n 1 cfg opts attempt"
    unfolding k One_nat_def discovery_loop.simps using assms(1) by (simp only: if_True)
qed





end
