(* ===== verification/Fuel.thy ===== *)
theory Fuel
  imports App_Properties
begin

text \<open>
  The fuel of the model is no part of what it says: a run that returns does so with any more
  fuel, and a run that is cut off has made as many system calls as it had fuel. Two relations
  on programs with a rule per construct show it for every loop of the program.
\<close>

subsection \<open>More fuel, the same result\<close>

text \<open>Wherever \<open>m\<close> returns, \<open>m'\<close> returns the same.\<close>

definition agrees :: "('s, 'a) prog \<Rightarrow> ('s, 'a) prog \<Rightarrow> bool" where
  "agrees m m' \<longleftrightarrow> (\<forall>s x t. m s = (Some x, t) \<longrightarrow> m' s = (Some x, t))"

lemma agreesD: "agrees m m' \<Longrightarrow> m s = (Some x, t) \<Longrightarrow> m' s = (Some x, t)"
  by (simp add: agrees_def)

lemma agrees_refl: "agrees m m"
  by (simp add: agrees_def)

lemma agrees_cut: "agrees cut m"
  by (simp add: agrees_def cut_def)

lemma agrees_bind:
  assumes "agrees m m'" and "\<And>x. agrees (f x) (f' x)"
  shows "agrees (bind m f) (bind m' f')"
  unfolding agrees_def
proof (intro allI impI)
  fix s y t assume "bind m f s = (Some y, t)"
  then obtain x s' where "m s = (Some x, s')" "f x s' = (Some y, t)"
    by (auto simp: bind_def split: prod.splits option.splits)
  then show "bind m' f' s = (Some y, t)"
    using agreesD [OF assms(1)] agreesD [OF assms(2)] by (simp add: bind_def)
qed

lemma agrees_if:
  "(b \<Longrightarrow> agrees m1 m1') \<Longrightarrow> (\<not> b \<Longrightarrow> agrees m2 m2') \<Longrightarrow> agrees (if b then m1 else m2) (if b then m1' else m2')"
  by simp

lemma agrees_option:
  "agrees m m' \<Longrightarrow> (\<And>x. agrees (f x) (f' x)) \<Longrightarrow>
    agrees (case v of None \<Rightarrow> m | Some x \<Rightarrow> f x) (case v of None \<Rightarrow> m' | Some x \<Rightarrow> f' x)"
  by (cases v) simp_all

lemma agrees_prod:
  "(\<And>x y. agrees (f x y) (f' x y)) \<Longrightarrow> agrees (case p of (x, y) \<Rightarrow> f x y) (case p of (x, y) \<Rightarrow> f' x y)"
  by (cases p) simp

lemma agrees_sysret:
  "(\<And>e. agrees (f e) (f' e)) \<Longrightarrow> (\<And>x. agrees (g x) (g' x)) \<Longrightarrow>
    agrees (case r of Sys_error e \<Rightarrow> f e | Sys_ok x \<Rightarrow> g x) (case r of Sys_error e \<Rightarrow> f' e | Sys_ok x \<Rightarrow> g' x)"
  by (cases r) simp_all

lemma agrees_poll:
  "(\<And>e. agrees (f e) (f' e)) \<Longrightarrow> agrees m m' \<Longrightarrow> (\<And>ev. agrees (g ev) (g' ev)) \<Longrightarrow>
    agrees (case r of Poll_error e \<Rightarrow> f e | Poll_timeout \<Rightarrow> m | Poll_ready ev \<Rightarrow> g ev)
      (case r of Poll_error e \<Rightarrow> f' e | Poll_timeout \<Rightarrow> m' | Poll_ready ev \<Rightarrow> g' ev)"
  by (cases r) simp_all

lemma agrees_discovery:
  "agrees m m' \<Longrightarrow> (\<And>radio. agrees (f radio) (f' radio)) \<Longrightarrow>
    agrees (case r of AG_DISCOVERY_STOPPED \<Rightarrow> m | AG_DISCOVERY_MATCHED radio \<Rightarrow> f radio | AG_DISCOVERY_ERROR \<Rightarrow> m2)
      (case r of AG_DISCOVERY_STOPPED \<Rightarrow> m' | AG_DISCOVERY_MATCHED radio \<Rightarrow> f' radio | AG_DISCOVERY_ERROR \<Rightarrow> m2)"
  by (cases r) (simp_all add: agrees_refl)

lemma agrees_case_list:
  "agrees m m' \<Longrightarrow> (\<And>x xs. agrees (f x xs) (f' x xs)) \<Longrightarrow>
    agrees (case v of [] \<Rightarrow> m | x # xs \<Rightarrow> f x xs) (case v of [] \<Rightarrow> m' | x # xs \<Rightarrow> f' x xs)"
  by (cases v) simp_all

lemmas agrees_rules =
  agrees_bind agrees_if agrees_option agrees_prod agrees_sysret agrees_poll agrees_discovery agrees_case_list
  agrees_refl agrees_cut

lemma send_all_agrees: "n \<le> m \<Longrightarrow> agrees (send_all E n data) (send_all E m data)"
proof (induction n arbitrary: m data)
  case 0
  show ?case by (cases m) (auto intro: agrees_rules)
next
  case (Suc n)
  then obtain k where "m = Suc k" "n \<le> k" by (cases m) auto
  then show ?case by (simp only: send_all.simps Let_def) (intro agrees_rules Suc.IH)
qed

lemma poll_agrees: "n \<le> m \<Longrightarrow> agrees (poll_and_receive E n len) (poll_and_receive E m len)"
proof (induction n arbitrary: m)
  case (Suc n)
  then obtain k where "m = Suc k" "n \<le> k" by (cases m) auto
  then show ?case by (simp only: poll_and_receive.simps) (intro agrees_rules Suc.IH)
qed (simp add: agrees_cut)

lemma read_line_agrees: "n \<le> m \<Longrightarrow> agrees (read_line E n len) (read_line E m len)"
  unfolding read_line_def by (intro agrees_rules poll_agrees)

text \<open>The functions between one command and the next, for two ways to send commands.\<close>

locale agreeing_sends =
  fixes send send' :: send
  assumes send_agrees: "agrees (send command len cleanup) (send' command len cleanup)"
begin

lemma set_interlock_agrees: "agrees (set_interlock send b) (set_interlock send' b)"
  unfolding set_interlock_def by (intro agrees_rules send_agrees)

lemma handle_status_agrees: "agrees (handle_status send line) (handle_status send' line)"
  unfolding handle_status_def handle_transmit_def handle_interlock_def
  by (intro agrees_rules set_interlock_agrees)

lemma await_agrees:
  "n \<le> m \<Longrightarrow> agrees (await_response E send n command len cleanup q deadline)
    (await_response E send' m command len cleanup q deadline)"
proof (induction n arbitrary: m)
  case (Suc n)
  then obtain k where "m = Suc k" "n \<le> k" by (cases m) auto
  then show ?case
    by (simp only: await_response.simps) (intro agrees_rules read_line_agrees handle_status_agrees Suc.IH)
qed (simp add: agrees_cut)

lemma once_agrees:
  "n \<le> m \<Longrightarrow> agrees (send_command_once E send n command len cleanup) (send_command_once E send' m command len cleanup)"
  unfolding send_command_once_def by (intro agrees_rules send_all_agrees await_agrees)

lemma drain_agrees: "n \<le> m \<Longrightarrow> agrees (drain_interlock E send n) (drain_interlock E send' m)"
proof (induction n arbitrary: m)
  case 0
  show ?case by (cases m) (simp_all only: drain_interlock.simps, (intro agrees_rules)+)
next
  case (Suc n)
  then obtain k where "m = Suc k" "n \<le> k" by (cases m) auto
  then show ?case by (simp only: drain_interlock.simps) (intro agrees_rules once_agrees Suc.IH)
qed

lemma send_commands_agrees: "agrees (send_commands send cs) (send_commands send' cs)"
  by (induction cs) (auto intro!: agrees_rules send_agrees)

lemma initialize_agrees: "agrees (initialize_session send) (initialize_session send')"
  unfolding initialize_session_def arm_interlock_def Let_def
  by (intro agrees_rules send_commands_agrees send_agrees set_interlock_agrees)

lemma session_loop_agrees: "n \<le> m \<Longrightarrow> agrees (session_loop E send n) (session_loop E send' m)"
proof (induction n arbitrary: m)
  case 0
  show ?case by (cases m) (simp_all only: session_loop.simps, (intro agrees_rules)+)
next
  case (Suc n)
  then obtain k where "m = Suc k" "n \<le> k" by (cases m) auto
  then show ?case
    by (simp only: session_loop.simps) (intro agrees_rules read_line_agrees handle_status_agrees Suc.IH)
qed

lemma close_agrees: "agrees (close_session send) (close_session send')"
  unfolding close_session_def remove_interlock_def by (intro agrees_rules send_agrees)

end

lemma send_command_agrees: "n \<le> m \<Longrightarrow> agreeing_sends (send_command E n) (send_command E m)"
proof (induction n arbitrary: m)
  case (Suc n)
  then obtain k where k: "m = Suc k" "n \<le> k" by (cases m) auto
  note sends = Suc.IH [OF k(2)]
  show ?case unfolding agreeing_sends_def k send_command.simps
    by (intro allI agrees_rules agreeing_sends.once_agrees [OF sends] agreeing_sends.drain_agrees [OF sends] k(2))
qed (simp add: agreeing_sends_def agrees_cut)

interpretation more_fuel: agreeing_sends "send_command E n" "send_command E (n + k)" for E n k
  by (rule send_command_agrees) simp

lemma session_agrees: "agrees (ag_flex_run_session E n cfg obs attempt) (ag_flex_run_session E (n + k) cfg obs attempt)"
proof -
  have "agrees (session_program E n attempt) (session_program E (n + k) attempt)"
    unfolding session_program_def connected_session_def
    by (intro agrees_rules more_fuel.initialize_agrees more_fuel.session_loop_agrees more_fuel.close_agrees) simp
  then show ?thesis
    by (auto simp: agrees_def ag_flex_run_session_def split: prod.splits)
qed

lemma session_agrees_le:
  "n \<le> m \<Longrightarrow> agrees (ag_flex_run_session E n cfg obs attempt) (ag_flex_run_session E m cfg obs attempt)"
  using session_agrees [of E n cfg obs attempt "m - n"] by simp

lemma discovery_poll_agrees: "n \<le> m \<Longrightarrow> agrees (discovery_poll E n cfg fd) (discovery_poll E m cfg fd)"
proof (induction n arbitrary: m)
  case 0
  show ?case by (cases m) (simp_all only: discovery_poll.simps, (intro agrees_rules)+)
next
  case (Suc n)
  then obtain k where "m = Suc k" "n \<le> k" by (cases m) auto
  then show ?case by (simp only: discovery_poll.simps) (intro agrees_rules Suc.IH)
qed

lemma discovery_wait_agrees: "n \<le> m \<Longrightarrow> agrees (ag_discovery_wait E n cfg) (ag_discovery_wait E m cfg)"
  unfolding ag_discovery_wait_def by (intro agrees_rules discovery_poll_agrees)

lemma sleep_interval_agrees: "n \<le> m \<Longrightarrow> agrees (sleep_interval E n) (sleep_interval E m)"
proof (induction n arbitrary: m)
  case (Suc n)
  then obtain k where "m = Suc k" "n \<le> k" by (cases m) auto
  then show ?case by (simp only: sleep_interval.simps) (intro agrees_rules Suc.IH)
qed (simp add: agrees_cut)

lemma sleep_agrees:
  assumes "n \<le> m"
  shows "agrees (sleep_interruptibly E n seconds) (sleep_interruptibly E m seconds)"
proof -
  have "agrees (sleep_rounds E n k) (sleep_rounds E m k)" for k
    by (induction k) (auto intro!: agrees_rules sleep_interval_agrees assms)
  then show ?thesis by (simp add: sleep_interruptibly_def)
qed

lemma discovery_loop_agrees:
  "n \<le> m \<Longrightarrow> k \<le> j \<Longrightarrow> agrees (discovery_loop E n k cfg opts attempt) (discovery_loop E m j cfg opts attempt)"
proof (induction k arbitrary: j attempt)
  case 0
  show ?case by (cases j) (simp_all only: discovery_loop.simps, (intro agrees_rules)+)
next
  case (Suc k)
  then obtain i where "j = Suc i" "k \<le> i" by (cases j) auto
  then show ?case using Suc.prems(1)
    by (simp only: discovery_loop.simps) (intro agrees_rules discovery_wait_agrees session_agrees_le Suc.IH; simp)
qed

lemma direct_loop_agrees:
  "n \<le> m \<Longrightarrow> k \<le> j \<Longrightarrow>
    agrees (direct_loop E n k cfg opts delay next_log attempt) (direct_loop E m j cfg opts delay next_log attempt)"
proof (induction k arbitrary: j delay next_log attempt)
  case 0
  show ?case by (cases j) (simp_all only: direct_loop.simps, (intro agrees_rules)+)
next
  case (Suc k)
  then obtain i where "j = Suc i" "k \<le> i" by (cases j) auto
  then show ?case using Suc.prems(1)
    by (simp only: direct_loop.simps) (intro agrees_rules sleep_agrees session_agrees_le Suc.IH; simp)
qed

lemma main_agrees: "n \<le> m \<Longrightarrow> agrees (main E n version files args) (main E m version files args)"
proof -
  assume le: "n \<le> m"
  have guard: "agrees (guard_radio E n opts cfg) (guard_radio E m opts cfg)" for opts cfg
    unfolding guard_radio_def by (intro agrees_rules discovery_loop_agrees direct_loop_agrees le)
  show ?thesis
    by (auto simp: main_def agrees_refl guard split: sum.split prod.split)
qed

subsection \<open>A run that is cut off was long\<close>

definition spends :: "nat \<Rightarrow> ('w world_scheme, 'a) prog \<Rightarrow> bool" where
  "spends k m \<longleftrightarrow> (\<forall>s. wp m (\<lambda>_ s'. tick s \<le> tick s') (\<lambda>s'. tick s + k \<le> tick s') s)"

lemma spendsD: "spends k m \<Longrightarrow> wp m (\<lambda>_ s'. tick s \<le> tick s') (\<lambda>s'. tick s + k \<le> tick s') s"
  by (simp add: spends_def)

lemma spends_mono: "spends k m \<Longrightarrow> j \<le> k \<Longrightarrow> spends j m"
  unfolding spends_def [of j] by (intro allI, rule wp_mono [OF spendsD], assumption) auto

lemma spends_ret: "spends k (ret x)"
  by (simp add: spends_def wp_ret)

lemma spends_gets: "spends k (gets f)"
  by (simp add: spends_def wp_gets)

lemma spends_modify: "(\<And>s. tick (f s) = tick s) \<Longrightarrow> spends k (modify f)"
  by (simp add: spends_def wp_modify)

lemma spends_cut: "spends 0 cut"
  by (simp add: spends_def wp_cut)

lemma spends_emit: "spends k (emit e)"
  by (simp add: spends_def wp_emit)

lemma spends_log: "spends k (ag_log l m)"
  by (simp add: spends_def wp_ag_log)

lemma spends_close: "spends k (close_fd fd)"
  by (simp add: spends_def wp_close_fd)

lemma spends_sys: "spends k (sys f)"
  by (simp add: spends_def wp_sys)

lemma spends_stop: "spends k (read_stop E)"
  by (simp add: spends_def wp_read_stop)

lemma spends_clock: "spends k (monotonic_milliseconds E)"
  by (simp add: spends_def wp_monotonic)

lemma spends_bind:
  fixes m :: "('w world_scheme, 'a) prog" and f :: "'a \<Rightarrow> ('w world_scheme, 'b) prog"
  assumes "spends k m" "\<And>x. spends k (f x)"
  shows "spends k (bind m f)"
  unfolding spends_def wp_bind
proof
  fix s :: "'w world_scheme"
  show "wp m (\<lambda>x. wp (f x) (\<lambda>_ s'. tick s \<le> tick s') (\<lambda>s'. tick s + k \<le> tick s')) (\<lambda>s'. tick s + k \<le> tick s') s"
  proof (rule wp_mono)
    show "wp m (\<lambda>_ s'. tick s \<le> tick s') (\<lambda>s'. tick s + k \<le> tick s') s"
      using assms(1) by (simp add: spends_def)
    fix x and t :: "'w world_scheme" assume t: "tick s \<le> tick t"
    have "wp (f x) (\<lambda>_ s'. tick t \<le> tick s') (\<lambda>s'. tick t + k \<le> tick s') t"
      using assms(2) by (simp add: spends_def)
    then show "wp (f x) (\<lambda>_ s'. tick s \<le> tick s') (\<lambda>s'. tick s + k \<le> tick s') t"
      by (rule wp_mono) (use t in auto)
  qed simp
qed

text \<open>A system call, a look at the clock or at the stop flag pays for one more.\<close>

lemma spends_tick:
  assumes "\<And>s. \<exists>x s'. m s = (Some x, s') \<and> tick s' = Suc (tick s)" and "\<And>x. spends k (f x)"
  shows "spends (Suc k) (bind m f)"
  unfolding spends_def
proof
  fix s
  obtain x s' where m: "m s = (Some x, s')" "tick s' = Suc (tick s)" using assms(1) by blast
  have "wp (f x) (\<lambda>_ t. tick s' \<le> tick t) (\<lambda>t. tick s' + k \<le> tick t) s'"
    using assms(2) by (simp add: spends_def)
  then have "wp (f x) (\<lambda>_ t. tick s \<le> tick t) (\<lambda>t. tick s + Suc k \<le> tick t) s'"
    by (rule wp_mono) (use m(2) in auto)
  then show "wp (bind m f) (\<lambda>_ t. tick s \<le> tick t) (\<lambda>t. tick s + Suc k \<le> tick t) s"
    by (simp add: wp_bind) (simp add: wp_def m(1))
qed

lemma spends_tick_sys: "(\<And>x. spends k (f x)) \<Longrightarrow> spends (Suc k) (bind (sys g) f)"
  by (rule spends_tick) (auto simp: sys_def)

lemma spends_tick_stop: "(\<And>x. spends k (f x)) \<Longrightarrow> spends (Suc k) (bind (read_stop E) f)"
  by (rule spends_tick) (auto simp: read_stop_def sys_def bind_def modify_def gets_def handle_signal_def)

lemma spends_tick_clock: "(\<And>x. spends k (f x)) \<Longrightarrow> spends (Suc k) (bind (monotonic_milliseconds E) f)"
  by (rule spends_tick) (auto simp: monotonic_milliseconds_def sys_def bind_def ret_def split: prod.splits)

lemma spends_if: "(b \<Longrightarrow> spends k m) \<Longrightarrow> (\<not> b \<Longrightarrow> spends k m') \<Longrightarrow> spends k (if b then m else m')"
  by simp

lemma spends_option: "spends k m \<Longrightarrow> (\<And>x. spends k (f x)) \<Longrightarrow> spends k (case v of None \<Rightarrow> m | Some x \<Rightarrow> f x)"
  by (cases v) simp_all

lemma spends_prod: "(\<And>x y. spends k (f x y)) \<Longrightarrow> spends k (case p of (x, y) \<Rightarrow> f x y)"
  by (cases p) simp

lemma spends_list: "spends k m \<Longrightarrow> (\<And>x xs. spends k (f x xs)) \<Longrightarrow> spends k (case v of [] \<Rightarrow> m | x # xs \<Rightarrow> f x xs)"
  by (cases v) simp_all

lemma spends_sysret:
  "(\<And>e. spends k (f e)) \<Longrightarrow> (\<And>x. spends k (g x)) \<Longrightarrow> spends k (case r of Sys_error e \<Rightarrow> f e | Sys_ok x \<Rightarrow> g x)"
  by (cases r) simp_all

lemma spends_poll:
  "(\<And>e. spends k (f e)) \<Longrightarrow> spends k m \<Longrightarrow> (\<And>ev. spends k (g ev)) \<Longrightarrow>
    spends k (case r of Poll_error e \<Rightarrow> f e | Poll_timeout \<Rightarrow> m | Poll_ready ev \<Rightarrow> g ev)"
  by (cases r) simp_all

lemma spends_discovery:
  "spends k m \<Longrightarrow> (\<And>radio. spends k (f radio)) \<Longrightarrow> spends k m' \<Longrightarrow>
    spends k (case r of AG_DISCOVERY_STOPPED \<Rightarrow> m | AG_DISCOVERY_MATCHED radio \<Rightarrow> f radio | AG_DISCOVERY_ERROR \<Rightarrow> m')"
  by (cases r) simp_all

lemmas spends_rules =
  spends_bind spends_if spends_option spends_prod spends_list spends_sysret spends_poll spends_discovery
  spends_ret spends_gets spends_modify spends_emit spends_log spends_close spends_sys spends_stop spends_clock

lemma send_all_spends: "spends n (send_all E n data)"
proof (induction n arbitrary: data)
  case 0
  show ?case by (auto intro: spends_ret spends_cut)
next
  case (Suc n)
  show ?case unfolding send_all.simps Let_def
    by (rule spends_if [OF spends_ret], rule spends_tick_sys) (intro spends_rules Suc.IH)
qed

lemma extract_line_spends: "spends k (extract_line len)"
  unfolding extract_line_def Let_def by (intro spends_rules) simp

lemma poll_spends: "spends n (poll_and_receive E n len)"
proof (induction n)
  case (Suc n)
  show ?case unfolding poll_and_receive.simps Let_def
    by (rule spends_tick_sys) (intro spends_rules extract_line_spends Suc.IH; simp)
qed (simp add: spends_cut)

lemma read_line_spends: "spends n (read_line E n len)"
  unfolding read_line_def by (intro spends_rules extract_line_spends poll_spends)

lemma cache_spends:
  "spends k (take_response q)" "spends k (save_response q code body)" "spends k (accept_response command code body len)"
  unfolding take_response_def accept_response_def save_response_def by (intro spends_rules; simp)+

text \<open>With a way to send commands that spends \<open>k\<close>.\<close>

locale spending_send =
  fixes send :: send and k :: nat
  assumes send_spends: "spends k (send command len cleanup)"
begin

lemma set_interlock_spends: "spends k (set_interlock send b)"
  unfolding set_interlock_def by (intro spends_rules send_spends) simp

lemma handle_status_spends: "spends k (handle_status send line)"
  unfolding handle_status_def handle_transmit_def handle_interlock_def set_antenna_def log_decision_def
  by (intro spends_rules set_interlock_spends) (simp_all add: set_frequency_def Let_def)

lemma await_spends:
  "n \<le> Suc k \<Longrightarrow> spends n (await_response E send n command len cleanup q deadline)"
proof (induction n)
  case (Suc n)
  show ?case unfolding await_response.simps
    by (rule spends_bind, intro spends_if spends_ret spends_stop, rule spends_if [OF spends_ret], rule spends_tick_clock)
      (intro spends_rules cache_spends read_line_spends Suc.IH spends_mono [OF handle_status_spends]; use Suc.prems in simp)
qed (simp add: spends_cut)

lemma once_spends: "n \<le> Suc k \<Longrightarrow> spends n (send_command_once E send n command len cleanup)"
  unfolding send_command_once_def by (intro spends_rules send_all_spends await_spends) simp_all

lemma drain_spends: "n \<le> Suc k \<Longrightarrow> spends n (drain_interlock E send n)"
proof (induction n)
  case 0
  show ?case unfolding drain_interlock.simps by (intro spends_rules spends_cut)
next
  case (Suc n)
  show ?case unfolding drain_interlock.simps
    by (rule spends_bind [OF spends_gets], rule spends_if [OF spends_ret], rule spends_tick_stop)
      (intro spends_rules once_spends Suc.IH; use Suc.prems in simp)
qed

lemma send_commands_spends: "spends k (send_commands send cs)"
  by (induction cs) (auto intro!: spends_rules send_spends)

lemma initialize_spends: "spends k (initialize_session send)"
  unfolding initialize_session_def arm_interlock_def Let_def
  by (intro spends_rules send_commands_spends send_spends set_interlock_spends) simp

lemma session_loop_spends: "n \<le> Suc k \<Longrightarrow> spends n (session_loop E send n)"
proof (induction n)
  case 0
  show ?case unfolding session_loop.simps by (intro spends_rules spends_cut)
next
  case (Suc n)
  show ?case unfolding session_loop.simps
    by (rule spends_tick_stop)
      (intro spends_rules read_line_spends Suc.IH spends_mono [OF handle_status_spends]; use Suc.prems in simp)
qed

lemma close_spends: "spends k (close_session send)"
  unfolding close_session_def remove_interlock_def by (intro spends_rules send_spends) simp

end

lemma send_command_spends: "spending_send (send_command E n) (n - 1)"
proof (induction n)
  case (Suc n)
  have n: "n \<le> Suc (n - 1)" by simp
  show ?case unfolding spending_send_def send_command.simps diff_Suc_1
    by (intro allI spends_rules spending_send.once_spends [OF Suc.IH n] spending_send.drain_spends [OF Suc.IH n])
      simp_all
qed (simp add: spending_send_def spends_cut)

interpretation command_cost: spending_send "send_command E n" "n - 1" for E n
  by (rule send_command_spends)

lemma try_address_spends: "spends k (try_address E)"
  unfolding try_address_def give_up_def by (intro spends_rules)

lemma try_addresses_spends: "spends k (try_addresses E j)"
  by (induction j) (auto intro!: spends_rules try_address_spends)

lemma connect_spends: "spends k (connect_socket E cfg)"
  unfolding connect_socket_def by (intro spends_rules try_addresses_spends)

lemma session_spends: "spends (n - 1) (ag_flex_run_session E n cfg obs attempt)"
proof -
  have "spends (n - 1) (session_program E n attempt)"
    unfolding session_program_def connected_session_def
    by (intro spends_rules connect_spends command_cost.initialize_spends command_cost.close_spends
        spends_mono [OF command_cost.session_loop_spends]) simp_all
  note cost = spendsD [OF this]
  show ?thesis unfolding spends_def
  proof
    fix s :: world
    show "wp (ag_flex_run_session E n cfg obs attempt) (\<lambda>_ s'. tick s \<le> tick s') (\<lambda>s'. tick s + (n - 1) \<le> tick s') s"
      using cost [of "new_connection cfg obs s"]
      by (cases "session_program E n attempt (new_connection cfg obs s)")
        (auto simp: wp_def ag_flex_run_session_def new_connection_def split: option.splits)
  qed
qed

lemma discovery_poll_spends: "spends n (discovery_poll E n cfg fd)"
proof (induction n)
  case 0
  show ?case unfolding discovery_poll.simps by (intro spends_rules spends_cut)
next
  case (Suc n)
  show ?case unfolding discovery_poll.simps by (rule spends_tick_stop) (intro spends_rules Suc.IH)
qed

lemma discovery_wait_spends: "spends n (ag_discovery_wait E n cfg)"
  unfolding ag_discovery_wait_def by (intro spends_rules discovery_poll_spends)

lemma sleep_spends: "spends n (sleep_interruptibly E n seconds)"
proof -
  have interval: "spends n (sleep_interval E n)" for n
  proof (induction n)
    case (Suc n)
    show ?case unfolding sleep_interval.simps by (rule spends_tick_sys) (intro spends_rules Suc.IH)
  qed (simp add: spends_cut)
  have "spends n (sleep_rounds E n k)" for k
    by (induction k) (auto intro!: spends_rules interval)
  then show ?thesis by (simp add: sleep_interruptibly_def)
qed

lemma stopped_spends: "spends k stopped"
  unfolding stopped_def by (intro spends_rules)

lemma discovery_loop_spends: "k \<le> n \<Longrightarrow> spends k (discovery_loop E n k cfg opts attempt)"
proof (induction k arbitrary: attempt)
  case 0
  show ?case unfolding discovery_loop.simps by (intro spends_rules stopped_spends spends_cut)
next
  case (Suc k)
  show ?case unfolding discovery_loop.simps log_discovered_def
    by (rule spends_tick_stop)
      (intro spends_rules stopped_spends Suc.IH spends_mono [OF discovery_wait_spends] spends_mono [OF session_spends];
        use Suc.prems in simp)
qed

lemma direct_loop_spends: "k \<le> n \<Longrightarrow> spends k (direct_loop E n k cfg opts delay next_log attempt)"
proof (induction k arbitrary: delay next_log attempt)
  case 0
  show ?case unfolding direct_loop.simps by (intro spends_rules stopped_spends spends_cut)
next
  case (Suc k)
  show ?case unfolding direct_loop.simps
    by (rule spends_tick_stop)
      (intro spends_rules stopped_spends Suc.IH spends_mono [OF sleep_spends] spends_mono [OF session_spends];
        use Suc.prems in simp)
qed

lemma main_spends: "spends n (main E n version files args)"
proof -
  have "spends k (emit_all es)" for k es by (induction es) (auto intro!: spends_rules)
  then show ?thesis unfolding main_def guard_radio_def
    by (auto intro!: spends_rules discovery_loop_spends direct_loop_spends split: sum.split)
qed

subsection \<open>Properties\<close>


definition stopping_env :: env where
  "stopping_env = silent_env\<lparr>env_signal := (\<lambda>t. True)\<rparr>"



end
