(* ===== verification/Wire_Properties.thy ===== *)
theory Wire_Properties
  imports Session_Properties
begin

text \<open>
  The wire of a Flex session: what is sent is what was to be sent, bytes become lines without
  loss, responses are read back, and the cache of responses is a finite map.
\<close>

subsection \<open>Sending\<close>

text \<open>The bytes the kernel took, in order.\<close>

fun sent_text :: "event list \<Rightarrow> string" where
  "sent_text [] = []"
| "sent_text (Sent s # tr) = sent_text tr @ s"
| "sent_text (e # tr) = sent_text tr"

definition sends_prefix :: "string \<Rightarrow> event list \<Rightarrow> nat \<Rightarrow> event list \<Rightarrow> bool" where
  "sends_prefix data tr k tr' \<longleftrightarrow> k \<le> length data \<and> sent_text tr' = sent_text tr @ take k data"

lemma sends_prefix_refl [simp]: "sends_prefix data tr 0 tr"
  by (simp add: sends_prefix_def)

lemma sends_prefix_step:
  "sends_prefix (drop j data) (Sent (take j data) # tr) k tr' \<Longrightarrow> j \<le> length data \<Longrightarrow> sends_prefix data tr (j + k) tr'"
  by (auto simp: sends_prefix_def take_add)

lemma send_all_wp:
  "wp (send_all E n data)
    (\<lambda>rc w'. \<exists>k. sends_prefix data (trace w) k (trace w') \<and> (if rc = 0 then k = length data else rc = - 1))
    (\<lambda>w'. \<exists>k. sends_prefix data (trace w) k (trace w')) w"
proof (induction n arbitrary: data w)
  case 0
  show ?case by (auto simp: wp_rules intro: exI [of _ 0])
next
  case (Suc n)
  let ?Q = "\<lambda>(rc :: int) w'. \<exists>k. sends_prefix data (trace w) k (trace w') \<and> (if rc = 0 then k = length data else rc = - 1)"
  let ?C = "\<lambda>w'. \<exists>k. sends_prefix data (trace w) k (trace w')"
  have more: "wp (send_all E n (drop j data)) ?Q ?C (w\<lparr>tick := t, trace := Sent (take j data) # trace w\<rparr>)"
    if "j \<le> length data" for j t
    by (rule wp_mono [OF Suc.IH]) (use that in \<open>auto intro: sends_prefix_step exI [of _ "j + k" for k] split: if_splits\<close>)
  have again: "wp (send_all E n data) ?Q ?C (w\<lparr>tick := t\<rparr>)" for t
    using Suc.IH [of data "w\<lparr>tick := t\<rparr>"] by simp
  have none: "?Q (- 1) (w\<lparr>tick := t\<rparr>)" "data = [] \<Longrightarrow> ?Q 0 w" for t
    by (auto intro: exI [of _ 0])
  show ?case using none more again
    by (cases "env_send E (tick w)") (auto simp: wp_rules Let_def)
qed

subsection \<open>Lines\<close>

definition strip_cr :: "string \<Rightarrow> string" where
  "strip_cr raw = (if raw \<noteq> [] \<and> last raw = CR then butlast raw else raw)"

text \<open>The reference: the first line of a buffer and what follows its line feed.\<close>

definition first_line :: "string \<Rightarrow> (string \<times> string) option" where
  "first_line buffer =
     (case dropWhile (\<lambda>c. c \<noteq> LF) buffer of
        [] \<Rightarrow> None
      | lf # rest \<Rightarrow> Some (cstr (strip_cr (takeWhile (\<lambda>c. c \<noteq> LF) buffer)), rest))"

lemma first_line_None: "first_line b = None \<longleftrightarrow> LF \<notin> set b"
proof -
  have "first_line b = None \<longleftrightarrow> dropWhile (\<lambda>c. c \<noteq> LF) b = []"
    unfolding first_line_def by (cases "dropWhile (\<lambda>c. c \<noteq> LF) b") (simp_all only: list.case option.distinct list.distinct simp_thms)
  then show ?thesis unfolding dropWhile_eq_Nil_conv by blast
qed

lemma extract_line_reference:
  assumes "length (receive_buffer c) \<le> AG_LINE_BUFFER"
  shows "extract_line AG_LINE_BUFFER c =
    (case first_line (receive_buffer c) of
       None \<Rightarrow> (Some (0, []), c)
     | Some (line, rest) \<Rightarrow> (Some (1, line), c\<lparr>receive_buffer := rest\<rparr>))"
proof (cases "LF \<in> set (receive_buffer c)")
  case True
  define raw where "raw = takeWhile (\<lambda>c. c \<noteq> LF) (receive_buffer c)"
  obtain rest where rest: "dropWhile (\<lambda>c. c \<noteq> LF) (receive_buffer c) = LF # rest"
    using True by (cases "dropWhile (\<lambda>c. c \<noteq> LF) (receive_buffer c)")
      (auto simp: dropWhile_eq_Nil_conv dest: dropWhile_hd)
  then have b: "receive_buffer c = raw @ LF # rest"
    unfolding raw_def by (rule takeWhile_dropWhile_Cons)
  have len: "length raw < AG_LINE_BUFFER" using assms b by simp
  have cut: "take (if 0 < length raw \<and> receive_buffer c ! (length raw - 1) = CR then length raw - 1 else length raw) (receive_buffer c)
      = strip_cr raw"
    by (cases raw rule: rev_cases) (auto simp: b strip_cr_def nth_append)
  have "drop (length raw + 1) (receive_buffer c) = rest" by (simp add: b)
  then show ?thesis using True len cut rest
    by (auto simp: extract_line_def bind_def gets_def modify_def ret_def Let_def raw_def [symmetric] first_line_def
        simp del: wire_limits)
next
  case False
  then have "first_line (receive_buffer c) = None" using first_line_None by blast
  then show ?thesis using False by (simp add: extract_line_def bind_def gets_def ret_def)
qed

lemma first_line_split:
  assumes "first_line b = Some (line, rest)"
  shows "\<exists>raw. b = raw @ LF # rest \<and> LF \<notin> set raw \<and> line = cstr (strip_cr raw)"
proof -
  obtain lf where d: "dropWhile (\<lambda>c. c \<noteq> LF) b = lf # rest" and line: "line = cstr (strip_cr (takeWhile (\<lambda>c. c \<noteq> LF) b))"
    using assms by (auto simp: first_line_def split: list.splits)
  have "lf = LF" using dropWhile_hd [OF d] by simp
  then have "b = takeWhile (\<lambda>c. c \<noteq> LF) b @ LF # rest" using takeWhile_dropWhile_Cons [OF d] by simp
  moreover have "LF \<notin> set (takeWhile (\<lambda>c. c \<noteq> LF) b)" by (auto dest: set_takeWhileD)
  ultimately show ?thesis using line by blast
qed

lemma first_line_append:
  "LF \<notin> set raw \<Longrightarrow> first_line (raw @ LF # rest) = Some (cstr (strip_cr raw), rest)"
proof -
  assume "LF \<notin> set raw"
  then have raw: "\<forall>x \<in> set raw. x \<noteq> LF" by blast
  show ?thesis
    using takeWhile_append_stop [OF raw, of LF rest] dropWhile_append_stop [OF raw, of LF rest]
    by (simp only: first_line_def list.case)
qed

text \<open>
  What reading does to the bytes: \<open>chunk\<close> is nothing, or the start of what one \<^verbatim>\<open>recv\<close> returned.
\<close>

definition received_chunk :: "env \<Rightarrow> string \<Rightarrow> bool" where
  "received_chunk E chunk \<longleftrightarrow> chunk = [] \<or> (\<exists>t bytes k. env_recv E t = Sys_ok bytes \<and> chunk = take k bytes)"

definition framed :: "env \<Rightarrow> string \<Rightarrow> int \<Rightarrow> string \<Rightarrow> string \<Rightarrow> bool" where
  "framed E before result line after \<longleftrightarrow>
     (\<exists>chunk. received_chunk E chunk \<and>
        (if result = 1
         then \<exists>raw. before @ chunk = raw @ LF # after \<and> LF \<notin> set raw \<and> line = cstr (strip_cr raw)
         else before @ chunk = after \<and> (result = 0 \<longrightarrow> LF \<notin> set after)))"

lemma extract_framed:
  assumes "length (receive_buffer c) \<le> AG_LINE_BUFFER" "receive_buffer c = before @ chunk" "received_chunk E chunk"
  shows "wp (extract_line AG_LINE_BUFFER)
    (\<lambda>(result, line) c'. framed E before result line (receive_buffer c') \<and> (result = 0 \<longrightarrow> c' = c)) (\<lambda>_. True) c"
proof (cases "first_line (receive_buffer c)")
  case None
  then show ?thesis using assms(2,3) first_line_None [of "receive_buffer c"]
    unfolding wp_def extract_line_reference [OF assms(1)] by (auto simp: framed_def)
next
  case (Some r)
  obtain line rest where r: "r = (line, rest)" by (cases r)
  show ?thesis using assms(2,3) first_line_split [OF Some [unfolded r]]
    unfolding wp_def extract_line_reference [OF assms(1)] Some r by (auto simp: framed_def)
qed

lemma poll_framed:
  assumes "length (receive_buffer c) < AG_LINE_BUFFER" "LF \<notin> set (receive_buffer c)"
  shows "wp (poll_and_receive E n AG_LINE_BUFFER)
    (\<lambda>(result, line) c'. framed E (receive_buffer c) result line (receive_buffer c'))
    (\<lambda>c'. receive_buffer c' = receive_buffer c) c"
  using assms
proof (induction n arbitrary: c)
  case (Suc n)
  let ?Q = "\<lambda>(result, line) c'. framed E (receive_buffer c) result line (receive_buffer c')"
  have stay: "framed E (receive_buffer c) r [] (receive_buffer c)" if "r = 0 \<or> r = - 1" for r
    using that Suc.prems(2) by (auto simp: framed_def received_chunk_def)
  have take: "wp (extract_line AG_LINE_BUFFER) ?Q (\<lambda>c'. receive_buffer c' = receive_buffer c)
      (c\<lparr>tick := t, receive_buffer := receive_buffer c @ take (AG_LINE_BUFFER - length (receive_buffer c)) bytes\<rparr>)"
    if "env_recv E t' = Sys_ok bytes" for t t' bytes
  proof -
    let ?c = "c\<lparr>tick := t, receive_buffer := receive_buffer c @ take (AG_LINE_BUFFER - length (receive_buffer c)) bytes\<rparr>"
    have "fst (extract_line AG_LINE_BUFFER ?c) \<noteq> None"
      using Suc.prems(1) by (subst extract_line_reference) (auto split: option.split)
    moreover have "wp (extract_line AG_LINE_BUFFER) (\<lambda>x. case x of (result, line) \<Rightarrow> \<lambda>c'.
        framed E (receive_buffer c) result line (receive_buffer c') \<and> (result = 0 \<longrightarrow> c' = ?c)) (\<lambda>_. True) ?c"
      by (rule extract_framed [where chunk = "take (AG_LINE_BUFFER - length (receive_buffer c)) bytes"])
        (use Suc.prems(1) that in \<open>auto simp: received_chunk_def\<close>)
    ultimately show ?thesis by (auto simp: wp_def split: prod.splits option.splits)
  qed
  have again: "wp (poll_and_receive E n AG_LINE_BUFFER) ?Q (\<lambda>c'. receive_buffer c' = receive_buffer c) (c\<lparr>tick := t\<rparr>)" for t
    using Suc.IH [of "c\<lparr>tick := t\<rparr>"] Suc.prems by simp
  show ?case using Suc.prems
    by (auto simp: wp_rules Let_def intro!: stay take again
        simp del: wire_limits split: poll_result.split sysret.split)
qed (simp add: wp_rules)

lemma read_line_framed:
  assumes "length (receive_buffer c) \<le> AG_LINE_BUFFER"
  shows "wp (read_line E n AG_LINE_BUFFER)
    (\<lambda>(result, line) c'. framed E (receive_buffer c) result line (receive_buffer c'))
    (\<lambda>c'. receive_buffer c' = receive_buffer c) c"
proof -
  have rest: "wp (bind (gets receive_buffer) (\<lambda>buffer.
         if length buffer = AG_LINE_BUFFER
         then bind (ag_log AG_LOG_ERROR Msg_unterminated_line) (\<lambda>_. ret (- 1, []))
         else poll_and_receive E n AG_LINE_BUFFER))
    (\<lambda>(result, line) c'. framed E (receive_buffer c) result line (receive_buffer c'))
    (\<lambda>c'. receive_buffer c' = receive_buffer c) c" if "LF \<notin> set (receive_buffer c)"
    using assms that poll_framed [of c E n]
    by (auto simp: wp_rules framed_def received_chunk_def simp del: wire_limits)
  show ?thesis
  proof (cases "first_line (receive_buffer c)")
    case None
    then have "LF \<notin> set (receive_buffer c)" using first_line_None by blast
    from rest [OF this] show ?thesis
      unfolding read_line_def wp_bind [of "extract_line AG_LINE_BUFFER"]
      unfolding wp_def [of "extract_line AG_LINE_BUFFER"] extract_line_reference [OF assms] by (simp add: None)
  next
    case (Some r)
    obtain line more where r: "r = (line, more)" by (cases r)
    show ?thesis using first_line_split [OF Some [unfolded r]]
      unfolding read_line_def wp_bind [of "extract_line AG_LINE_BUFFER"]
      unfolding wp_def [of "extract_line AG_LINE_BUFFER"] extract_line_reference [OF assms] Some r
      by (auto simp: wp_ret framed_def received_chunk_def)
  qed
qed

subsection \<open>Responses\<close>

definition response_line :: "32 word \<Rightarrow> string \<Rightarrow> string \<Rightarrow> string" where
  "response_line seq code_text body =
     CHR ''R'' # dec_string (unat seq) @ CHR ''|'' # code_text @ CHR ''|'' # body"

lemma hex_digit_plain:
  "is_digit_of 16 c \<Longrightarrow> \<not> isspace c \<and> c \<noteq> CHR ''-'' \<and> c \<noteq> CHR ''+'' \<and> tolower c \<noteq> CHR ''x''"
proof -
  assume c: "is_digit_of 16 c"
  have "ord (tolower c) \<noteq> 120"
    using c by (auto simp: is_digit_of_def xdigit_value_def isdigit_def tolower_def isupper_def split: if_splits)
  moreover have "ord (CHR ''x'') = 120" by code_simp
  ultimately have "tolower c \<noteq> CHR ''x''" by metis
  moreover have "ord (CHR ''-'') = 45" "ord (CHR ''+'') = 43" by code_simp+
  ultimately show ?thesis using c
    by (auto simp: is_digit_of_def xdigit_value_def isdigit_def isspace_def split: if_splits)
qed

lemma strtoul_hex:
  assumes ds: "ds \<noteq> []" "list_all (is_digit_of 16) ds" and fits: "digits_value 16 ds < 2 ^ 64"
  shows "strtoul (ds @ CHR ''|'' # rest) 16 =
    \<lparr>ul_value = of_nat (digits_value 16 ds), ul_end = CHR ''|'' # rest, ul_erange = False\<rparr>"
proof -
  let ?s = "ds @ CHR ''|'' # rest"
  obtain d ds' where d: "ds = d # ds'" using ds(1) by (cases ds) auto
  note plain = hex_digit_plain
  have sp: "skip_space ?s = ?s" "read_sign ?s = (False, ?s)"
    using plain [of d] ds(2) d by (simp_all add: skip_space_def read_sign_def)
  have bar: "\<not> is_digit_of 16 (CHR ''|'')" "tolower (CHR ''|'') \<noteq> CHR ''x''" by code_simp+
  have x: "skip_0x 16 ?s = ?s"
    using ds(2) d bar plain by (cases ds') (auto simp: skip_0x_def split: list.splits)
  have "takeWhile (is_digit_of 16) ?s = ds" "dropWhile (is_digit_of 16) ?s = CHR ''|'' # rest"
    using ds(2) bar(1) by (auto simp: list_all_iff takeWhile_append_stop dropWhile_append_stop)
  then show ?thesis using sp x ds fits by (simp add: strtoul_def Let_def)
qed

lemma parse_response_line:
  assumes "code_text \<noteq> []" "list_all (is_digit_of 16) code_text" "digits_value 16 code_text < 2 ^ 64"
  shows "parse_response (response_line seq code_text body) = Some (seq, of_nat (digits_value 16 code_text), body)"
proof -
  have u: "unat seq < 2 ^ 32" using unsigned_less [where 'a = nat, of seq] by simp
  have bar: "\<not> isdigit (CHR ''|'')" by code_simp
  have "strtoul (dec_string (unat seq) @ CHR ''|'' # code_text @ CHR ''|'' # body) 10
      = \<lparr>ul_value = of_nat (unat seq), ul_end = CHR ''|'' # code_text @ CHR ''|'' # body, ul_erange = False\<rparr>"
    by (rule strtoul_dec [where ds = "dec_string (unat seq)", unfolded digits_value_dec_string])
      (use u bar in \<open>simp_all add: dec_string_digits\<close>)
  moreover have "ucast (of_nat (unat seq) :: 64 word) = seq"
    by transfer (simp add: take_bit_nat_def take_bit_int_def)
  ultimately show ?thesis
    using strtoul_hex [OF assms, of body] assms(1)
    by (simp add: parse_response_def response_line_def after_bar_def Let_def)
qed

subsection \<open>The cache of responses\<close>

definition cache_of :: "ag_saved_response list \<Rightarrow> 32 word \<Rightarrow> (64 word \<times> string) option" where
  "cache_of rs q = fst (fetch_response q rs)"

definition distinct_sequences :: "ag_saved_response list \<Rightarrow> bool" where
  "distinct_sequences rs \<longleftrightarrow> distinct (map saved_sequence (filter used rs))"

lemma cache_of_simps [simp]:
  "cache_of [] q = None"
  "cache_of (s # ss) q = (if used s \<and> saved_sequence s = q then Some (saved_code s, saved_body s) else cache_of ss q)"
  by (simp_all add: cache_of_def split: prod.split)

lemma cache_None: "cache_of rs q = None \<longleftrightarrow> q \<notin> saved_sequence ` {r \<in> set rs. used r}"
  by (induction rs) auto

lemma distinct_sequences_simps [simp]:
  "distinct_sequences []"
  "distinct_sequences (s # ss) \<longleftrightarrow> (used s \<longrightarrow> cache_of ss (saved_sequence s) = None) \<and> distinct_sequences ss"
  by (auto simp: distinct_sequences_def cache_None)

lemma store_full: "store_response r rs = None \<longleftrightarrow> list_all used rs"
  by (induction rs) auto

lemma store_is_update:
  "store_response r rs = Some rs' \<Longrightarrow> used r \<Longrightarrow> cache_of rs (saved_sequence r) = None \<Longrightarrow>
    distinct_sequences rs \<Longrightarrow>
    cache_of rs' = (cache_of rs)(saved_sequence r \<mapsto> (saved_code r, saved_body r)) \<and> distinct_sequences rs'"
  by (induction rs arbitrary: rs') (auto simp: fun_eq_iff split: if_splits)

lemma fetch_is_delete:
  "fetch_response q rs = (found, rs') \<Longrightarrow> distinct_sequences rs \<Longrightarrow>
    found = cache_of rs q \<and> cache_of rs' = (cache_of rs)(q := None) \<and> distinct_sequences rs'"
proof (induction rs arbitrary: rs')
  case (Cons s ss)
  show ?case
  proof (cases "used s \<and> saved_sequence s = q")
    case True
    then show ?thesis using Cons.prems by (auto simp: fun_eq_iff)
  next
    case False
    then obtain ss' where ss': "fetch_response q ss = (found, ss')" "rs' = s # ss'"
      using Cons.prems(1) by (auto split: prod.splits if_splits)
    note ih = Cons.IH [OF ss'(1)]
    show ?thesis
    proof (intro conjI ext)
      show "found = cache_of (s # ss) q" using ih Cons.prems(2) False by auto
      show "cache_of rs' x = ((cache_of (s # ss))(q := None)) x" for x
        using ih Cons.prems(2) False ss'(2) by (cases "x = q") auto
      show "distinct_sequences rs'" using ih Cons.prems(2) False ss'(2) by auto
    qed
  qed
qed (auto simp: fun_eq_iff)

subsection \<open>Properties\<close>

text \<open>
  C32. \<^verbatim>\<open>send_all\<close> sends a prefix of its data, in order and without repetition, however the kernel splits it and
  whatever interrupts it; it returns 0 only when that is all of it, and -1 otherwise.
\<close>

theorem send_all_sends_in_order:
  "wp (send_all E n data)
    (\<lambda>rc w'. \<exists>k \<le> length data. sent_text (trace w') = sent_text (trace w) @ take k data
       \<and> (if rc = 0 then k = length data else rc = - 1))
    (\<lambda>w'. \<exists>k \<le> length data. sent_text (trace w') = sent_text (trace w) @ take k data) w"
  by (rule wp_mono [OF send_all_wp]) (auto simp: sends_prefix_def)

text \<open>
  C30. \<^verbatim>\<open>extract_line\<close>, with its search, its index arithmetic and its moving of bytes, is the reference \<open>first_line\<close>:
  the buffer up to its first line feed, without one carriage return before it and as the C string that
  the caller sees; and nothing at all when the buffer holds no line feed.
\<close>

theorem extract_line_is_first_line:
  assumes "length (receive_buffer c) \<le> AG_LINE_BUFFER"
  shows "extract_line AG_LINE_BUFFER c =
    (case first_line (receive_buffer c) of
       None \<Rightarrow> (Some (0, []), c)
     | Some (line, rest) \<Rightarrow> (Some (1, line), c\<lparr>receive_buffer := rest\<rparr>))"
  using assms by (rule extract_line_reference)

lemma extract_line_is_first_line_witness:
  "extract_line AG_LINE_BUFFER (armed_connection\<lparr>receive_buffer := ''S7|radio'' @ [CR, LF] @ ''S8|''\<rparr>)
     = (Some (1, ''S7|radio''), armed_connection\<lparr>receive_buffer := ''S8|''\<rparr>)"
proof -
  have "first_line (''S7|radio'' @ [CR, LF] @ ''S8|'') = Some (''S7|radio'', ''S8|'')" by code_simp
  then show ?thesis
    using extract_line_is_first_line [of "armed_connection\<lparr>receive_buffer := ''S7|radio'' @ [CR, LF] @ ''S8|''\<rparr>"]
    by simp
qed



text \<open>
  C31. A response line is read back: \<^verbatim>\<open>parse_response\<close> finds the sequence number of the command, the code in
  hexadecimal digits of either case, and the body, which may hold anything.
\<close>

theorem response_read_back:
  assumes "code_text \<noteq> []" "list_all (is_digit_of 16) code_text" "digits_value 16 code_text < 2 ^ 64"
  shows "parse_response (response_line seq code_text body) = Some (seq, of_nat (digits_value 16 code_text), body)"
  using assms by (rule parse_response_line)

lemma response_read_back_witness:
  "parse_response ''R12|5000002C|a|b'' = Some (12, 0x5000002C, ''a|b'')"
proof -
  have "response_line 12 ''5000002C'' ''a|b'' = ''R12|5000002C|a|b''" "digits_value 16 ''5000002C'' = 0x5000002C"
    "list_all (is_digit_of 16) ''5000002C''" by code_simp+
  then show ?thesis using response_read_back [of "''5000002C''" 12 "''a|b''"] by simp
qed

text \<open>
  C17. The array of saved responses implements a finite map from sequence numbers: as long as no
  sequence number is saved twice, \<^verbatim>\<open>save_response\<close> adds an entry, with the body cut to its buffer, or
  drops it with a warning exactly when all slots are used, and \<^verbatim>\<open>take_response\<close> looks an entry up and deletes it.
\<close>

theorem saved_responses_are_a_map:
  assumes "distinct_sequences (saved_responses c)" "cache_of (saved_responses c) q = None"
  shows "wp (save_response q code body)
      (\<lambda>_ c'. distinct_sequences (saved_responses c') \<and>
         (if list_all used (saved_responses c)
          then c' = c\<lparr>trace := Log AG_LOG_WARNING Msg_cache_full # trace c\<rparr>
          else cache_of (saved_responses c') =
            (cache_of (saved_responses c))(q \<mapsto> (code, snprintf_str AG_RESPONSE_BODY body)))) (\<lambda>_. False) c
    \<and> wp (take_response q')
      (\<lambda>found c'. distinct_sequences (saved_responses c') \<and> found = cache_of (saved_responses c) q'
         \<and> cache_of (saved_responses c') = (cache_of (saved_responses c))(q' := None)) (\<lambda>_. False) c"
proof
  let ?r = "\<lparr>used = True, saved_sequence = q, saved_code = code, saved_body = snprintf_str AG_RESPONSE_BODY body\<rparr>"
  show "wp (save_response q code body)
      (\<lambda>_ c'. distinct_sequences (saved_responses c') \<and>
         (if list_all used (saved_responses c)
          then c' = c\<lparr>trace := Log AG_LOG_WARNING Msg_cache_full # trace c\<rparr>
          else cache_of (saved_responses c') =
            (cache_of (saved_responses c))(q \<mapsto> (code, snprintf_str AG_RESPONSE_BODY body)))) (\<lambda>_. False) c"
  proof (cases "store_response ?r (saved_responses c)")
    case None
    then show ?thesis using assms store_full [of ?r "saved_responses c"] by (simp add: save_response_def wp_rules)
  next
    case (Some saved')
    then show ?thesis using assms store_full [of ?r "saved_responses c"] store_is_update [OF Some]
      by (simp add: save_response_def wp_rules)
  qed
  show "wp (take_response q')
      (\<lambda>found c'. distinct_sequences (saved_responses c') \<and> found = cache_of (saved_responses c) q'
         \<and> cache_of (saved_responses c') = (cache_of (saved_responses c))(q' := None)) (\<lambda>_. False) c"
    using fetch_is_delete [OF _ assms(1)] by (auto simp: take_response_def wp_rules split: prod.split)
qed

lemma saved_responses_are_a_map_witness:
  "wp (save_response 9 0 ''late'')
      (\<lambda>_ c'. cache_of (saved_responses c') = [9 \<mapsto> (0, ''late'')]) (\<lambda>_. False) armed_connection"
proof -
  have start: "saved_responses armed_connection = replicate AG_SAVED_RESPONSES free_slot"
    by (simp add: armed_connection_def new_connection_def Let_def)
  have "distinct_sequences (replicate k free_slot) \<and> cache_of (replicate k free_slot) = Map.empty" for k
    by (induction k) (auto simp: free_slot_def)
  then have empty: "distinct_sequences (saved_responses armed_connection)" "cache_of (saved_responses armed_connection) = Map.empty"
    by (simp_all add: start)
  have free: "\<not> list_all used (saved_responses armed_connection)" by (simp add: start free_slot_def list_all_iff)
  have "snprintf_str AG_RESPONSE_BODY ''late'' = ''late''" by code_simp
  then show ?thesis
    using saved_responses_are_a_map [of armed_connection 9 0 "''late''" 0] empty free
    by (auto elim!: wp_mono)
qed

subsection \<open>An answer that arrives in pieces\<close>

text \<open>A network on which time stands still, all calls succeed, and each \<^verbatim>\<open>recv\<close> returns \<open>chunk\<close>.\<close>

definition answering :: "string \<Rightarrow> env" where
  "answering chunk = silent_env\<lparr>env_clock := (\<lambda>t. (0, 0)), env_recv := (\<lambda>t. Sys_ok chunk),
     env_poll := (\<lambda>t. Poll_ready \<lparr>POLLIN = True, POLLOUT = False, POLLERR = False, POLLHUP = False, POLLNVAL = False\<rparr>)\<rparr>"

definition accepted_answer :: string where
  "accepted_answer = ''R1|0|'' @ [LF]"

lemma answering_read:
  assumes "receive_buffer c = []" "chunk \<noteq> []" "length chunk \<le> AG_LINE_BUFFER"
  shows "wp (read_line (answering chunk) (Suc n) AG_LINE_BUFFER) Q C c =
    (case first_line chunk of
       None \<Rightarrow> Q (0, []) (c\<lparr>tick := tick c + 2, receive_buffer := chunk\<rparr>)
     | Some (line, rest) \<Rightarrow> Q (1, line) (c\<lparr>tick := tick c + 2, receive_buffer := rest\<rparr>))"
proof -
  have one: "wp (extract_line AG_LINE_BUFFER) Q C c = (case first_line (receive_buffer c) of
      None \<Rightarrow> Q (0, []) c | Some (line, rest) \<Rightarrow> Q (1, line) (c\<lparr>receive_buffer := rest\<rparr>))"
    if "length (receive_buffer c) \<le> AG_LINE_BUFFER" for Q C c
    using extract_line_reference [OF that] by (auto simp: wp_def split: option.split)
  have empty: "first_line [] = None" by (simp add: first_line_None)
  have "AG_LINE_BUFFER \<noteq> 0" by simp
  then show ?thesis using assms
    by (simp add: read_line_def wp_bind wp_if wp_ret wp_gets wp_sys wp_modify one empty answering_def Let_def
        del: wire_limits split: option.split)
qed

text \<open>What a command makes of the first piece of its answer.\<close>

definition piece_result :: "32 word \<Rightarrow> string \<Rightarrow> int \<times> string \<Rightarrow> bool" where
  "piece_result q chunk answer \<longleftrightarrow>
     (case first_line chunk of
        None \<Rightarrow> answer = (- 1, [])
      | Some (line, rest) \<Rightarrow> \<exists>body. parse_response line = Some (q, 0, body) \<and> answer = (0, []))"

lemma answering_send:
  "data \<noteq> [] \<Longrightarrow> length data \<le> 4096 \<Longrightarrow>
    wp (send_all (answering chunk) (Suc (Suc n)) data) Q C c = Q 0 (c\<lparr>tick := Suc (tick c), trace := Sent data # trace c\<rparr>)"
  by (simp add: answering_def silent_env_def wp_rules Let_def min_def)

lemma answering_await:
  assumes "receive_buffer c = []" "chunk \<noteq> []" "length chunk \<le> AG_LINE_BUFFER" "\<not> stop_requested c"
    and "cache_of (saved_responses c) q = None" "distinct_sequences (saved_responses c)" "piece_result q chunk answer"
    and "command_in_progress c"
  shows "wp (await_response (answering chunk) send (Suc (Suc n)) command 0 False q AG_COMMAND_TIMEOUT_MS)
    (\<lambda>x c'. x = answer \<and> interlock_update_pending c' = interlock_update_pending c) (\<lambda>_. False) c"
proof -
  have clock: "clock_at (answering chunk) t = 0" "\<not> env_signal (answering chunk) t" for t
    by (simp_all add: clock_at_def answering_def silent_env_def)
  have time: "\<not> remaining_ms AG_COMMAND_TIMEOUT_MS 0 \<le> 0" by code_simp
  obtain saved' where fetch: "fetch_response q (saved_responses c) = (None, saved')"
    using assms(5) by (cases "fetch_response q (saved_responses c)") (simp add: cache_of_def)
  let ?c = "c\<lparr>stop_requested := False, tick := Suc (Suc (tick c)), saved_responses := saved'\<rparr>"
  note read = answering_read [where c = ?c and n = n, OF _ assms(2,3)]
  have start: "wp (await_response (answering chunk) send (Suc (Suc n)) command 0 False q AG_COMMAND_TIMEOUT_MS) Q C c \<longleftrightarrow>
      wp (read_line (answering chunk) (Suc n) AG_LINE_BUFFER) (\<lambda>x. wp (case x of (read_result, line) \<Rightarrow>
       if read_result < 0
       then bind (ag_log AG_LOG_ERROR Msg_closed_awaiting) (\<lambda>_. ret (- 1, []))
       else if read_result = 0 then ret (- 1, [])
       else
     bind (ag_log AG_LOG_DEBUG (Msg_line line)) (\<lambda>_.
       case parse_response line of
         Some (response_sequence, code, body) \<Rightarrow>
           if response_sequence \<noteq> q
           then bind (save_response response_sequence code body) (\<lambda>_.
                  await_response (answering chunk) send (Suc n) command 0 False q AG_COMMAND_TIMEOUT_MS)
           else accept_response command code body 0
       | None \<Rightarrow>
           bind (handle_status send line) (\<lambda>rc.
             if rc \<noteq> 0 \<and> \<not> False then ret (- 1, [])
             else await_response (answering chunk) send (Suc n) command 0 False q AG_COMMAND_TIMEOUT_MS))) Q C) C ?c" for Q C
    using assms(4) time fetch
    by (simp add: wp_bind wp_read_stop wp_monotonic stop_seen_def clock take_response_def wp_gets wp_modify wp_ret
        del: wire_limits)
  show ?thesis unfolding start
    using assms(1,7) by (auto simp: read piece_result_def wp_rules accept_response_def simp del: wire_limits split: option.splits)
qed

lemma armed_cache:
  "distinct_sequences (saved_responses armed_connection)" "cache_of (saved_responses armed_connection) = Map.empty"
proof -
  have "distinct_sequences (replicate k free_slot) \<and> cache_of (replicate k free_slot) = Map.empty" for k
    by (induction k) (auto simp: free_slot_def)
  then show "distinct_sequences (saved_responses armed_connection)" "cache_of (saved_responses armed_connection) = Map.empty"
    by (simp_all add: armed_connection_def new_connection_def Let_def)
qed

lemma answered_command:
  assumes "length command \<le> 1000" "chunk \<noteq> []" "length chunk \<le> AG_LINE_BUFFER" "piece_result 1 chunk answer"
  shows "fst (send_command (answering chunk) (Suc (Suc (Suc n))) command 0 False armed_connection) = Some answer"
proof -
  let ?E = "answering chunk"
  let ?c = "armed_connection"
  have fields: "\<not> command_in_progress ?c" "sequence ?c = 0" "\<not> stop_requested ?c" "receive_buffer ?c = []"
    "\<not> interlock_update_pending ?c"
    by (simp_all add: armed_connection_def new_connection_def Let_def start_world_def)
  have clock: "clock_at ?E t = 0" "\<not> env_signal ?E t" for t
    by (simp_all add: clock_at_def answering_def silent_env_def)
  have "length (command_frame 1 command) < AG_COMMAND_SIZE" using assms(1) command_frame_length [of 1 command] by simp
  then have frame: "\<not> AG_COMMAND_SIZE \<le> length (command_frame 1 command)" "command_frame 1 command \<noteq> []"
    "length (command_frame 1 command) \<le> 4096"
    by (simp_all add: command_frame_def)
  have once: "wp (send_command_once ?E send (Suc (Suc n)) command 0 False)
      (\<lambda>x c'. x = answer \<and> \<not> interlock_update_pending c') (\<lambda>_. False) (?c\<lparr>command_in_progress := True\<rparr>)" for send
  proof -
    have await: "wp (await_response ?E send (Suc (Suc n)) command 0 False 1 AG_COMMAND_TIMEOUT_MS)
        (\<lambda>x c'. x = answer \<and> \<not> interlock_update_pending c') (\<lambda>_. False) c'"
      if "receive_buffer c' = []" "\<not> stop_requested c'" "saved_responses c' = saved_responses ?c" "command_in_progress c'"
        "\<not> interlock_update_pending c'" for c'
      by (rule wp_mono [OF answering_await [where q = 1 and answer = answer]]) (use that assms armed_cache in simp_all)
    show ?thesis
      by (simp add: send_command_once_def wp_bind wp_modify wp_gets wp_monotonic wp_read_stop wp_if wp_ag_log stop_seen_def clock
          fields frame answering_send await del: wire_limits send_all.simps await_response.simps)
  qed
  have "wp (send_command ?E (Suc (Suc (Suc n))) command 0 False) (\<lambda>x _. x = answer) (\<lambda>_. False) ?c"
    unfolding send_command.simps
    by (simp add: wp_bind wp_gets wp_modify fields del: send_command.simps)
      (rule wp_mono [OF once]; auto simp: wp_rules)
  then show ?thesis by (auto simp: wp_def split: prod.splits option.splits)
qed



text \<open>
  The sequence number of a response is cut to 32 bits: a response to the number \<open>2 ^ 32 + k\<close>, which no command
  has, is taken for the response to command \<open>k\<close>.
\<close>

lemma response_sequence_wraps:
  "parse_response (CHR ''R'' # dec_string (2 ^ 32 + unat k) @ ''|0|'') = Some (k, 0, [])"
proof -
  have b: "unat k < 2 ^ 32" using unsigned_less [where 'a = nat, of k] by simp
  have bar: "\<not> isdigit (CHR ''|'')" by code_simp
  have "strtoul (dec_string (2 ^ 32 + unat k) @ ''|0|'') 10
      = \<lparr>ul_value = of_nat (2 ^ 32 + unat k), ul_end = ''|0|'', ul_erange = False\<rparr>"
    by (rule strtoul_dec [where ds = "dec_string (2 ^ 32 + unat k)", unfolded digits_value_dec_string])
      (use b bar in \<open>simp_all add: dec_string_digits\<close>)
  moreover have "ucast (of_nat (2 ^ 32 + unat k) :: 64 word) = k"
    by transfer (simp add: take_bit_nat_def take_bit_int_def)
  moreover have "strtoul ''0|'' 16 = \<lparr>ul_value = 0, ul_end = ''|'', ul_erange = False\<rparr>" by code_simp
  ultimately show ?thesis by (simp add: parse_response_def after_bar_def Let_def)
qed

end
