(* ===== verification/Command_Time.thy ===== *)
theory Command_Time
  imports Wire_Properties
begin

text \<open>
  A command ends: whatever the radio sends meanwhile, \<^verbatim>\<open>send_command_once\<close> returns when the clock has passed its
  deadline, at the latest. The ticks of the environment bound its system calls.
\<close>

subsection \<open>Operations that take few ticks\<close>

text \<open>From a busy connection \<open>m\<close> always returns, prompt \<open>k\<close> ticks, to a busy connection.\<close>

definition prompt :: "nat \<Rightarrow> 'a conn_prog \<Rightarrow> bool" where
  "prompt k m \<longleftrightarrow> (\<forall>c. command_in_progress c \<longrightarrow>
     wp m (\<lambda>_ c'. command_in_progress c' \<and> tick c \<le> tick c' \<and> tick c' \<le> tick c + k) (\<lambda>_. False) c)"

lemma promptD:
  "prompt k m \<Longrightarrow> command_in_progress c \<Longrightarrow>
    wp m (\<lambda>_ c'. command_in_progress c' \<and> tick c \<le> tick c' \<and> tick c' \<le> tick c + k) (\<lambda>_. False) c"
  by (simp add: prompt_def)

lemma prompt_bind: "prompt j m \<Longrightarrow> (\<And>x. prompt k (f x)) \<Longrightarrow> prompt (j + k) (bind m f)"
  unfolding prompt_def [of "j + k"] wp_bind
proof (intro allI impI)
  fix c :: ag_connection
  assume m: "prompt j m" and f: "\<And>x. prompt k (f x)" and c: "command_in_progress c"
  show "wp m (\<lambda>x. wp (f x) (\<lambda>_ c'. command_in_progress c' \<and> tick c \<le> tick c' \<and> tick c' \<le> tick c + (j + k)) (\<lambda>_. False))
      (\<lambda>_. False) c"
  proof (rule wp_mono [OF promptD [OF m c]])
    fix x and c' :: ag_connection assume c': "command_in_progress c' \<and> tick c \<le> tick c' \<and> tick c' \<le> tick c + j"
    then show "wp (f x) (\<lambda>_ c'. command_in_progress c' \<and> tick c \<le> tick c' \<and> tick c' \<le> tick c + (j + k)) (\<lambda>_. False) c'"
      by (intro wp_mono [OF promptD [OF f]]) auto
  qed simp
qed

lemma prompt_ret: "prompt 0 (ret x)"
  by (simp add: prompt_def wp_ret)

lemma prompt_gets: "prompt 0 (gets f)"
  by (simp add: prompt_def wp_gets)

lemma prompt_modify:
  "(\<And>c. tick (f c) = tick c) \<Longrightarrow> (\<And>c. command_in_progress c \<Longrightarrow> command_in_progress (f c)) \<Longrightarrow> prompt 0 (modify f)"
  by (simp add: prompt_def wp_modify)

lemma prompt_log: "prompt 0 (ag_log l m)"
  by (simp add: prompt_def wp_ag_log)

lemma prompt_if: "(b \<Longrightarrow> prompt k m) \<Longrightarrow> (\<not> b \<Longrightarrow> prompt k m') \<Longrightarrow> prompt k (if b then m else m')"
  by simp

lemma prompt_option: "prompt k m \<Longrightarrow> (\<And>x. prompt k (f x)) \<Longrightarrow> prompt k (case v of None \<Rightarrow> m | Some x \<Rightarrow> f x)"
  by (cases v) simp_all

lemma prompt_prod: "(\<And>x y. prompt k (f x y)) \<Longrightarrow> prompt k (case p of (x, y) \<Rightarrow> f x y)"
  by (cases p) simp

lemma prompt_list: "prompt k m \<Longrightarrow> (\<And>x xs. prompt k (f x xs)) \<Longrightarrow> prompt k (case v of [] \<Rightarrow> m | x # xs \<Rightarrow> f x xs)"
  by (cases v) simp_all

lemma prompt_mono: "prompt j m \<Longrightarrow> j \<le> k \<Longrightarrow> prompt k m"
  unfolding prompt_def [of k] by (auto intro: wp_mono [OF promptD])

lemma prompt_bind0: "prompt 0 m \<Longrightarrow> (\<And>x. prompt 0 (f x)) \<Longrightarrow> prompt 0 (bind m f)"
  using prompt_bind [of 0 m 0 f] by simp

lemmas prompt_rules =
  prompt_bind0 prompt_if prompt_option prompt_prod prompt_list prompt_ret prompt_gets prompt_modify prompt_log

text \<open>While a command is in progress no handler sends another one.\<close>

lemma set_interlock_prompt: "prompt 0 (set_interlock send b)"
  by (auto simp: prompt_def set_interlock_def wp_rules)

lemma handle_status_prompt: "prompt 0 (handle_status send line)"
  unfolding handle_status_def handle_transmit_def handle_interlock_def set_antenna_def log_decision_def
  by (intro prompt_rules set_interlock_prompt) (simp_all add: set_frequency_def Let_def)

lemma cache_prompt: "prompt 0 (take_response q)" "prompt 0 (save_response q code body)"
  unfolding take_response_def save_response_def by (intro prompt_rules; simp)+

subsection \<open>A network that behaves as documented\<close>

text \<open>
  \<^verbatim>\<open>poll\<close> reports a descriptor as ready only for the events asked for (reading, or writing) or for an
  error, as its documentation says; here, for a descriptor it was asked to read. And \<^verbatim>\<open>send\<close> is not interrupted.
\<close>

definition polite :: "env \<Rightarrow> bool" where
  "polite E \<longleftrightarrow>
     (\<forall>t ev. env_poll E t = Poll_ready ev \<longrightarrow> POLLIN ev \<or> POLLERR ev \<or> POLLHUP ev \<or> POLLNVAL ev)
       \<and> (\<forall>t. env_send E t \<noteq> Sys_error EINTR)"

lemma extract_line_prompt: "prompt 0 (extract_line len)"
  unfolding extract_line_def Let_def by (intro prompt_rules) simp_all

lemma read_line_prompt:
  assumes "polite E"
  shows "prompt 2 (read_line E (Suc n) len)"
proof -
  have poll: "prompt 2 (poll_and_receive E (Suc n) len)"
    unfolding prompt_def
  proof (intro allI impI)
    fix c :: ag_connection assume c: "command_in_progress c"
    have got: "wp (extract_line len) (\<lambda>_ c'. command_in_progress c' \<and> tick c \<le> tick c' \<and> tick c' \<le> tick c + 2) (\<lambda>_. False)
        (c\<lparr>tick := Suc (Suc (tick c)), receive_buffer := b\<rparr>)" for b
      by (rule wp_mono [OF promptD [OF extract_line_prompt]]) (use c in auto)
    show "wp (poll_and_receive E (Suc n) len)
        (\<lambda>_ c'. command_in_progress c' \<and> tick c \<le> tick c' \<and> tick c' \<le> tick c + 2) (\<lambda>_. False) c"
      using assms c got by (auto simp: polite_def wp_rules Let_def simp del: wire_limits split: poll_result.split sysret.split)
  qed
  have tail: "prompt (0 + 2) (bind (gets receive_buffer) (\<lambda>buffer.
      if length buffer = AG_LINE_BUFFER
      then bind (ag_log AG_LOG_ERROR Msg_unterminated_line) (\<lambda>_. ret (- 1, []))
      else poll_and_receive E (Suc n) len))"
    by (rule prompt_bind [OF prompt_gets])
      (intro prompt_if poll prompt_mono [OF prompt_bind0 [OF prompt_log prompt_ret]], simp)
  have "prompt (0 + 2) (read_line E (Suc n) len)"
    unfolding read_line_def
    by (rule prompt_bind [OF extract_line_prompt], intro prompt_prod prompt_if tail [simplified add_0] prompt_mono [OF prompt_ret]) simp
  then show ?thesis by (simp only: add_0)
qed

lemma send_all_prompt:
  "polite E \<Longrightarrow> length data < n \<Longrightarrow> prompt (length data) (send_all E n data)"
proof (induction n arbitrary: data)
  case (Suc n)
  have rest: "wp (send_all E n (drop j data))
      (\<lambda>_ c'. command_in_progress c' \<and> tick c \<le> tick c' \<and> tick c' \<le> tick c + length data) (\<lambda>_. False)
      (c\<lparr>tick := Suc (tick c), trace := tr\<rparr>)"
    if "command_in_progress c" "0 < j" "data \<noteq> []" for j and c :: ag_connection and tr
  proof (rule wp_mono [OF promptD [OF Suc.IH [of "drop j data"]]])
    show "length (drop j data) < n" using Suc.prems(2) that by (cases data) auto
    fix x :: int and c' :: ag_connection
    assume "command_in_progress c' \<and> tick (c\<lparr>tick := Suc (tick c), trace := tr\<rparr>) \<le> tick c'
        \<and> tick c' \<le> tick (c\<lparr>tick := Suc (tick c), trace := tr\<rparr>) + length (drop j data)"
    then show "command_in_progress c' \<and> tick c \<le> tick c' \<and> tick c' \<le> tick c + length data"
      using \<open>0 < j\<close> \<open>data \<noteq> []\<close> by (cases data) auto
  qed (use Suc.prems(1) that(1) in simp_all)
  show ?case unfolding prompt_def
  proof (intro allI impI)
    fix c :: ag_connection assume c: "command_in_progress c"
    show "wp (send_all E (Suc n) data)
      (\<lambda>_ c'. command_in_progress c' \<and> tick c \<le> tick c' \<and> tick c' \<le> tick c + length data) (\<lambda>_. False) c"
      using c Suc.prems(1) rest [OF c]
      by (cases "env_send E (tick c)") (cases data; force simp: polite_def wp_rules Let_def)+
  qed
qed simp

subsection \<open>The deadline\<close>

text \<open>
  When the environment reaches tick \<open>T\<close> the clock has passed \<open>deadline\<close>, by less than the 24 days that fit into
  32 bits of milliseconds, for the few calls that one more round takes.
\<close>

definition passed_at :: "env \<Rightarrow> nat \<Rightarrow> int \<Rightarrow> bool" where
  "passed_at E T deadline \<longleftrightarrow>
     (\<forall>t. T \<le> t \<longrightarrow> t < T + 6 \<longrightarrow> deadline \<le> clock_at E t \<and> clock_at E t < deadline + 2 ^ 31)"

lemma remaining_passed: "deadline \<le> now \<Longrightarrow> now < deadline + 2 ^ 31 \<Longrightarrow> remaining_ms deadline now \<le> 0"
proof -
  define d where "d = deadline - now"
  assume "deadline \<le> now" "now < deadline + 2 ^ 31"
  then have "- (2 ^ 31) \<le> d" "d < 2 ^ 31" "d \<le> 0" by (simp_all add: d_def)
  then have "sint (word_of_int d :: 32 word) = d"
    by (simp add: int_word_sint)
  then show ?thesis using \<open>d \<le> 0\<close> by (simp add: remaining_ms_def d_def)
qed

lemma cleanup_or_stop:
  "command_in_progress c \<Longrightarrow>
   (\<And>stop c'. command_in_progress c' \<Longrightarrow> tick c \<le> tick c' \<Longrightarrow> tick c' \<le> Suc (tick c) \<Longrightarrow> Q stop c') \<Longrightarrow>
    wp (if cleanup then ret False else read_stop E) Q C c"
  for c :: ag_connection
  by (cases cleanup) (simp_all add: wp_ret wp_read_stop)

lemma await_returns:
  assumes E: "polite E" "passed_at E T deadline"
  shows "command_in_progress c \<Longrightarrow> tick c \<le> T + 4 \<Longrightarrow> T - tick c + 1 < n \<Longrightarrow>
    wp (await_response E send n command len cleanup q deadline) (\<lambda>_ c'. tick c' \<le> T + 6) (\<lambda>_. False) c"
proof (induction n arbitrary: c)
  case (Suc n)
  then obtain k where k: "n = Suc k" by (cases n) auto
  let ?again = "await_response E send n command len cleanup q deadline"
  have again: "wp (bind m (\<lambda>x. if b x then ret (- 1, []) else ?again)) (\<lambda>_ c'. tick c' \<le> T + 6) (\<lambda>_. False) c'"
    if m: "prompt 0 m" and c': "command_in_progress c'" "tick c < tick c'" "tick c' \<le> T + 4" "tick c < T"
    for c' :: ag_connection and b and m :: "'x conn_prog"
    unfolding wp_bind
    by (rule wp_mono [OF promptD [OF m c'(1)]]) (use c' Suc.prems in \<open>auto simp: wp_if wp_ret intro!: Suc.IH\<close>)
  let ?on_line = "\<lambda>(r :: int) line. if r < 0 then bind (ag_log AG_LOG_ERROR Msg_closed_awaiting) (\<lambda>_. ret (- 1, []))
       else if r = 0 then ret (- 1, [])
       else
     bind (ag_log AG_LOG_DEBUG (Msg_line line)) (\<lambda>_.
       case parse_response line of
         Some (response_sequence, code, body) \<Rightarrow>
           if response_sequence \<noteq> q
           then bind (save_response response_sequence code body) (\<lambda>_. ?again)
           else accept_response command code body len
       | None \<Rightarrow>
           bind (handle_status send line) (\<lambda>rc. if rc \<noteq> 0 \<and> \<not> cleanup then ret (- 1, []) else ?again))"
  have line: "wp (?on_line r line)
       (\<lambda>_ c'. tick c' \<le> T + 6) (\<lambda>_. False) c'"
    if c': "command_in_progress c'" "tick c < tick c'" "tick c' \<le> T + 4" "tick c < T"
    for c' :: ag_connection and r :: int and line
    using again [of "save_response q' code body" "c'\<lparr>trace := t\<rparr>" "\<lambda>_. False" for q' code body t, OF cache_prompt(2)]
      again [of "handle_status send line" "c'\<lparr>trace := t\<rparr>" "\<lambda>rc. rc \<noteq> 0 \<and> \<not> cleanup" for t, OF handle_status_prompt] c'
    by (auto simp: wp_if wp_ret wp_ag_log wp_bind [of "ag_log l m" for l m] accept_response_def simp del: await_response.simps
      split: option.split)
  have open_end: "wp (bind (take_response q) (\<lambda>saved.
       case saved of
         Some (code, body) \<Rightarrow> accept_response command code body len
       | None \<Rightarrow>
           if remaining_ms deadline (clock_at E t) \<le> 0
           then bind (ag_log AG_LOG_ERROR Msg_no_answer) (\<lambda>_. ret (- 1, []))
           else bind (read_line E n AG_LINE_BUFFER) (\<lambda>(r, line). f r line)))
       (\<lambda>_ c'. tick c' \<le> T + 6) (\<lambda>_. False) c'"
    if c': "command_in_progress c'" "tick c < tick c'" "tick c' = Suc t" "t \<le> tick c + 1"
      and f: "\<And>r line c'. command_in_progress c' \<Longrightarrow> tick c < tick c' \<Longrightarrow> tick c' \<le> T + 4 \<Longrightarrow> tick c < T \<Longrightarrow>
        wp (f r line) (\<lambda>_ c'. tick c' \<le> T + 6) (\<lambda>_. False) c'"
    for c' :: ag_connection and t f
  proof -
    have read: "wp (read_line E n AG_LINE_BUFFER) (\<lambda>x. wp (case x of (r, line) \<Rightarrow> f r line) (\<lambda>_ c'. tick c' \<le> T + 6) (\<lambda>_. False))
        (\<lambda>_. False) c''"
      if "command_in_progress c''" "tick c'' = Suc t" "\<not> remaining_ms deadline (clock_at E t) \<le> 0" for c'' :: ag_connection
    proof -
      have "\<not> T \<le> t"
        using E(2) remaining_passed [of deadline "clock_at E t"] that(3) Suc.prems(2) c'(4) by (auto simp: passed_at_def)
      then show ?thesis
        unfolding k
        by (intro wp_mono [OF promptD [OF read_line_prompt [OF E(1)] that(1)]])
          (use that(2) c' in \<open>auto intro!: f split: prod.split\<close>)
    qed
    show ?thesis
      unfolding wp_bind [of "take_response q"]
      by (rule wp_mono [OF promptD [OF cache_prompt(1) c'(1)]])
        (use read c' Suc.prems(2) in \<open>auto simp: wp_if wp_ret wp_ag_log wp_bind accept_response_def split: option.split\<close>)
  qed
  show ?case
    unfolding await_response.simps wp_bind [of "if cleanup then ret False else read_stop E"]
  proof (rule cleanup_or_stop)
    fix stop and c' :: ag_connection
    assume c': "command_in_progress c'" "tick c \<le> tick c'" "tick c' \<le> Suc (tick c)"
    show "wp (if stop then ret (- 1, []) else bind (monotonic_milliseconds E) (\<lambda>now. bind (take_response q) (\<lambda>saved.
       case saved of
         Some (code, body) \<Rightarrow> accept_response command code body len
       | None \<Rightarrow>
           if remaining_ms deadline now \<le> 0
           then bind (ag_log AG_LOG_ERROR Msg_no_answer) (\<lambda>_. ret (- 1, []))
           else
           bind (read_line E n AG_LINE_BUFFER) (\<lambda>(r, line). ?on_line r line))))
       (\<lambda>_ c'. tick c' \<le> T + 6) (\<lambda>_. False) c'"
    proof (cases stop)
      case True
      then show ?thesis using c' Suc.prems(2) by (simp add: wp_ret)
    next
      case False
      show ?thesis
        unfolding if_not_P [OF False] wp_bind [of "monotonic_milliseconds E"] wp_monotonic
        by (intro open_end line) (use c' in simp_all)
    qed
  qed (use Suc.prems in simp)
qed simp


text \<open>A command, from the moment it is sent.\<close>

lemma once_returns:
  assumes E: "polite E" "passed_at E T (clock_at E (tick c) + AG_COMMAND_TIMEOUT_MS)" and c: "command_in_progress c"
    and T: "tick c + AG_COMMAND_SIZE < T" and n: "T - tick c < n"
  shows "wp (send_command_once E send n command len cleanup) (\<lambda>_ c'. tick c' \<le> T + 6) (\<lambda>_. False) c"
proof -
  have T': "tick c + 1024 < T" using T by simp
  have sent: "wp (send_all E n (command_frame q command)) (\<lambda>x s. (x \<noteq> 0 \<longrightarrow> tick s \<le> T + 6) \<and>
       (x = 0 \<longrightarrow> wp (await_response E send n command len b q (clock_at E (tick c) + AG_COMMAND_TIMEOUT_MS))
         (\<lambda>_ c'. tick c' \<le> T + 6) (\<lambda>_. False) s)) (\<lambda>_. False) c'"
    if "length (command_frame q command) < AG_COMMAND_SIZE" "command_in_progress c'" "tick c' = Suc (Suc (tick c))"
    for q b and c' :: ag_connection
  proof -
    have frame: "length (command_frame q command) < 1024" using that(1) by simp
    then have "length (command_frame q command) < n" using T' n by simp
    from send_all_prompt [OF E(1) this] show ?thesis
      by (rule wp_mono [OF promptD [OF _ that(2)]])
        (use frame T' n that(3) in \<open>auto simp: wp_rules simp del: await_response.simps wire_limits intro!: await_returns [OF E]\<close>)
  qed
  have start: "tick (c\<lparr>sequence := q\<rparr>) = tick c" "sequence (c\<lparr>sequence := q\<rparr>) = q" for q
    by simp_all
  show ?thesis
    unfolding send_command_once_def wp_bind wp_if wp_modify wp_gets wp_monotonic wp_read_stop wp_ag_log start
    using c T' by (auto simp: wp_ret linorder_not_le simp del: wire_limits intro!: sent)
qed

lemma closing_returns:
  assumes E: "polite E" "passed_at E T (clock_at E (tick c) + AG_COMMAND_TIMEOUT_MS)"
    and T: "tick c + AG_COMMAND_SIZE < T" and n: "T - tick c + 1 < n"
  shows "wp (close_session (send_command E n)) (\<lambda>_ c'. tick c' \<le> T + 6) (\<lambda>_. False) c"
proof -
  obtain k where k: "n = Suc k" using n by (cases n) auto
  have removal: "wp (send_command E n command 0 True) (\<lambda>_ c'. tick c' \<le> T + 6) (\<lambda>_. False) c" for command
  proof -
    let ?c = "c\<lparr>command_in_progress := True\<rparr>"
    have "wp (send_command_once E (send_command E k) k command 0 True) (\<lambda>_ c'. tick c' \<le> T + 6) (\<lambda>_. False) ?c"
      by (rule once_returns) (use E T n k in simp_all)
    then show ?thesis
      unfolding k send_command.simps using T
      by (auto simp: wp_rules simp del: wire_limits elim!: wp_mono split: prod.split)
  qed
  show ?thesis
    unfolding close_session_def remove_interlock_def
    using T by (auto simp: wp_rules simp del: wire_limits intro!: wp_mono [OF removal] split: prod.split)
qed


text \<open>A radio that never stops sending status lines, each call a second after the one before.\<close>

definition chattering_env :: env where
  "chattering_env = (answering (''S0|x'' @ [LF]))\<lparr>env_clock := (\<lambda>t. (int t, 0))\<rparr>"


end
