(* ===== verification/Stop_Time.thy ===== *)
theory Stop_Time
  imports Fuel Command_Time
begin

text \<open>
  A signal stops the daemon: every loop looks at the flag, every call between two looks takes a bounded
  number of ticks, so the program returns soon after the signal, whatever the radio sends meanwhile.
\<close>

subsection \<open>How long an operation goes on\<close>

text \<open>
  \<open>S\<close> is the tick from which on the signal has arrived. Started at most \<open>j\<close> ticks after it, in a state with \<open>J\<close>, the
  program \<open>m\<close> returns in one, or is cut off, at most \<open>k\<close> ticks after it.
\<close>

definition until :: "('w world_scheme \<Rightarrow> bool) \<Rightarrow> nat \<Rightarrow> nat \<Rightarrow> nat \<Rightarrow> ('w world_scheme, 'a) prog \<Rightarrow> bool" where
  "until J S j k m \<longleftrightarrow> (\<forall>w. J w \<longrightarrow> tick w \<le> S + j \<longrightarrow>
     wp m (\<lambda>_ w'. J w' \<and> tick w' \<le> S + k) (\<lambda>w'. tick w' \<le> S + k) w)"

text \<open>At most \<open>k\<close> ticks more than the later of the signal and the start.\<close>

definition short :: "('w world_scheme \<Rightarrow> bool) \<Rightarrow> nat \<Rightarrow> nat \<Rightarrow> ('w world_scheme, 'a) prog \<Rightarrow> bool" where
  "short J S k m \<longleftrightarrow> (\<forall>j. until J S j (j + k) m)"

text \<open>A loop that looks at the flag first: at once when the signal has arrived, else at most \<open>k\<close> ticks after it.\<close>

definition winds :: "('w world_scheme \<Rightarrow> bool) \<Rightarrow> nat \<Rightarrow> nat \<Rightarrow> ('w world_scheme, 'a) prog \<Rightarrow> bool" where
  "winds J S k m \<longleftrightarrow> (\<forall>j. until J S j (max k (Suc j)) m)"

lemma untilD:
  "until J S j k m \<Longrightarrow> J w \<Longrightarrow> tick w \<le> S + j \<Longrightarrow> wp m (\<lambda>_ w'. J w' \<and> tick w' \<le> S + k) (\<lambda>w'. tick w' \<le> S + k) w"
  by (simp add: until_def)

lemma until_mono: "until J S j k m \<Longrightarrow> j' \<le> j \<Longrightarrow> k \<le> k' \<Longrightarrow> until J S j' k' m"
  unfolding until_def [of _ _ j'] by (auto intro!: wp_mono [OF untilD])

lemma shortI: "(\<And>j. until J S j (j + k) m) \<Longrightarrow> short J S k m"
  by (simp add: short_def)

lemma shortD: "short J S k m \<Longrightarrow> until J S j (j + k) m"
  by (simp add: short_def)

lemma until_short: "short J S i m \<Longrightarrow> j + i \<le> k \<Longrightarrow> until J S j k m"
  by (rule until_mono [OF shortD]) auto

lemma short_mono: "short J S j m \<Longrightarrow> j \<le> k \<Longrightarrow> short J S k m"
  by (rule shortI) (simp add: until_short)

lemma until_bind:
  assumes "short J S i m" "\<And>x. until J S (j + i) k (f x)" "j + i \<le> k"
  shows "until J S j k (bind m f)"
  unfolding until_def wp_bind
proof (intro allI impI)
  fix w assume "J w" "tick w \<le> S + j"
  from untilD [OF shortD [OF assms(1)] this]
  show "wp m (\<lambda>x. wp (f x) (\<lambda>_ w'. J w' \<and> tick w' \<le> S + k) (\<lambda>w'. tick w' \<le> S + k)) (\<lambda>w'. tick w' \<le> S + k) w"
    by (rule wp_mono) (use assms(3) in \<open>auto intro: untilD [OF assms(2)]\<close>)
qed

lemma until_ret: "j \<le> k \<Longrightarrow> until J S j k (ret x)"
  by (simp add: until_def wp_ret)

lemma until_cut: "j \<le> k \<Longrightarrow> until J S j k cut"
  by (simp add: until_def wp_cut)

lemma until_gets: "j \<le> k \<Longrightarrow> (\<And>x. until J S j k (f x)) \<Longrightarrow> until J S j k (bind (gets g) f)"
  by (simp add: until_def wp_bind wp_gets)

lemma until_modify:
  "(\<And>w. J w \<Longrightarrow> J (g w)) \<Longrightarrow> (\<And>w. tick (g w) = tick w) \<Longrightarrow> until J S j k (f ()) \<Longrightarrow> until J S j k (bind (modify g) f)"
  by (simp add: until_def wp_bind wp_modify)

lemma until_modify_only: "(\<And>w. J w \<Longrightarrow> J (g w)) \<Longrightarrow> (\<And>w. tick (g w) = tick w) \<Longrightarrow> j \<le> k \<Longrightarrow> until J S j k (modify g)"
  by (simp add: until_def wp_modify)

lemma until_if: "(b \<Longrightarrow> until J S j k m) \<Longrightarrow> (\<not> b \<Longrightarrow> until J S j k m') \<Longrightarrow> until J S j k (if b then m else m')"
  by simp

lemma until_option: "until J S j k m \<Longrightarrow> (\<And>x. until J S j k (f x)) \<Longrightarrow> until J S j k (case v of None \<Rightarrow> m | Some x \<Rightarrow> f x)"
  by (cases v) simp_all

lemma until_prod: "(\<And>x y. until J S j k (f x y)) \<Longrightarrow> until J S j k (case p of (x, y) \<Rightarrow> f x y)"
  by (cases p) simp

lemma until_list: "until J S j k m \<Longrightarrow> (\<And>x xs. until J S j k (f x xs)) \<Longrightarrow> until J S j k (case v of [] \<Rightarrow> m | x # xs \<Rightarrow> f x xs)"
  by (cases v) simp_all

lemma until_sysret:
  "(\<And>e. until J S j k (f e)) \<Longrightarrow> (\<And>x. until J S j k (g x)) \<Longrightarrow>
    until J S j k (case r of Sys_error e \<Rightarrow> f e | Sys_ok x \<Rightarrow> g x)"
  by (cases r) simp_all

lemma until_poll:
  "(\<And>e. until J S j k (f e)) \<Longrightarrow> until J S j k m \<Longrightarrow> (\<And>ev. until J S j k (g ev)) \<Longrightarrow>
    until J S j k (case r of Poll_error e \<Rightarrow> f e | Poll_timeout \<Rightarrow> m | Poll_ready ev \<Rightarrow> g ev)"
  by (cases r) simp_all

lemma until_discovery:
  "until J S j k m \<Longrightarrow> (\<And>radio. until J S j k (f radio)) \<Longrightarrow> until J S j k m2 \<Longrightarrow>
    until J S j k (case r of AG_DISCOVERY_STOPPED \<Rightarrow> m | AG_DISCOVERY_MATCHED radio \<Rightarrow> f radio | AG_DISCOVERY_ERROR \<Rightarrow> m2)"
  by (cases r) simp_all

lemma until_bind_if:
  "(b \<Longrightarrow> until J S j k (bind m f)) \<Longrightarrow> (\<not> b \<Longrightarrow> until J S j k (bind m' f)) \<Longrightarrow> until J S j k (bind (if b then m else m') f)"
  by simp

lemma until_bind_poll:
  "(\<And>e. until J S j k (bind (g e) f)) \<Longrightarrow> until J S j k (bind m f) \<Longrightarrow> (\<And>ev. until J S j k (bind (h ev) f)) \<Longrightarrow>
    until J S j k (bind (case r of Poll_error e \<Rightarrow> g e | Poll_timeout \<Rightarrow> m | Poll_ready ev \<Rightarrow> h ev) f)"
  by (cases r) simp_all

lemma until_bind_option:
  "until J S j k (bind m f) \<Longrightarrow> (\<And>x. until J S j k (bind (g x) f)) \<Longrightarrow>
    until J S j k (bind (case v of None \<Rightarrow> m | Some x \<Rightarrow> g x) f)"
  by (cases v) simp_all

lemma until_bind_ret: "until J S j k (f x) \<Longrightarrow> until J S j k (bind (ret x) f)"
  by (simp add: until_def wp_bind wp_ret)

lemma until_bind_bind: "until J S j k (bind m (\<lambda>x. bind (g x) f)) \<Longrightarrow> until J S j k (bind (bind m g) f)"
  unfolding until_def wp_bind .

lemma winds_ret: "winds J S k (ret x)"
  by (simp add: winds_def until_ret)

lemma winds_cut: "winds J S k cut"
  by (simp add: winds_def until_cut)

lemma winds_gets: "(\<And>x. winds J S k (f x)) \<Longrightarrow> winds J S k (bind (gets g) f)"
  by (simp add: winds_def until_gets)

lemma winds_if: "(b \<Longrightarrow> winds J S k m) \<Longrightarrow> (\<not> b \<Longrightarrow> winds J S k m') \<Longrightarrow> winds J S k (if b then m else m')"
  by simp

lemma until_winds: "winds J S i m \<Longrightarrow> Suc j \<le> k \<Longrightarrow> i \<le> k \<Longrightarrow> until J S j k m"
  unfolding winds_def by (rule until_mono [where j = j and k = "max i (Suc j)"]) auto

lemma winds_short: "winds J S k m \<Longrightarrow> 1 \<le> k \<Longrightarrow> short J S k m"
  by (rule shortI, rule until_winds) auto

lemmas until_cases =
  until_bind_bind until_bind_ret until_bind_if until_bind_poll until_bind_option
  until_if until_option until_prod until_list until_sysret until_poll until_discovery

subsection \<open>Calls and looks at the flag\<close>

text \<open>A property of states that no call and no message changes.\<close>

locale lasting =
  fixes J :: "'w world_scheme \<Rightarrow> bool"
  assumes tick_ok: "J w \<Longrightarrow> J (w\<lparr>tick := t\<rparr>)"
    and stop_ok: "J w \<Longrightarrow> J (w\<lparr>stop_requested := b\<rparr>)"
    and trace_ok: "J w \<Longrightarrow> J (w\<lparr>trace := tr\<rparr>)"
begin

lemma sys_until: "Suc j \<le> k \<Longrightarrow> (\<And>x. until J S (Suc j) k (f x)) \<Longrightarrow> until J S j k (bind (sys g) f)"
  by (simp add: until_def wp_bind wp_sys tick_ok)

lemma clock_until: "Suc j \<le> k \<Longrightarrow> (\<And>x. until J S (Suc j) k (f x)) \<Longrightarrow> until J S j k (bind (monotonic_milliseconds E) f)"
  by (simp add: until_def wp_bind wp_monotonic tick_ok)

lemma stop_until: "Suc j \<le> k \<Longrightarrow> (\<And>x. until J S (Suc j) k (f x)) \<Longrightarrow> until J S j k (bind (read_stop E) f)"
  using tick_ok stop_ok by (simp add: until_def wp_bind wp_read_stop)

lemma log_until: "until J S j k (f ()) \<Longrightarrow> until J S j k (bind (ag_log l m) f)"
  by (simp add: until_def wp_bind wp_ag_log trace_ok)

lemma emit_until: "until J S j k (f ()) \<Longrightarrow> until J S j k (bind (emit e) f)"
  by (simp add: until_def wp_bind wp_emit trace_ok)

lemma close_until: "until J S j k (f ()) \<Longrightarrow> until J S j k (bind (close_fd fd) f)"
  by (simp add: until_def wp_bind wp_close_fd trace_ok)

lemma only_until:
  "j \<le> k \<Longrightarrow> until J S j k (ag_log l m)" "j \<le> k \<Longrightarrow> until J S j k (emit e)" "j \<le> k \<Longrightarrow> until J S j k (close_fd fd)"
  "Suc j \<le> k \<Longrightarrow> until J S j k (sys g)" "Suc j \<le> k \<Longrightarrow> until J S j k (read_stop E)"
  by (simp_all add: until_def wp_ag_log wp_emit wp_close_fd wp_sys wp_read_stop tick_ok stop_ok trace_ok)

lemmas until_rules =
  until_cases until_ret until_cut until_gets sys_until clock_until stop_until log_until emit_until close_until only_until

text \<open>A loop that looks at the flag before each round.\<close>

lemma loop_winds:
  assumes signal: "\<And>t. S \<le> t \<Longrightarrow> env_signal E t" and "short J S 0 m" "until J S 0 k rest"
  shows "winds J S k (bind (read_stop E) (\<lambda>stop. if stop then m else rest))"
  unfolding winds_def until_def
proof (intro allI impI)
  fix j w assume w: "J w" "tick w \<le> S + j"
  let ?w = "w\<lparr>tick := Suc (tick w), stop_requested := stop_seen E w\<rparr>"
  let ?Q = "\<lambda>w'. tick w' \<le> S + max k (Suc j)"
  have J: "J ?w" using w(1) tick_ok stop_ok by blast
  have fin: "wp m (\<lambda>_ w'. J w' \<and> ?Q w') ?Q ?w"
    by (rule wp_mono [OF untilD [OF shortD [OF assms(2)] J, of "Suc j"]]) (use w(2) in auto)
  have "wp rest (\<lambda>_ w'. J w' \<and> ?Q w') ?Q ?w" if "\<not> stop_seen E w"
  proof -
    have "tick ?w \<le> S + 0" using that signal [of "tick w"] by (cases "S \<le> tick w") (auto simp: stop_seen_def)
    from untilD [OF assms(3) J this] show ?thesis by (rule wp_mono) auto
  qed
  then show "wp (bind (read_stop E) (\<lambda>stop. if stop then m else rest)) (\<lambda>_ w'. J w' \<and> ?Q w') ?Q w"
    using fin by (cases "stop_seen E w") (simp_all add: wp_bind wp_read_stop)
qed

text \<open>Sending, connecting, sleeping and waiting for an announcement.\<close>

lemma send_all_short: "polite E \<Longrightarrow> short J S (length data) (send_all E n data)"
proof (induction n arbitrary: data)
  case 0
  show ?case by (intro shortI) (simp add: until_ret until_cut)
next
  case (Suc n)
  note IH = until_short [OF Suc.IH [OF Suc.prems]]
  have again: "until J S (Suc j) (j + length data) (send_all E n (drop i data))" if "0 < i" "data \<noteq> []" for i j
    using that by (intro IH) (cases data, auto)
  have all: "until J S (Suc j) (j + length data) (send_all E n [])" if "data \<noteq> []" for j
    using that by (intro IH) (cases data, auto)
  have tick: "until J S (Suc j) (j + length data) (ret x)" if "data \<noteq> []" for j and x :: int
    using that by (intro until_ret) (cases data, auto)
  show ?case
  proof (intro shortI)
    fix j
    have "until J S (Suc j) (j + length data)
        (case r of Sys_error e \<Rightarrow> if e = EINTR then send_all E n data else ret (- 1)
         | Sys_ok i \<Rightarrow> let sent = min i (length data)
             in if sent = 0 then ret (- 1) else bind (emit (Sent (take sent data))) (\<lambda>_. send_all E n (drop sent data)))"
      if "data \<noteq> []" "r \<noteq> Sys_error EINTR" for r
      using that by (cases r) (auto simp: Let_def min_def intro!: tick again all emit_until)
    moreover have "\<And>t. env_send E t \<noteq> Sys_error EINTR" using Suc.prems by (simp add: polite_def)
    ultimately show "until J S j (j + length data) (send_all E (Suc n) data)"
      by (auto simp: until_def wp_bind wp_sys wp_ret tick_ok)
  qed
qed

lemma try_address_short: "short J S 7 (try_address E)"
  unfolding try_address_def give_up_def by (intro shortI until_rules) simp_all

lemma try_addresses_winds:
  assumes signal: "\<And>t. S \<le> t \<Longrightarrow> env_signal E t"
  shows "winds J S 8 (try_addresses E i)"
proof (induction i)
  case 0
  show ?case by (simp add: winds_def until_ret)
next
  case (Suc i)
  show ?case unfolding try_addresses.simps
    by (rule loop_winds [OF signal]) (auto intro!: shortI until_rules until_bind [OF try_address_short] until_winds [OF Suc.IH])
qed

lemma connect_short:
  assumes "\<And>t. S \<le> t \<Longrightarrow> env_signal E t"
  shows "short J S 12 (connect_socket E cfg)"
  unfolding connect_socket_def
  by (intro shortI until_rules until_bind [OF winds_short [OF try_addresses_winds [OF assms]]]) simp_all

lemma sleep_short:
  assumes signal: "\<And>t. S \<le> t \<Longrightarrow> env_signal E t"
  shows "short J S 2 (sleep_interval E n)"
proof (induction n)
  case (Suc n)
  show ?case
  proof (intro shortI, unfold until_def, intro allI impI)
    fix j w assume w: "J w" "tick w \<le> S + j"
    let ?w = "w\<lparr>tick := Suc (Suc (tick w)), stop_requested := False\<rparr>"
    have "wp (sleep_interval E n) (\<lambda>_ w'. J w' \<and> tick w' \<le> S + (j + 2)) (\<lambda>w'. tick w' \<le> S + (j + 2)) ?w"
      if "\<not> env_signal E (Suc (tick w))"
    proof -
      have "tick ?w \<le> S + 0" using that signal [of "Suc (tick w)"] by (cases "S \<le> Suc (tick w)") auto
      from untilD [OF shortD [OF Suc.IH] _ this] show ?thesis
        by (rule wp_mono) (use w(1) in \<open>simp_all add: tick_ok stop_ok\<close>)
    qed
    then show "wp (sleep_interval E (Suc n)) (\<lambda>_ w'. J w' \<and> tick w' \<le> S + (j + 2)) (\<lambda>w'. tick w' \<le> S + (j + 2)) w"
      using w by (auto simp: wp_rules stop_seen_def tick_ok stop_ok trace_ok split: sysret.split)
  qed
qed (simp add: short_def until_cut)

lemma sleep_rounds_winds:
  assumes signal: "\<And>t. S \<le> t \<Longrightarrow> env_signal E t"
  shows "winds J S 3 (sleep_rounds E n i)"
proof (induction i)
  case 0
  show ?case by (simp add: winds_def until_ret)
next
  case (Suc i)
  show ?case unfolding sleep_rounds.simps
    by (rule loop_winds [OF signal]) (auto intro!: shortI until_rules until_bind [OF sleep_short [OF signal]] until_winds [OF Suc.IH])
qed

lemma discovery_poll_winds:
  assumes signal: "\<And>t. S \<le> t \<Longrightarrow> env_signal E t"
  shows "winds J S 3 (discovery_poll E n cfg fd)"
proof (induction n)
  case 0
  show ?case unfolding discovery_poll.simps
    by (rule loop_winds [OF signal]) (auto intro!: shortI until_rules)
next
  case (Suc n)
  show ?case unfolding discovery_poll.simps
    by (rule loop_winds [OF signal]) (auto intro!: shortI until_rules until_winds [OF Suc.IH])
qed

lemma discovery_wait_short:
  assumes "\<And>t. S \<le> t \<Longrightarrow> env_signal E t"
  shows "short J S 6 (ag_discovery_wait E n cfg)"
  unfolding ag_discovery_wait_def
  by (intro shortI until_rules until_short [OF winds_short [OF discovery_poll_winds [OF assms]]]) simp_all

end

interpretation always: lasting "\<lambda>_. True"
  by unfold_locales simp_all

interpretation busy: lasting command_in_progress
  by unfold_locales simp_all

subsection \<open>A command\<close>

text \<open>The functions of \<^verbatim>\<open>src/flex.c\<close> on a connection, while a command is in progress and while none is.\<close>

locale connected = lasting J for J :: "ag_connection \<Rightarrow> bool" +
  assumes buffer_ok: "J c \<Longrightarrow> J (c\<lparr>receive_buffer := b\<rparr>)"
begin

lemma extract_line_short: "short J S 0 (extract_line k)"
  unfolding extract_line_def Let_def
  by (intro shortI until_rules until_modify) (simp_all add: buffer_ok)

lemma poll_short: "polite E \<Longrightarrow> short J S 2 (poll_and_receive E n k)"
proof (induction n)
  case (Suc n)
  show ?case
  proof (intro shortI, unfold until_def, intro allI impI)
    fix j c assume c: "J c" "tick c \<le> S + j"
    have got: "wp (extract_line k) (\<lambda>_ c'. J c' \<and> tick c' \<le> S + (j + 2)) (\<lambda>c'. tick c' \<le> S + (j + 2))
        (c\<lparr>tick := Suc (Suc (tick c)), receive_buffer := b\<rparr>)" for b
      by (rule untilD [OF until_short [OF extract_line_short, of "j + 2"]]) (use c in \<open>simp_all add: tick_ok buffer_ok\<close>)
    show "wp (poll_and_receive E (Suc n) k) (\<lambda>_ c'. J c' \<and> tick c' \<le> S + (j + 2)) (\<lambda>c'. tick c' \<le> S + (j + 2)) c"
      using Suc.prems c got
      by (auto simp: polite_def wp_rules Let_def tick_ok trace_ok simp del: wire_limits split: poll_result.split sysret.split)
  qed
qed (simp add: short_def until_cut)

lemma read_line_short: "polite E \<Longrightarrow> short J S 2 (read_line E n k)"
  unfolding read_line_def
  by (intro shortI until_bind [OF extract_line_short] until_rules until_short [OF poll_short]) simp_all

end

interpretation always: connected "\<lambda>_. True"
  by unfold_locales simp_all

interpretation busy: connected command_in_progress
  by unfold_locales simp_all

lemma prompt_short: "prompt k m \<Longrightarrow> short command_in_progress S k m"
  by (intro shortI) (auto simp: until_def intro!: wp_mono [OF promptD])

lemma until_marked:
  fixes m :: "'a conn_prog"
  assumes "short command_in_progress S i m" "\<And>x. until (\<lambda>_. True) S (j + i) k (f x)" "j + i \<le> k"
  shows "until (\<lambda>_. True) S j k (bind (modify (\<lambda>c. c\<lparr>command_in_progress := True\<rparr>)) (\<lambda>_. bind m f))"
  unfolding until_def wp_bind wp_modify
proof (intro allI impI)
  fix c :: ag_connection assume "tick c \<le> S + j"
  then have "tick (c\<lparr>command_in_progress := True\<rparr>) \<le> S + j" by simp
  from untilD [OF shortD [OF assms(1)] _ this]
  show "wp m (\<lambda>x. wp (f x) (\<lambda>_ c'. True \<and> tick c' \<le> S + k) (\<lambda>c'. tick c' \<le> S + k)) (\<lambda>c'. tick c' \<le> S + k)
      (c\<lparr>command_in_progress := True\<rparr>)"
    by (rule wp_mono) (use assms(3) untilD [OF assms(2)] in auto)
qed

lemma accept_short: "short command_in_progress S 0 (accept_response command code body k)"
  unfolding accept_response_def by (intro shortI busy.until_rules) simp_all

lemma await_winds:
  assumes E: "polite E" and signal: "\<And>t. S \<le> t \<Longrightarrow> env_signal E t"
  shows "winds command_in_progress S 4 (await_response E send n command k False q deadline)"
proof (induction n)
  case 0
  show ?case by (simp add: winds_cut)
next
  case (Suc n)
  show ?case unfolding await_response.simps if_False simp_thms
    by (rule busy.loop_winds [OF signal])
      (auto intro!: shortI busy.until_rules until_bind [OF prompt_short [OF cache_prompt(1)]] until_bind [OF prompt_short [OF cache_prompt(2)]]
        until_short [OF accept_short] until_bind [OF busy.read_line_short [OF E]] until_bind [OF prompt_short [OF handle_status_prompt]] until_winds [OF Suc.IH])
qed

lemma once_short:
  assumes E: "polite E" and signal: "\<And>t. S \<le> t \<Longrightarrow> env_signal E t"
  shows "short command_in_progress S 1029 (send_command_once E send n command k False)"
proof -
  have sent: "short command_in_progress S 1023 (send_all E n (command_frame q command))"
    if "\<not> AG_COMMAND_SIZE \<le> length (command_frame q command)" for q
    by (rule short_mono [OF busy.send_all_short [OF E]]) (use that in simp)
  show ?thesis unfolding send_command_once_def
    by (intro shortI busy.until_rules until_modify until_bind [OF sent] until_winds [OF await_winds [OF E signal]]) simp_all
qed

lemma drain_winds:
  assumes E: "polite E" and signal: "\<And>t. S \<le> t \<Longrightarrow> env_signal E t"
  shows "winds (\<lambda>_. True) S 1030 (drain_interlock E send n)"
proof (induction n)
  case 0
  show ?case unfolding drain_interlock.simps
    by (intro winds_gets winds_if winds_ret always.loop_winds [OF signal]) (auto intro!: shortI always.until_rules)
next
  case (Suc n)
  show ?case unfolding drain_interlock.simps
    by (intro winds_gets winds_if winds_ret always.loop_winds [OF signal])
      (auto intro!: shortI always.until_rules until_modify until_marked [OF once_short [OF E signal]] until_winds [OF Suc.IH])
qed

lemma send_command_short:
  assumes E: "polite E" and signal: "\<And>t. S \<le> t \<Longrightarrow> env_signal E t"
  shows "short (\<lambda>_. True) S 2059 (send_command E n command k False)"
proof (cases n)
  case (Suc m)
  show ?thesis unfolding Suc send_command.simps
    by (intro shortI always.until_rules until_marked [OF once_short [OF E signal]] until_modify
        until_bind [OF winds_short [OF drain_winds [OF E signal]]]) simp_all
qed (simp add: short_def until_cut)

subsection \<open>A session\<close>

text \<open>The functions that send commands take at most a few of them.\<close>

definition short_sends :: "nat \<Rightarrow> nat \<Rightarrow> send \<Rightarrow> bool" where
  "short_sends S b send \<longleftrightarrow> (\<forall>command k. short (\<lambda>_. True) S b (send command k False))"

lemma short_sendsD: "short_sends S b send \<Longrightarrow> short (\<lambda>_. True) S b (send command k False)"
  by (simp add: short_sends_def)

lemma set_interlock_short: "short_sends S b send \<Longrightarrow> short (\<lambda>_. True) S b (set_interlock send ready)"
  unfolding set_interlock_def by (intro shortI always.until_rules until_modify_only until_bind [OF short_sendsD] until_modify) auto

lemma handle_status_short:
  assumes send: "short_sends S b send"
  shows "short (\<lambda>_. True) S b (handle_status send line)"
proof -
  note rules = always.until_rules until_modify until_modify_only until_short [OF set_interlock_short [OF send]]
  have "short (\<lambda>_. True) S b (handle_transmit send p)" for p
    unfolding handle_transmit_def set_antenna_def by (intro shortI rules) (simp_all add: set_frequency_def Let_def)
  moreover have "short (\<lambda>_. True) S b (handle_interlock send p)" for p
    unfolding handle_interlock_def log_decision_def by (intro shortI rules) simp_all
  moreover have "short (\<lambda>_. True) S b (ret 0 :: int conn_prog)" by (intro shortI until_ret) simp
  ultimately show ?thesis unfolding status_dispatch by simp
qed

lemma session_loop_winds:
  assumes E: "polite E" and signal: "\<And>t. S \<le> t \<Longrightarrow> env_signal E t" and send: "short_sends S b send"
  shows "winds (\<lambda>_. True) S (b + 3) (session_loop E send n)"
proof (induction n)
  case 0
  show ?case unfolding session_loop.simps
    by (intro always.loop_winds [OF signal]) (auto intro!: shortI always.until_rules)
next
  case (Suc n)
  show ?case unfolding session_loop.simps
    by (intro always.loop_winds [OF signal])
      (auto intro!: shortI always.until_rules until_bind [OF always.read_line_short [OF E]] until_bind [OF handle_status_short [OF send]]
        until_winds [OF Suc.IH])
qed

lemma send_commands_short: "short_sends S b send \<Longrightarrow> short (\<lambda>_. True) S (length cs * b) (send_commands send cs)"
proof (induction cs)
  case (Cons c cs)
  show ?case unfolding send_commands.simps
    by (intro shortI always.until_rules until_bind [OF short_sendsD [OF Cons.prems]] until_short [OF Cons.IH [OF Cons.prems]]) simp_all
qed (simp add: short_def until_ret)

lemma initialize_short:
  assumes send: "short_sends S b send"
  shows "short (\<lambda>_. True) S (6 * b) (initialize_session send)"
  unfolding initialize_session_def arm_interlock_def Let_def
  by (intro shortI always.until_rules until_modify until_bind [OF send_commands_short [OF send]] until_bind [OF short_sendsD [OF send]]
      until_bind [OF set_interlock_short [OF send]]) (simp_all add: subscriptions_def)

text \<open>
  Time passes: in any \<open>d\<close> calls, and the few after them, at least the 4 seconds of a command and less than the
  24 days that fit into 32 bits of milliseconds.
\<close>

definition time_passes :: "env \<Rightarrow> nat \<Rightarrow> bool" where
  "time_passes E d \<longleftrightarrow> AG_COMMAND_SIZE < d \<and> (\<forall>t i. i < 6 \<longrightarrow>
     clock_at E t + AG_COMMAND_TIMEOUT_MS \<le> clock_at E (t + d + i)
       \<and> clock_at E (t + d + i) < clock_at E t + AG_COMMAND_TIMEOUT_MS + 2 ^ 31)"

lemma time_passes_at:
  assumes "time_passes E d"
  shows "passed_at E (t + d) (clock_at E t + AG_COMMAND_TIMEOUT_MS)"
proof -
  have "t + d + (u - (t + d)) = u" "u - (t + d) < 6" if "t + d \<le> u" "u < t + d + 6" for u
    using that by auto
  then show ?thesis using assms unfolding passed_at_def time_passes_def by metis
qed

lemma close_short:
  assumes "polite E" "time_passes E d" "Suc d < n"
  shows "short (\<lambda>_. True) S (d + 6) (close_session (send_command E n))"
proof (intro shortI, unfold until_def, intro allI impI)
  fix j and c :: ag_connection assume c: "tick c \<le> S + j"
  have "AG_COMMAND_SIZE < d" using assms(2) by (simp add: time_passes_def del: wire_limits)
  then have "wp (close_session (send_command E n)) (\<lambda>_ c'. tick c' \<le> tick c + d + 6) (\<lambda>_. False) c"
    by (intro closing_returns assms(1) time_passes_at [OF assms(2)]) (use assms(3) in \<open>simp_all del: wire_limits\<close>)
  then show "wp (close_session (send_command E n)) (\<lambda>_ c'. True \<and> tick c' \<le> S + (j + (d + 6)))
      (\<lambda>c'. tick c' \<le> S + (j + (d + 6))) c"
    by (rule wp_mono) (use c in auto)
qed

text \<open>What the following shows assumes: a documented network, time that passes, and a signal from tick \<open>S\<close> on.\<close>

definition signalled :: "env \<Rightarrow> nat \<Rightarrow> nat \<Rightarrow> bool" where
  "signalled E d S \<longleftrightarrow> polite E \<and> time_passes E d \<and> (\<forall>t \<ge> S. env_signal E t)"

lemma signalledD:
  assumes "signalled E d S"
  shows "polite E" "time_passes E d" "\<And>t. S \<le> t \<Longrightarrow> env_signal E t"
  using assms by (simp_all add: signalled_def)

lemma session_short:
  assumes E: "signalled E d S" and n: "Suc d < n"
  shows "short (\<lambda>_. True) S (d + 14500) (ag_flex_run_session E n cfg obs attempt)"
proof -
  note polite = signalledD(1) [OF E] and signal = signalledD(3) [OF E]
  have send: "short_sends S 2059 (send_command E n)"
    unfolding short_sends_def by (intro allI send_command_short [OF polite signal])
  have loop: "short (\<lambda>_. True) S 2062 (session_loop E (send_command E n) n)"
    using winds_short [OF session_loop_winds [OF polite signal send]] by simp
  note close = close_short [OF polite signalledD(2) [OF E] n]
  have "short (\<lambda>_. True) S (d + 14422) (connected_session E n)"
    unfolding connected_session_def
    by (intro shortI until_bind [OF initialize_short [OF send]] always.until_rules until_bind [OF loop] until_bind [OF close]) simp_all
  note connected = until_short [OF this]
  have run: "short (\<lambda>_. True) S (d + 14500) (session_program E n attempt)"
    unfolding session_program_def
    by (intro shortI always.until_rules until_bind [OF always.connect_short [OF signal]] until_modify connected) simp_all
  show ?thesis
  proof (intro shortI, unfold until_def, intro allI impI)
    fix j and w :: world assume "tick w \<le> S + j"
    then have "tick (new_connection cfg obs w) \<le> S + j" by (simp add: new_connection_def)
    from untilD [OF shortD [OF run] _ this]
    show "wp (ag_flex_run_session E n cfg obs attempt) (\<lambda>_ w'. True \<and> tick w' \<le> S + (j + (d + 14500)))
        (\<lambda>w'. tick w' \<le> S + (j + (d + 14500))) w"
      by (cases "session_program E n attempt (new_connection cfg obs w)")
        (auto simp: wp_def ag_flex_run_session_def split: option.splits)
  qed
qed

subsection \<open>The program\<close>

lemma stopped_short: "short (\<lambda>_. True) S 0 stopped"
  unfolding stopped_def by (intro shortI always.until_rules) simp_all

lemma discovery_loop_winds:
  assumes E: "signalled E d S" and n: "Suc d < n"
  shows "winds (\<lambda>_. True) S (d + 14520) (discovery_loop E n k cfg opts attempt)"
proof (induction k arbitrary: attempt)
  note signal = signalledD(3) [OF E]
  case 0
  show ?case unfolding discovery_loop.simps
    by (intro always.loop_winds [OF signal] stopped_short) (auto intro!: shortI always.until_rules)
next
  note signal = signalledD(3) [OF E]
  case (Suc k)
  show ?case unfolding discovery_loop.simps log_discovered_def
    by (intro always.loop_winds [OF signal] stopped_short)
      (auto intro!: shortI always.until_rules until_short [OF stopped_short] until_bind [OF always.discovery_wait_short [OF signal]]
        until_bind [OF session_short [OF E n]] until_winds [OF Suc.IH])
qed

lemma direct_loop_winds:
  assumes E: "signalled E d S" and n: "Suc d < n"
  shows "winds (\<lambda>_. True) S (d + 14520) (direct_loop E n k cfg opts delay next_log attempt)"
proof (induction k arbitrary: delay next_log attempt)
  note signal = signalledD(3) [OF E]
  case 0
  show ?case unfolding direct_loop.simps
    by (intro always.loop_winds [OF signal] stopped_short) (auto intro!: shortI always.until_rules)
next
  note signal = signalledD(3) [OF E]
  case (Suc k)
  have sleep: "short (\<lambda>_. True) S 3 (sleep_interruptibly E n seconds)" for seconds
    unfolding sleep_interruptibly_def by (rule winds_short [OF always.sleep_rounds_winds [OF signal]]) auto
  show ?case unfolding direct_loop.simps
    by (intro always.loop_winds [OF signal] stopped_short)
      (auto intro!: shortI always.until_rules until_short [OF stopped_short] until_bind [OF sleep]
        until_bind [OF session_short [OF E n]] until_winds [OF Suc.IH])
qed

lemma main_short:
  assumes E: "signalled E d S" and n: "Suc d < n"
  shows "short (\<lambda>_. True) S (d + 14520) (main E n version files args)"
proof -
  have emits: "until (\<lambda>_. True) S j k (bind (emit_all es) f)" if "until (\<lambda>_. True) S j k (f ())" for es f j k
    using that by (induction es) (simp_all add: until_def wp_rules)
  show ?thesis unfolding main_def guard_radio_def
    by (auto intro!: shortI always.until_rules emits until_short [OF winds_short [OF direct_loop_winds [OF E n]]]
        until_short [OF winds_short [OF discovery_loop_winds [OF E n]]] split: sum.split)
qed


text \<open>The signal arrives at tick 5 while the radio goes on sending status lines.\<close>

definition signalled_env :: env where
  "signalled_env = chattering_env\<lparr>env_signal := (\<lambda>t. 5 \<le> t)\<rparr>"


end
