(* ===== verification/Command_Answers.thy ===== *)
theory Command_Answers
  imports Wire_Properties
begin

text \<open>
  A command that is reported as accepted was accepted: the radio answered its sequence number with code 0,
  and the text handed to the caller is the text of that answer.
\<close>

subsection \<open>While a command waits\<close>

text \<open>
  Only the waiting itself touches the saved responses: sending, reading and the handlers of status lines keep them,
  and the mark that a command is in progress.
\<close>

definition waiting :: "event list \<Rightarrow> ag_saved_response list \<Rightarrow> ag_connection \<Rightarrow> bool" where
  "waiting tr rs c \<longleftrightarrow> command_in_progress c \<and> saved_responses c = rs \<and> extends tr c"

lemma waiting_later:
  "waiting tr rs c \<Longrightarrow> extends (trace c) c' \<Longrightarrow> saved_responses c' = saved_responses c \<Longrightarrow>
    command_in_progress c' = command_in_progress c \<Longrightarrow> waiting tr rs c'"
  by (auto simp: waiting_def extends_def)

lemma waits_modify:
  "(\<And>c. command_in_progress (f c) = command_in_progress c) \<Longrightarrow> (\<And>c. saved_responses (f c) = saved_responses c) \<Longrightarrow>
    (\<And>c. trace (f c) = trace c) \<Longrightarrow> keeps (waiting tr rs) (modify f)"
  by (rule keeps_modify, erule waiting_later) (simp_all add: extends_def)

lemma waits_steps:
  "keeps (waiting tr rs) (sys g)" "keeps (waiting tr rs) (emit e)" "keeps (waiting tr rs) (ag_log l m)"
  "keeps (waiting tr rs) (read_stop E)" "keeps (waiting tr rs) (monotonic_milliseconds E)"
  by (rule keepsI,
      auto simp: wp_sys wp_emit wp_ag_log wp_read_stop wp_monotonic elim!: waiting_later, simp_all add: extends_def)+

lemmas waits = keeps_rules keeps_sysret keeps_poll waits_modify waits_steps

lemma send_all_waits: "keeps (waiting tr rs) (send_all E n data)"
  by (induction n arbitrary: data) (auto simp: Let_def intro!: waits)

lemma extract_line_waits: "keeps (waiting tr rs) (extract_line k)"
  unfolding extract_line_def by (intro waits) simp_all

lemma poll_waits: "keeps (waiting tr rs) (poll_and_receive E n k)"
  by (induction n) (auto simp: Let_def intro!: waits extract_line_waits)

lemma read_line_waits: "keeps (waiting tr rs) (read_line E n k)"
  unfolding read_line_def by (intro waits extract_line_waits poll_waits)

lemma set_interlock_waits: "keeps (waiting tr rs) (set_interlock send b)"
  by (rule keepsI) (auto simp: set_interlock_def wp_rules waiting_def extends_def)

lemma handle_status_waits: "keeps (waiting tr rs) (handle_status send line)"
proof -
  have "keeps (waiting tr rs) (handle_transmit send p)" for p
    unfolding handle_transmit_def set_antenna_def
    by (intro waits set_interlock_waits) (simp_all add: set_frequency_def Let_def)
  moreover have "keeps (waiting tr rs) (handle_interlock send p)" for p
    unfolding handle_interlock_def log_decision_def by (intro waits set_interlock_waits)
  ultimately show ?thesis unfolding status_dispatch by (intro keeps_rules)
qed

subsection \<open>The answer to a command\<close>

text \<open>
  The radio accepted command \<open>q\<close> with \<open>text\<close>: in a line that was received since the trace was \<open>tr\<close>, or \<open>early\<close>, in an
  answer that had been saved.
\<close>

definition accepted ::
  "(64 word \<times> string) option \<Rightarrow> event list \<Rightarrow> 32 word \<Rightarrow> string \<Rightarrow> ag_connection \<Rightarrow> bool" where
  "accepted early tr q text c \<longleftrightarrow> early = Some (0, text) \<or>
     (\<exists>ql line. trace c = ql @ tr \<and> Log AG_LOG_DEBUG (Msg_line line) \<in> set ql \<and> parse_response line = Some (q, 0, text))"

text \<open>What a command returns: if 0, the text of such an answer, as far as the caller's buffer holds it.\<close>

definition truthful ::
  "(64 word \<times> string) option \<Rightarrow> event list \<Rightarrow> 32 word \<Rightarrow> nat \<Rightarrow> int \<times> string \<Rightarrow> ag_connection \<Rightarrow> bool" where
  "truthful early tr q k result c \<longleftrightarrow> fst result = 0 \<longrightarrow>
     (\<exists>text. snd result = (if 0 < k then snprintf_str k text else []) \<and> accepted early tr q text c)"

lemma keeps_then:
  "keeps J m \<Longrightarrow> J c \<Longrightarrow> (\<And>x c'. J c' \<Longrightarrow> wp (f x) Q (\<lambda>_. True) c') \<Longrightarrow> wp (bind m f) Q (\<lambda>_. True) c"
  unfolding wp_bind by (rule wp_mono [where Q = "\<lambda>_. J" and C = J]) (simp_all add: keepsD)

lemma truthful_failure [simp]: "truthful early tr q k (- 1, body) c"
  by (simp add: truthful_def)

lemma truthful_later: "truthful None tr q k result c \<Longrightarrow> truthful early tr q k result c"
  by (auto simp: truthful_def accepted_def)

lemma fetch_misses: "fetch_response q rs = (None, rs') \<Longrightarrow> rs' = rs \<and> cache_of rs q = None"
  by (induction rs arbitrary: rs') (auto simp: cache_of_def split: if_splits prod.splits)

lemma store_other: "store_response r rs = Some rs' \<Longrightarrow> used r \<Longrightarrow> saved_sequence r \<noteq> q \<Longrightarrow> cache_of rs' q = cache_of rs q"
  by (induction rs arbitrary: rs') (auto split: if_splits)

lemma accept_truthful:
  "(code = 0 \<Longrightarrow> accepted early tr q text c) \<Longrightarrow>
    wp (accept_response command code text k) (truthful early tr q k) (\<lambda>_. True) c"
  by (auto simp: accept_response_def wp_rules truthful_def)

lemma save_other:
  "waiting tr rs c \<Longrightarrow> cache_of rs q = None \<Longrightarrow> q' \<noteq> q \<Longrightarrow>
    wp (save_response q' code body) (\<lambda>_ c'. \<exists>rs'. waiting tr rs' c' \<and> cache_of rs' q = None) (\<lambda>_. True) c"
  by (auto simp: save_response_def wp_rules waiting_def extends_def store_other split: option.split)

lemma await_truthful:
  "waiting tr rs c \<Longrightarrow>
    wp (await_response E send n command k cleanup q deadline) (truthful (cache_of rs q) tr q k) (\<lambda>_. True) c"
proof (induction n arbitrary: c rs)
  case (Suc n)
  let ?again = "await_response E send n command k cleanup q deadline"
  have again: "wp ?again (truthful None tr q k) (\<lambda>_. True) c'"
    if "waiting tr rs' c'" "cache_of rs' q = None" for rs' c'
    using Suc.IH [OF that(1)] that(2) by simp
  have line: "wp (if r < 0 then bind (ag_log AG_LOG_ERROR Msg_closed_awaiting) (\<lambda>_. ret (- 1, []))
       else if r = 0 then ret (- 1, [])
       else
     bind (ag_log AG_LOG_DEBUG (Msg_line line)) (\<lambda>_.
       case parse_response line of
         Some (response_sequence, code, body) \<Rightarrow>
           if response_sequence \<noteq> q
           then bind (save_response response_sequence code body) (\<lambda>_. ?again)
           else accept_response command code body k
       | None \<Rightarrow>
           bind (handle_status send line) (\<lambda>rc. if rc \<noteq> 0 \<and> \<not> cleanup then ret (- 1, []) else ?again)))
       (truthful None tr q k) (\<lambda>_. True) c'"
    if c': "waiting tr rs c'" "cache_of rs q = None" for c' and r :: int and line
  proof -
    let ?c = "c'\<lparr>trace := Log AG_LOG_DEBUG (Msg_line line) # trace c'\<rparr>"
    have w: "waiting tr rs ?c" using c'(1) by (auto simp: waiting_def extends_def)
    have saved: "wp (bind (save_response q' code body) (\<lambda>_. ?again)) (truthful None tr q k) (\<lambda>_. True) ?c"
      if "q' \<noteq> q" for q' code body
      unfolding wp_bind by (rule wp_mono [OF save_other [OF w c'(2) that]]) (auto intro: again)
    have mine: "wp (accept_response command code body k) (truthful None tr q k) (\<lambda>_. True) ?c"
      if "parse_response line = Some (q, code, body)" for code body
      by (rule accept_truthful) (use c'(1) that in \<open>auto simp: accepted_def waiting_def extends_def\<close>)
    have handled: "wp (bind (handle_status send line) (\<lambda>rc. if rc \<noteq> 0 \<and> \<not> cleanup then ret (- 1, []) else ?again))
        (truthful None tr q k) (\<lambda>_. True) ?c"
      unfolding wp_bind
      by (rule wp_mono [OF keepsD [OF handle_status_waits w]]) (use again [OF _ c'(2)] in \<open>auto simp: wp_if wp_ret\<close>)
    show ?thesis
      using saved mine handled
      by (auto simp: wp_if wp_ret wp_bind [of "ag_log l m" for l m] wp_ag_log simp del: await_response.simps
        split: option.split)
  qed
  have read: "wp (read_line E n AG_LINE_BUFFER) (\<lambda>x. wp (case x of (r, line) \<Rightarrow> f r line) (truthful None tr q k) (\<lambda>_. True))
      (\<lambda>_. True) c'"
    if "waiting tr rs c'" "\<And>r line c'. waiting tr rs c' \<Longrightarrow> wp (f r line) (truthful None tr q k) (\<lambda>_. True) c'" for c' f
    by (rule wp_mono [OF keepsD [OF read_line_waits that(1)]]) (auto intro: that(2) split: prod.split)
  have taken: "wp (bind (take_response q) (\<lambda>saved.
       case saved of
         Some (code, body) \<Rightarrow> accept_response command code body k
       | None \<Rightarrow>
           if remaining_ms deadline now \<le> 0
           then bind (ag_log AG_LOG_ERROR Msg_no_answer) (\<lambda>_. ret (- 1, []))
           else bind (read_line E n AG_LINE_BUFFER) (\<lambda>(r, line). f r line)))
       (truthful (cache_of rs q) tr q k) (\<lambda>_. True) c'"
    if c': "waiting tr rs c'" and f: "\<And>r line c'. waiting tr rs c' \<Longrightarrow> cache_of rs q = None \<Longrightarrow>
      wp (f r line) (truthful None tr q k) (\<lambda>_. True) c'" for c' now f
  proof -
    obtain found rs' where fetch: "fetch_response q rs = (found, rs')" by (cases "fetch_response q rs")
    have rs: "saved_responses c' = rs" using c' by (simp add: waiting_def)
    show ?thesis
    proof (cases found)
      case None
      then have same: "c'\<lparr>saved_responses := rs'\<rparr> = c'" and free: "cache_of rs q = None"
        using fetch_misses fetch rs by auto
      show ?thesis using read [OF c' f [OF _ free]] None free
        by (auto simp: take_response_def wp_gets wp_modify wp_ret wp_if wp_ag_log wp_bind rs fetch same)
    next
      case (Some x)
      then have "cache_of rs q = Some x" using fetch by (simp add: cache_of_def)
      then show ?thesis using Some
        by (cases x) (auto simp: take_response_def wp_gets wp_modify wp_ret wp_bind rs fetch accepted_def intro!: accept_truthful)
    qed
  qed
  have "keeps (waiting tr rs) (if cleanup then ret False else read_stop E)" by (intro waits)
  then show ?case
    unfolding await_response.simps
  proof (rule keeps_then [where J = "waiting tr rs", OF _ Suc.prems], goal_cases)
    case (1 stop c')
    then show ?case
      unfolding wp_if wp_ret by (cases stop; simp only: if_True if_False truthful_failure) (intro keeps_then [where J = "waiting tr rs", OF waits_steps(5)] taken line; assumption?)
  qed
qed (simp add: wp_rules)

lemma once_truthful:
  assumes "command_in_progress c"
  shows "wp (send_command_once E send n command k cleanup)
    (truthful (cache_of (saved_responses c) (sequence c + 1)) (trace c) (sequence c + 1) k) (\<lambda>_. True) c"
proof -
  let ?J = "waiting (trace c) (saved_responses c)" and ?q = "sequence c + 1"
  have start: "?J (c\<lparr>sequence := ?q\<rparr>)" using assms by (simp add: waiting_def extends_def)
  have q: "sequence (c\<lparr>sequence := ?q\<rparr>) = ?q" by simp
  note steps = keeps_then [where J = ?J]
  show ?thesis
    unfolding send_command_once_def wp_bind [of "modify f" for f] wp_bind [of "gets f" for f] wp_modify wp_gets q
    by (rule steps [OF waits_steps(5) start], rule steps [OF waits_steps(4)], assumption)
      (auto simp: wp_if wp_ret intro!: steps [OF waits_steps(3)] steps [OF send_all_waits] await_truthful)
qed

lemma accepted_later: "accepted early tr q text c \<Longrightarrow> extends (trace c) c' \<Longrightarrow> accepted early tr q text c'"
  by (auto simp: accepted_def extends_def)

lemma command_truthful:
  assumes "\<not> command_in_progress c"
  shows "wp (send_command E n command k cleanup)
    (truthful (cache_of (saved_responses c) (sequence c + 1)) (trace c) (sequence c + 1) k) (\<lambda>_. True) c"
proof (cases n)
  case (Suc m)
  let ?c = "c\<lparr>command_in_progress := True\<rparr>"
  let ?T = "truthful (cache_of (saved_responses c) (sequence c + 1)) (trace c) (sequence c + 1) k"
  have once: "wp (send_command_once E (send_command E m) m command k cleanup) ?T (\<lambda>_. True) ?c"
    using once_truthful [of ?c] by simp
  have drained: "wp (bind (drain_interlock E (send_command E m) m) (\<lambda>rc'. ret (rc', body))) ?T (\<lambda>_. True) (c'\<lparr>command_in_progress := False\<rparr>)"
    if "?T (0, body) c'" for body c'
  proof -
    let ?c' = "c'\<lparr>command_in_progress := False\<rparr>"
    have "keeps (extends (trace ?c')) (drain_interlock E (send_command E m) m)"
      by (intro growing.drain_keeps growing.send_command_keeps)
    from keepsD [OF this extends_refl] show ?thesis
      unfolding wp_bind by (rule wp_mono) (use that in \<open>auto simp: wp_ret truthful_def intro: accepted_later\<close>)
  qed
  have unmarked: "?T result (c'\<lparr>command_in_progress := False\<rparr>) \<longleftrightarrow> ?T result c'" for result c'
    by (simp add: truthful_def accepted_def)
  show ?thesis
    unfolding Suc send_command.simps using assms drained once
    by (auto simp: wp_if wp_ret wp_gets wp_modify wp_bind [of "gets f" for f] wp_bind [of "modify f" for f]
      wp_bind [of "send_command_once E s m command k cleanup" for s] unmarked elim!: wp_mono)
qed (simp add: wp_rules)

text \<open>
  C13. A command succeeds only if the radio accepted it: when \<^verbatim>\<open>send_command\<close> returns 0, a line with its own sequence
  number and code 0 arrived while it waited, or had arrived early and was saved under that number, and the
  response buffer holds the text of that answer, cut to its size. Status lines, answers to other commands and
  updates sent in between never count.
\<close>

theorem accepted_command_was_answered:
  assumes "\<not> command_in_progress c"
  shows "wp (send_command E n command len cleanup)
    (\<lambda>(rc, body) c'. rc = 0 \<longrightarrow>
      (\<exists>text. body = (if 0 < len then snprintf_str len text else []) \<and>
        (cache_of (saved_responses c) (sequence c + 1) = Some (0, text) \<or>
         (\<exists>ql line. trace c' = ql @ trace c \<and> Log AG_LOG_DEBUG (Msg_line line) \<in> set ql
            \<and> parse_response line = Some (sequence c + 1, 0, text))))) (\<lambda>_. True) c"
  using command_truthful [OF assms] unfolding truthful_def accepted_def by (simp add: case_prod_beta')

lemma accepted_command_was_answered_witness:
  "wp (send_command (answering accepted_answer) 5 ''ping'' 0 False)
    (\<lambda>(rc, body) c'. rc = 0 \<longrightarrow> (\<exists>text ql line. trace c' = ql @ armed_trace
       \<and> Log AG_LOG_DEBUG (Msg_line line) \<in> set ql \<and> parse_response line = Some (1, 0, text))) (\<lambda>_. True) armed_connection"
proof -
  have "\<not> command_in_progress armed_connection" and "sequence armed_connection = 0" and "trace armed_connection = armed_trace"
    by (simp_all add: armed_connection_def Let_def new_connection_def start_world_def)
  moreover have "cache_of (replicate j free_slot) q = None" for j q by (induction j) (simp_all add: free_slot_def)
  then have "cache_of (saved_responses armed_connection) q = None" for q
    by (simp add: armed_connection_def Let_def new_connection_def)
  ultimately show ?thesis
    using accepted_command_was_answered [of armed_connection "answering accepted_answer" 5 "''ping''" 0 False]
    by (auto elim!: wp_mono)
qed

end
