(* ===== verification/Report_Properties.thy ===== *)
theory Report_Properties
  imports Session_Properties Decimal
begin

text \<open>
  From the text of a status line to the decision: what the radio reports in decimal megahertz is
  decided exactly as the decimal band limits say.
\<close>

lemma length_mhz_text: "hz < 2 ^ 63 \<Longrightarrow> length (mhz_text hz) < 128"
proof -
  assume "hz < 2 ^ 63"
  then have "hz div 10 ^ 6 < 10 ^ 14" by simp
  then have "length (dec_string (hz div 10 ^ 6)) \<le> 14" by (rule dec_string_length) simp
  moreover have "length (dec_string (hz mod 10 ^ 6)) \<le> 6" by (rule dec_string_length) simp_all
  ultimately show ?thesis by (simp add: mhz_text_def pad_zeros_def)
qed

lemma mhz_text_nonempty: "mhz_text hz \<noteq> []"
  by (simp add: mhz_text_def)

text \<open>Whether the document of bands permits an antenna at a frequency in hertz.\<close>

definition permitted_at :: "ag_config \<Rightarrow> string \<Rightarrow> nat \<Rightarrow> bool" where
  "permitted_at cfg antenna hz \<longleftrightarrow>
     (\<exists>i < ag_band_count. lower_limit i \<le> of_nat hz / 10 ^ 6 \<and> of_nat hz / 10 ^ 6 \<le> upper_limit i
        \<and> band_permitted cfg antenna i)"

lemma evaluate_at:
  "antenna \<noteq> [] \<Longrightarrow>
    allowed (ag_policy_evaluate cfg True (double_literal (of_nat hz / 10 ^ 6)) (Some antenna)) \<longleftrightarrow> permitted_at cfg antenna hz"
  unfolding evaluate_allowed permitted_at_def ag_band_count_eq using in_band_hertz [of _ hz] by blast

lemma transmit_report:
  fixes c :: ag_connection
  assumes kvs: "list_all plain_field kvs" "map_of kvs ''freq'' = Some (mhz_text hz)" "map_of kvs ''tx_antenna'' = Some antenna"
    and hz: "hz < 2 ^ 63"
    and antenna: "antenna \<noteq> []" "length antenna \<le> AG_MAX_ANTENNA_ID" "\<not> strcasecmp_eq antenna ''INVALID''"
  defines "c' \<equiv> c\<lparr>has_frequency := True, frequency_mhz := double_literal (of_nat hz / 10 ^ 6), tx_antenna := antenna\<rparr>"
  shows "handle_transmit send (render_fields kvs) c =
    (if permitted_at (config c) antenna hz \<or> interlock_id c = [] then (Some 0, c') else set_interlock send False c')"
proof -
  have fields: "flex_field_value (render_fields kvs) ''freq'' 128 = Some (mhz_text hz)"
    "flex_field_value (render_fields kvs) ''tx_antenna'' 128 = Some antenna"
    using kvs antenna length_mhz_text [OF hz] mhz_text_nonempty
    by (intro flex_field.get_rendered; simp add: AG_MAX_ANTENNA_ID_def)+
  have freq: "set_frequency (mhz_text hz) c = c\<lparr>has_frequency := True, frequency_mhz := double_literal (of_nat hz / 10 ^ 6)\<rparr>"
    using strtod_mhz [OF hz] mhz_text_nonempty [of hz] by (cases c) (simp add: set_frequency_def Let_def)
  have decision: "allowed (evaluate_context c') \<longleftrightarrow> permitted_at (config c) antenna hz"
    using evaluate_at [OF antenna(1), of "config c" hz] by (simp add: evaluate_context_def c'_def)
  have "handle_transmit send (render_fields kvs) c =
      (if \<not> allowed (evaluate_context c') \<and> interlock_id c' \<noteq> [] then set_interlock send False c' else ret 0 c')"
    using antenna(2,3) unfolding handle_transmit_def fields option.case
    by (simp add: bind_def modify_def gets_def set_antenna_def freq c'_def)
  then show ?thesis unfolding decision by (simp add: ret_def c'_def)
qed

subsection \<open>Properties\<close>

text \<open>
  C8. From the wire to the decision: when the radio reports a frequency of \<open>hz\<close> hertz (in megahertz, with six decimals) and
  an antenna, among any other fields, the daemon remembers both, and blocks an interlock that is set up exactly when no
  band whose decimal limits enclose \<open>hz\<close> is allowed for that antenna: no rounding of the binary
  arithmetic in between changes the decision.
\<close>

theorem transmit_report_decides:
  assumes "list_all plain_field kvs" "map_of kvs ''freq'' = Some (mhz_text hz)" "map_of kvs ''tx_antenna'' = Some antenna"
    and "hz < 2 ^ 63" "antenna \<noteq> []" "length antenna \<le> AG_MAX_ANTENNA_ID" "\<not> strcasecmp_eq antenna ''INVALID''"
  shows "handle_transmit send (render_fields kvs) c =
    (let c' = c\<lparr>has_frequency := True, frequency_mhz := double_literal (of_nat hz / 10 ^ 6), tx_antenna := antenna\<rparr>
     in if permitted_at (config c) antenna hz \<or> interlock_id c = [] then (Some 0, c')
        else set_interlock send False c')"
  unfolding Let_def by (rule transmit_report [OF assms])

text \<open>The sample configuration permits ANT1 on 160 m only.\<close>

lemma test_permitted: "permitted_at test_config ''ANT1'' hz \<longleftrightarrow> 1800000 \<le> hz \<and> hz \<le> 2000000"
proof -
  have "ag_config_find_antenna test_config ''ANT1'' = Some \<lparr>antenna_id = ''ANT1'', allowed_bands = 1\<rparr>" by code_simp
  then have band: "band_permitted test_config ''ANT1'' i \<longleftrightarrow> i = 0" for i
    by (auto simp: band_permitted_def bit_1_iff)
  have limits: "lower_limit 0 = 9 / 5" "upper_limit 0 = 2" by code_simp+
  have "permitted_at test_config ''ANT1'' hz \<longleftrightarrow> (9 / 5 :: rat) \<le> of_nat hz / 10 ^ 6 \<and> of_nat hz / 10 ^ 6 \<le> (2 :: rat)"
    by (auto simp: permitted_at_def band limits)
  also have "\<dots> \<longleftrightarrow> (of_nat 1800000 :: rat) \<le> of_nat hz \<and> (of_nat hz :: rat) \<le> of_nat 2000000"
    by (simp add: field_simps)
  finally show ?thesis by (simp only: of_nat_le_iff)
qed

lemma transmit_report_decides_witness:
  "handle_transmit (send_command silent_env 9) ''freq=1.900000 tx_antenna=ANT1 rfpower=10'' armed_connection
      = (Some 0, armed_connection\<lparr>has_frequency := True, frequency_mhz := double_literal (of_nat 1900000 / 10 ^ 6), tx_antenna := ''ANT1''\<rparr>)"
proof -
  have p: "permitted_at (config armed_connection) ''ANT1'' 1900000"
    using test_permitted [of 1900000] by (simp add: armed_connection_def new_connection_def Let_def)
  let ?kvs = "[(''freq'', mhz_text 1900000), (''tx_antenna'', ''ANT1''), (''rfpower'', ''10'')]"
  have shown: "render_fields ?kvs = ''freq=1.900000 tx_antenna=ANT1 rfpower=10''" and plain: "list_all plain_field ?kvs"
    and valid: "\<not> strcasecmp_eq ''ANT1'' ''INVALID''" "length ''ANT1'' \<le> AG_MAX_ANTENNA_ID"
    and fields: "map_of ?kvs ''freq'' = Some (mhz_text 1900000)" "map_of ?kvs ''tx_antenna'' = Some ''ANT1''"
    by code_simp+
  have small: "(1900000 :: nat) < 2 ^ 63" "''ANT1'' \<noteq> []" by simp_all
  note run = transmit_report_decides [of ?kvs 1900000 "''ANT1''" "send_command silent_env 9" armed_connection,
      OF plain fields small valid(2,1)]
  show ?thesis using run p unfolding shown Let_def by (simp only: if_True simp_thms)
qed

end
