(* ===== verification/Log_Text.thy ===== *)
theory Log_Text
  imports Flex_Wire Decimal
begin

text \<open>
  What the log prints, \<^verbatim>\<open>src/log.c\<close>: the formatted output of C for the conversions that the program
  uses, the format string and the arguments of every call of \<^verbatim>\<open>ag_log\<close>, and the standard error
  output of a run.
\<close>

subsection \<open>Formatted output\<close>

datatype printf_arg = Str string | Uns nat | Hex "64 word" | Dbl binary64

definition hex_char :: "nat \<Rightarrow> char" where
  "hex_char d = (if d < 10 then digit_char d else chr (55 + d))"

fun hex_string :: "nat \<Rightarrow> string" where
  "hex_string n = (if n < 16 then [hex_char n] else hex_string (n div 16) @ [hex_char (n mod 16)])"

declare hex_string.simps [simp del]

text \<open>
  \<^verbatim>\<open>%.6f\<close> prints the exact value rounded to six decimals, ties to even. The sign of a zero or of a
  NaN is not kept by \<open>binary64\<close>; both are printed as positive.
\<close>

definition print_f6 :: "binary64 \<Rightarrow> string" where
  "print_f6 x =
     (case x of
        NotANumber \<Rightarrow> ''nan''
      | Infinite n \<Rightarrow> (if n then ''-inf'' else ''inf'')
      | Finite q \<Rightarrow>
          let n = nat (round_half_even (\<bar>q\<bar> * 10 ^ 6))
          in (if q < 0 then ''-'' else []) @ dec_string (n div 10 ^ 6) @ ''.'' @ pad_zeros 6 (dec_string (n mod 10 ^ 6)))"

text \<open>
  One conversion specification, after its \<^verbatim>\<open>%\<close>: the text it prints for the argument, and the rest of
  the format. Without a match the behaviour of C is undefined.
\<close>

fun print_conversion :: "string \<Rightarrow> printf_arg \<Rightarrow> (string \<times> string) option" where
  "print_conversion cs (Str s) = (if starts_with ''s'' cs then Some (s, drop 1 cs) else None)"
| "print_conversion cs (Uns n) =
     (if starts_with ''u'' cs \<or> starts_with ''d'' cs then Some (dec_string n, drop 1 cs) else None)"
| "print_conversion cs (Hex w) =
     (if starts_with ''08lX'' cs then Some (pad_zeros 8 (hex_string (unat w)), drop 4 cs) else None)"
| "print_conversion cs (Dbl x) = (if starts_with ''.6f'' cs then Some (print_f6 x, drop 3 cs) else None)"

text \<open>\<^verbatim>\<open>vfprintf\<close>: \<open>None\<close> is undefined behaviour; arguments in excess are ignored.\<close>

fun vprintf :: "string \<Rightarrow> printf_arg list \<Rightarrow> string option" where
  "vprintf [] args = Some []"
| "vprintf (c # cs) args =
     (if c \<noteq> CHR ''%'' then map_option (Cons c) (vprintf cs args)
      else case args of
        [] \<Rightarrow> None
      | a # rest \<Rightarrow>
          (case print_conversion cs a of
             None \<Rightarrow> None
           | Some (t, cs') \<Rightarrow> map_option (append t) (vprintf cs' rest)))"

subsection \<open>The calls of ag\_log\<close>

definition AG_DISCOVERY_PORT :: nat where "AG_DISCOVERY_PORT = 4992"

abbreviation allow_label :: "bool \<Rightarrow> string" where
  "allow_label observe \<equiv> (if observe then ''WOULD ALLOW'' else ''ALLOWED'')"

abbreviation block_label :: "bool \<Rightarrow> string" where
  "block_label observe \<equiv> (if observe then ''WOULD BLOCK'' else ''BLOCKED'')"

text \<open>
  The format string of each call with its arguments; \<open>version\<close> is \<^verbatim>\<open>AG_VERSION\<close>, and \<open>error\<close> the
  text of \<^verbatim>\<open>strerror(errno)\<close> or \<^verbatim>\<open>gai_strerror\<close> where the call prints it.
\<close>

primrec log_call :: "string \<Rightarrow> string \<Rightarrow> log_message \<Rightarrow> string \<times> printf_arg list" where
  "log_call version error (Msg_cannot_resolve h) = (''Cannot resolve %s: %s'', [Str h, Str error])"
| "log_call version error Msg_line_too_large = (''Radio sent a line larger than the protocol limit'', [])"
| "log_call version error Msg_unterminated_line =
     (''Radio sent an unterminated line larger than %d bytes'', [Uns AG_LINE_BUFFER])"
| "log_call version error Msg_buffer_exceeded = (''Radio receive buffer exceeded %d bytes'', [Uns AG_LINE_BUFFER])"
| "log_call version error Msg_cache_full =
     (''Discarded an unmatched Flex response because the response cache is full'', [])"
| "log_call version error (Msg_rejected command code) =
     (''Radio rejected '' @ [CHR 0x27] @ ''%s'' @ [CHR 0x27] @ '' with 0x%08lX'', [Str command, Hex code])"
| "log_call version error Msg_nested = (''Attempted to send a nested Flex command'', [])"
| "log_call version error Msg_command_too_long = (''Flex command exceeds the protocol limit'', [])"
| "log_call version error (Msg_command command) = (''> %s'', [Str command])"
| "log_call version error Msg_send_failed = (''Failed to send command: %s'', [Str error])"
| "log_call version error Msg_no_answer =
     (''Radio did not answer command within %d ms'', [Uns (nat AG_COMMAND_TIMEOUT_MS)])"
| "log_call version error Msg_closed_awaiting = (''Radio connection closed while awaiting a response'', [])"
| "log_call version error (Msg_line line) = (''< %s'', [Str line])"
| "log_call version error (Msg_allowed observe antenna band f) =
     (''%s %s on %s at %.6f MHz'', [Str (allow_label observe), Str antenna, Str band, Dbl f])"
| "log_call version error (Msg_incomplete observe) = (''%s transmit context is incomplete'', [Str (block_label observe)])"
| "log_call version error (Msg_outside observe f) =
     (''%s %.6f MHz is outside known native bands'', [Str (block_label observe), Dbl f])"
| "log_call version error (Msg_blocked observe antenna band f) =
     (''%s %s on %s at %.6f MHz'', [Str (block_label observe), Str antenna, Str band, Dbl f])"
| "log_call version error Msg_invalid_antenna = (''Radio reported an invalid transmit antenna token'', [])"
| "log_call version error Msg_observed_ended = (''Observed transmit ended'', [])"
| "log_call version error Msg_ended = (''Transmit ended; interlock returned to not-ready'', [])"
| "log_call version error (Msg_observed_outside antenna f) =
     (''OBSERVED TRANSMITTING outside policy: %s at %.6f MHz'', [Str antenna, Dbl f])"
| "log_call version error Msg_fault = (''FAULT radio reports transmission outside policy'', [])"
| "log_call version error (Msg_observed_transmitting antenna band f) =
     (''OBSERVED TRANSMITTING %s on %s at %.6f MHz'', [Str antenna, Str band, Dbl f])"
| "log_call version error (Msg_transmitting antenna band f) =
     (''TRANSMITTING %s on %s at %.6f MHz'', [Str antenna, Str band, Dbl f])"
| "log_call version error Msg_observe_active = (''OBSERVE mode active; no interlock was created'', [])"
| "log_call version error Msg_antenna_list_too_long = (''Configured antenna list exceeds the Flex command limit'', [])"
| "log_call version error Msg_no_interlock_id = (''Radio created an interlock without a valid ID'', [])"
| "log_call version error (Msg_armed i) = (''PROTECTED interlock %s is armed and not-ready'', [Str i])"
| "log_call version error (Msg_removed i) = (''Removed interlock %s'', [Str i])"
| "log_call version error Msg_cleanup_unconfirmed = (''Interlock cleanup was not confirmed'', [])"
| "log_call version error (Msg_connecting h p) = (''Connecting to %s:%u'', [Str h, Uns (unat p)])"
| "log_call version error (Msg_could_not_connect h p) = (''Could not connect to %s:%u'', [Str h, Uns (unat p)])"
| "log_call version error (Msg_connected h p) = (''Connected to %s:%u'', [Str h, Uns (unat p)])"
| "log_call version error Msg_connection_lost = (''Radio connection lost'', [])"
| "log_call version error Msg_discovery_socket_failed = (''Could not create discovery socket: %s'', [Str error])"
| "log_call version error Msg_discovery_configure_failed = (''Could not configure discovery socket: %s'', [Str error])"
| "log_call version error Msg_discovery_bind_failed =
     (''Could not listen for Flex discovery on UDP port %d: %s'', [Uns AG_DISCOVERY_PORT, Str error])"
| "log_call version error Msg_discovery_listener_failed = (''Flex discovery listener failed: %s'', [Str error])"
| "log_call version error (Msg_starting observe) =
     (''AntennaGuardianPiLite %s starting in %s mode'', [Str version, Str (if observe then ''OBSERVE'' else ''PROTECT'')])"
| "log_call version error Msg_waiting_discovery = (''Waiting for a matching Flex radio discovery announcement'', [])"
| "log_call version error (Msg_discovered m name s h p) =
     (''Discovered %s%s%s serial %s at %s:%u'',
      [Str m, Str (if name = [] then [] else '' ''), Str name, Str s, Str h, Uns (unat p)])"
| "log_call version error Msg_session_ended = (''Radio session ended; waiting for its next discovery announcement'', [])"
| "log_call version error (Msg_unavailable delay interval) =
     (''Radio unavailable; retrying in %u seconds (repeated failures logged every %u seconds)'',
      [Uns (unat delay), Uns (unat interval)])"
| "log_call version error (Msg_reconnecting delay) = (''Reconnecting in %u seconds'', [Uns (unat delay)])"
| "log_call version error Msg_stopped = (''AntennaGuardianPiLite stopped'', [])"

definition message_text :: "string \<Rightarrow> string \<Rightarrow> log_message \<Rightarrow> string option" where
  "message_text version error m = (case log_call version error m of (format, args) \<Rightarrow> vprintf format args)"

text \<open>The bytes that one call of \<^verbatim>\<open>ag_log\<close> writes.\<close>

definition log_line :: "string \<Rightarrow> string \<Rightarrow> log_state \<Rightarrow> string \<Rightarrow> ag_log_level \<Rightarrow> log_message \<Rightarrow> string" where
  "log_line version error st stamp level m =
     ag_log_output st level stamp (case message_text version error m of None \<Rightarrow> [] | Some text \<Rightarrow> text)"

end
