(* ===== verification/Log_Properties.thy ===== *)
theory Log_Properties
  imports Log_Text Stop_Time Command_Answers Report_Properties
begin

text \<open>
  Every call of \<^verbatim>\<open>ag_log\<close> is well-formed, the frequency in the log is the frequency that was reported,
  and which messages are one line.
\<close>

subsection \<open>Formats and arguments\<close>

lemma message_text_defined: "message_text version error m \<noteq> None"
  by (cases m) (simp_all add: message_text_def starts_with_def)


subsection \<open>Frequencies\<close>

lemma round_half_even_near:
  assumes "\<bar>x - of_int n\<bar> < 1 / 2"
  shows "round_half_even x = n"
proof -
  have "\<lfloor>x\<rfloor> = n \<or> \<lfloor>x\<rfloor> = n - 1" using assms by linarith
  then show ?thesis using assms by (auto simp: round_half_even_def Let_def abs_less_iff)
qed

lemma print_f6_hertz:
  assumes "hz < 2 ^ 32 * 10 ^ 6"
  shows "print_f6 (double_literal (of_nat hz / 10 ^ 6)) = mhz_text hz"
proof (cases "hz = 0")
  case True
  have "round_half_even 0 = 0" using round_half_even_of_int [of 0] by simp
  then show ?thesis using True
    by (simp add: double_literal_def round_binary64_def round_finite_def overflows_def print_f6_def mhz_text_def)
next
  case False
  define q r :: rat where "q = of_nat hz / 10 ^ 6" and "r = round_finite q"
  have "0 < q" using False by (simp add: q_def)
  have "rat_of_nat hz < of_nat (2 ^ 32 * 10 ^ 6)" using assms by (simp only: of_nat_less_iff)
  then have q: "q < 2 powi 32" by (simp add: q_def power_int_def)
  then have "last_place q \<le> - 21" using binade_small [OF \<open>0 < q\<close> q] by (simp add: last_place_def)
  then have "(2::rat) powi (last_place q) / 2 \<le> 2 powi (- 21) / 2"
    by (intro divide_right_mono powi_two_mono) auto
  then have error: "\<bar>r - q\<bar> \<le> 1 / 2 ^ 22"
    using round_finite_error [OF \<open>0 < q\<close>] by (simp add: r_def power_int_minus)
  moreover have "r - q \<le> \<bar>r - q\<bar>" by simp
  ultimately have "r \<le> q + 1" by simp
  then have "r < 2 powi 64" using q by (simp add: power_int_def)
  then have double: "double_literal q = Finite r"
    by (simp add: double_literal_def round_binary64_def not_overflows_small r_def)
  have "0 \<le> r" by (simp add: r_def round_finite_nonneg)
  have "\<bar>r * 10 ^ 6 - of_int (int hz)\<bar> = \<bar>r - q\<bar> * 10 ^ 6"
    by (simp add: q_def abs_if field_simps)
  also have "\<dots> < 1 / 2" using error by simp
  finally have "round_half_even (\<bar>r\<bar> * 10 ^ 6) = int hz"
    using round_half_even_near \<open>0 \<le> r\<close> by simp
  then show ?thesis using \<open>0 \<le> r\<close> unfolding q_def [symmetric] double by (simp add: print_f6_def mhz_text_def)
qed

subsection \<open>Requests to transmit\<close>

text \<open>What the log says of a request, by the decimal limits of the bands.\<close>

definition band_at :: "nat \<Rightarrow> nat option" where
  "band_at hz = find (\<lambda>i. lower_limit i \<le> of_nat hz / 10 ^ 6 \<and> of_nat hz / 10 ^ 6 \<le> upper_limit i) [0..<ag_band_count]"

definition request_text :: "bool \<Rightarrow> ag_config \<Rightarrow> string \<Rightarrow> nat \<Rightarrow> string" where
  "request_text observe cfg antenna hz =
     (case band_at hz of
        None \<Rightarrow> block_label observe @ '' '' @ mhz_text hz @ '' MHz is outside known native bands''
      | Some i \<Rightarrow> (if band_permitted cfg antenna i then allow_label observe else block_label observe)
          @ '' '' @ antenna @ '' on '' @ b_name (BANDS ! i) @ '' at '' @ mhz_text hz @ '' MHz'')"

lemma band_at_eq: "band_at hz = find (\<lambda>i. in_band (double_literal (of_nat hz / 10 ^ 6)) (BANDS ! i)) [0..<11]"
  unfolding band_at_def ag_band_count_eq by (rule find_cong [OF refl], subst in_band_hertz) (simp_all only: set_upt atLeastLessThan_iff)

lemma band_at_Some:
  "band_at hz = Some i \<Longrightarrow> i < 11 \<and> in_band (double_literal (of_nat hz / 10 ^ 6)) (BANDS ! i)"
  unfolding band_at_eq find_Some_iff by auto

lemma band_at_None:
  "band_at hz = None \<Longrightarrow> i < 11 \<Longrightarrow> \<not> in_band (double_literal (of_nat hz / 10 ^ 6)) (BANDS ! i)"
  unfolding band_at_eq find_None_iff by auto

lemma request_decision:
  assumes "antenna \<noteq> []"
  shows "ag_policy_evaluate cfg True (double_literal (of_nat hz / 10 ^ 6)) (Some antenna) =
    (case band_at hz of
       None \<Rightarrow> \<lparr>allowed = False, reason = AG_DECISION_OUTSIDE_KNOWN_BANDS, band = ''Unknown''\<rparr>
     | Some i \<Rightarrow>
         if band_permitted cfg antenna i
         then \<lparr>allowed = True, reason = AG_DECISION_ALLOWED, band = b_name (BANDS ! i)\<rparr>
         else \<lparr>allowed = False, reason = AG_DECISION_COMBINATION_BLOCKED, band = b_name (BANDS ! i)\<rparr>)"
proof (cases "band_at hz")
  case None
  then have "band_for_frequency (double_literal (of_nat hz / 10 ^ 6)) < 0"
    using band_at_None band_for_frequency_neg by blast
  then show ?thesis using assms None by (simp add: evaluate_outside)
next
  case (Some i)
  then show ?thesis using band_at_Some [OF Some] assms by (simp add: evaluate_in_band)
qed

lemma request_permitted: "permitted_at cfg antenna hz \<longleftrightarrow> (case band_at hz of None \<Rightarrow> False | Some i \<Rightarrow> band_permitted cfg antenna i)"
  if "antenna \<noteq> []"
  using evaluate_at [OF that, of cfg hz] unfolding request_decision [OF that]
  by (cases "band_at hz") (auto split: if_splits)

lemma decision_texts:
  "message_text version error (Msg_outside obs f) =
    Some (block_label obs @ '' '' @ print_f6 f @ '' MHz is outside known native bands'')"
  "message_text version error (Msg_allowed obs antenna band_name f) =
    Some (allow_label obs @ '' '' @ antenna @ '' on '' @ band_name @ '' at '' @ print_f6 f @ '' MHz'')"
  "message_text version error (Msg_blocked obs antenna band_name f) =
    Some (block_label obs @ '' '' @ antenna @ '' on '' @ band_name @ '' at '' @ print_f6 f @ '' MHz'')"
  by (simp_all add: message_text_def starts_with_def)

lemma decision_logged:
  assumes c: "has_frequency c" "frequency_mhz c = double_literal (of_nat hz / 10 ^ 6)" "tx_antenna c \<noteq> []"
    and hz: "hz < 2 ^ 32 * 10 ^ 6"
  shows "\<exists>l m. log_decision c (evaluate_context c) obs s = (Some (), s\<lparr>trace := Log l m # trace s\<rparr>)
    \<and> message_text version error m = Some (request_text obs (config c) (tx_antenna c) hz)"
proof -
  define f where "f = double_literal (of_nat hz / 10 ^ 6)"
  note decision = request_decision [OF c(3), of "config c" hz, folded f_def]
  note c' = c(1) c(2) [folded f_def] c(3)
  note shown = decision_texts print_f6_hertz [OF hz, folded f_def] request_text_def log_decision_def evaluate_context_def
    ag_log_def emit_def modify_def
  show ?thesis
  proof (cases "band_at hz")
    case None
    then show ?thesis using c' decision
      by (intro exI [of _ AG_LOG_WARNING] exI [of _ "Msg_outside obs f"]) (simp add: shown)
  next
    case (Some i)
    show ?thesis
    proof (cases "band_permitted (config c) (tx_antenna c) i")
      case True
      then show ?thesis using c' decision Some
        by (intro exI [of _ AG_LOG_INFO] exI [of _ "Msg_allowed obs (tx_antenna c) (b_name (BANDS ! i)) f"]) (simp add: shown)
    next
      case False
      then show ?thesis using c' decision Some
        by (intro exI [of _ AG_LOG_WARNING] exI [of _ "Msg_blocked obs (tx_antenna c) (b_name (BANDS ! i)) f"]) (simp add: shown)
    qed
  qed
qed

text \<open>
  C9. What the log says is what was reported and what is done. On a request to transmit at a frequency that the radio
  gave to the hertz, the daemon logs one line with the antenna, the band and the very decimal that was reported, all six
  places, although it computes with a rounded double; the line says ALLOWED (or WOULD ALLOW) exactly if
  the decimal limits of a band enclose that frequency and the band is allowed for the antenna, and then, and only
  then, the interlock is asked to be ready.
\<close>

theorem request_logged_and_answered:
  assumes "flex_field_value payload ''state'' 64 = Some ''PTT_REQUESTED''"
    and "has_frequency c" "frequency_mhz c = double_literal (of_nat hz / 10 ^ 6)" "tx_antenna c \<noteq> []"
    and "hz < 2 ^ 32 * 10 ^ 6"
  shows "\<exists>l m. handle_interlock send payload c =
      set_interlock send (permitted_at (config c) (tx_antenna c) hz) (c\<lparr>trace := Log l m # trace c\<rparr>)
    \<and> message_text version error m = Some (request_text (observe_only c) (config c) (tx_antenna c) hz)"
proof -
  obtain l m where logged: "log_decision c (evaluate_context c) (observe_only c) c = (Some (), c\<lparr>trace := Log l m # trace c\<rparr>)"
    and shown: "message_text version error m = Some (request_text (observe_only c) (config c) (tx_antenna c) hz)"
    using decision_logged [OF assms(2-5)] by blast
  have "allowed (evaluate_context c) = permitted_at (config c) (tx_antenna c) hz"
    using evaluate_at [OF assms(4), of "config c" hz] assms(2,3) by (simp only: evaluate_context_def)
  then have "handle_interlock send payload c =
      set_interlock send (permitted_at (config c) (tx_antenna c) hz) (c\<lparr>trace := Log l m # trace c\<rparr>)"
    unfolding handle_interlock_def assms(1) by (simp add: bind_def gets_def logged)
  then show ?thesis using shown by blast
qed

lemma request_logged_and_answered_witness:
  "\<exists>l m. handle_interlock (send_command silent_env 9) ''state=PTT_REQUESTED'' armed_connection =
      set_interlock (send_command silent_env 9) True (armed_connection\<lparr>trace := Log l m # armed_trace\<rparr>)
    \<and> message_text [] [] m = Some ''ALLOWED ANT1 on 160m at 1.900000 MHz''"
proof -
  have c: "has_frequency armed_connection" "frequency_mhz armed_connection = double_literal (of_nat 1900000 / 10 ^ 6)"
    "tx_antenna armed_connection = ''ANT1''" "trace armed_connection = armed_trace" "\<not> observe_only armed_connection"
    "config armed_connection = test_config"
    by (simp_all add: armed_connection_def Let_def new_connection_def armed_facts)
  have state: "flex_field_value ''state=PTT_REQUESTED'' ''state'' 64 = Some ''PTT_REQUESTED''"
    and band: "lower_limit 0 = 9 / 5" "upper_limit 0 = 2" "band_permitted test_config ''ANT1'' 0"
    and decimal: "mhz_text 1900000 = ''1.900000''" by code_simp+
  have name: "b_name (BANDS ! 0) = ''160m''" by (simp add: BANDS_nth mk_band_def band_limits_def)
  have "band_at 1900000 = Some 0" by (simp add: band_at_def upt_conv_Cons band)
  then have shown: "request_text False test_config ''ANT1'' 1900000 = ''ALLOWED ANT1 on 160m at 1.900000 MHz''"
    using band name decimal by (simp add: request_text_def)
  have ready: "permitted_at test_config ''ANT1'' 1900000" using test_permitted by simp
  have small: "(1900000 :: nat) < 2 ^ 32 * 10 ^ 6" by simp
  have antenna: "tx_antenna armed_connection \<noteq> []" by (simp add: c(3))
  note run = request_logged_and_answered [OF state c(1,2) antenna small, of "send_command silent_env 9" "[]" "[]"]
  have observe: "observe_only armed_connection = False" using c(5) by simp
  show ?thesis using run ready unfolding observe c(3,4,6) shown by (simp only:)
qed

end
