(* ===== verification/Log_Lines.thy ===== *)
theory Log_Lines
  imports Log_Properties
begin

text \<open>
  One message, one line: nothing that the radio sends over its connection can break a line of the log. The line feeds
  of the connection end its lines, so no text taken from a line has one. The exception is the announcement of a radio.
\<close>

subsection \<open>Text without line feeds\<close>

abbreviation unbroken :: "string \<Rightarrow> bool" where
  "unbroken s \<equiv> LF \<notin> set s"

lemma unbroken_dec_string [simp]: "unbroken (dec_string n)"
  using dec_string_digits [of n] by (auto simp: list_all_iff isdigit_def ord_def)

lemma unbroken_zeros [simp]: "LF \<in> set (pad_zeros k s) \<longleftrightarrow> LF \<in> set s"
  by (auto simp: pad_zeros_def)

lemma unbroken_hex_string [simp]: "unbroken (hex_string n)"
proof (induction n rule: hex_string.induct)
  case (1 n)
  have "hex_char d \<noteq> LF" if "d < 16" for d
  proof -
    have "list_all (\<lambda>d. hex_char d \<noteq> LF) [0..<16]" by code_simp
    then show ?thesis using that by (simp add: list_all_iff)
  qed
  then have "LF \<noteq> hex_char d" if "d < 16" for d using that by metis
  then show ?case using 1 by (simp add: hex_string.simps [of n])
qed

lemma unbroken_print_f6 [simp]: "unbroken (print_f6 x)"
  by (cases x) (simp_all add: print_f6_def Let_def)

lemma unbroken_snprintf: "unbroken s \<Longrightarrow> unbroken (snprintf_str k s)"
  by (auto simp: snprintf_str_def dest: in_set_takeD)

fun unbroken_arg :: "printf_arg \<Rightarrow> bool" where
  "unbroken_arg (Str s) = unbroken s"
| "unbroken_arg a = True"

lemma conversion_unbroken:
  "print_conversion cs a = Some (t, cs') \<Longrightarrow> unbroken cs \<Longrightarrow> unbroken_arg a \<Longrightarrow> unbroken t \<and> unbroken cs'"
  by (cases a) (auto split: if_splits dest: in_set_dropD)

lemma vprintf_unbroken:
  "vprintf format args = Some t \<Longrightarrow> unbroken format \<Longrightarrow> list_all unbroken_arg args \<Longrightarrow> unbroken t"
  by (induction format args arbitrary: t rule: vprintf.induct)
    (force split: if_splits list.splits option.splits dest: conversion_unbroken)+

text \<open>Messages that print as one line, and events that leave the log so; an announced radio is set apart.\<close>

definition unbroken_message :: "log_message \<Rightarrow> bool" where
  "unbroken_message m \<longleftrightarrow> list_all unbroken_arg (snd (log_call [] [] m))"

definition announced :: "log_message \<Rightarrow> bool" where
  "announced m = (case m of Msg_discovered a b c d e \<Rightarrow> True | _ \<Rightarrow> False)"

lemma formats_unbroken: "unbroken (fst (log_call version error m))"
  by (cases m) simp_all

lemma message_unbroken:
  assumes "unbroken_message m" "unbroken version" "unbroken error" "message_text version error m = Some t"
  shows "unbroken t"
proof -
  have "list_all unbroken_arg (snd (log_call version error m))"
    using assms(1-3) by (cases m) (simp_all add: unbroken_message_def)
  then show ?thesis
    using vprintf_unbroken [OF _ formats_unbroken] assms(4)
    by (cases "log_call version error m") (metis (no_types, lifting) fst_conv snd_conv message_text_def case_prod_conv)
qed

definition neat_event :: "event \<Rightarrow> bool" where
  "neat_event e = (case e of Log l m \<Rightarrow> unbroken_message m \<or> announced m | _ \<Rightarrow> True)"

subsection \<open>Operations that keep the log so\<close>

text \<open>From a state with \<open>J\<close>, whatever \<open>m\<close> returns satisfies \<open>P\<close>, and every state it stops in \<open>J\<close>.\<close>

definition yields :: "('s \<Rightarrow> bool) \<Rightarrow> ('a \<Rightarrow> bool) \<Rightarrow> ('s, 'a) prog \<Rightarrow> bool" where
  "yields J P m \<longleftrightarrow> (\<forall>s. J s \<longrightarrow> wp m (\<lambda>x s'. J s' \<and> P x) J s)"

lemma yieldsD: "yields J P m \<Longrightarrow> J s \<Longrightarrow> wp m (\<lambda>x s'. J s' \<and> P x) J s"
  by (simp add: yields_def)

lemma yields_bind:
  assumes "yields J P m" "\<And>x. P x \<Longrightarrow> yields J Q (f x)"
  shows "yields J Q (bind m f)"
  unfolding yields_def wp_bind
proof (intro allI impI)
  fix s assume "J s"
  from yieldsD [OF assms(1) this] show "wp m (\<lambda>x. wp (f x) (\<lambda>x s'. J s' \<and> Q x) J) J s"
    by (rule wp_mono) (auto intro: yieldsD [OF assms(2)])
qed

lemma yields_ret: "P x \<Longrightarrow> yields J P (ret x)"
  by (simp add: yields_def wp_ret)

lemma yields_cut: "yields J P cut"
  by (simp add: yields_def wp_cut)

lemma yields_gets: "(\<And>s. J s \<Longrightarrow> yields J P (f (g s))) \<Longrightarrow> yields J P (bind (gets g) f)"
  by (simp add: yields_def wp_bind wp_gets)

lemma yields_modify: "(\<And>s. J s \<Longrightarrow> J (g s)) \<Longrightarrow> yields J P (f ()) \<Longrightarrow> yields J P (bind (modify g) f)"
  by (simp add: yields_def wp_bind wp_modify)

lemma yields_modify_only: "(\<And>s. J s \<Longrightarrow> J (g s)) \<Longrightarrow> P () \<Longrightarrow> yields J P (modify g)"
  by (simp add: yields_def wp_modify)

lemma yields_mono: "yields J P m \<Longrightarrow> (\<And>x. P x \<Longrightarrow> Q x) \<Longrightarrow> yields J Q m"
  unfolding yields_def [of J Q] by (auto intro: wp_mono [OF yieldsD])

lemma yields_if: "(b \<Longrightarrow> yields J P m) \<Longrightarrow> (\<not> b \<Longrightarrow> yields J P m') \<Longrightarrow> yields J P (if b then m else m')"
  by simp

lemma yields_option: "(v = None \<Longrightarrow> yields J P m) \<Longrightarrow> (\<And>x. v = Some x \<Longrightarrow> yields J P (f x)) \<Longrightarrow>
    yields J P (case v of None \<Rightarrow> m | Some x \<Rightarrow> f x)"
  by (cases v) simp_all

lemma yields_prod: "(\<And>x y. p = (x, y) \<Longrightarrow> yields J P (f x y)) \<Longrightarrow> yields J P (case p of (x, y) \<Rightarrow> f x y)"
  by (cases p) simp

lemma yields_list: "(v = [] \<Longrightarrow> yields J P m) \<Longrightarrow> (\<And>x xs. v = x # xs \<Longrightarrow> yields J P (f x xs)) \<Longrightarrow>
    yields J P (case v of [] \<Rightarrow> m | x # xs \<Rightarrow> f x xs)"
  by (cases v) simp_all

lemma yields_sysret: "(\<And>e. yields J P (f e)) \<Longrightarrow> (\<And>x. yields J P (g x)) \<Longrightarrow>
    yields J P (case r of Sys_error e \<Rightarrow> f e | Sys_ok x \<Rightarrow> g x)"
  by (cases r) simp_all

lemma yields_poll: "(\<And>e. yields J P (f e)) \<Longrightarrow> yields J P m \<Longrightarrow> (\<And>ev. yields J P (g ev)) \<Longrightarrow>
    yields J P (case r of Poll_error e \<Rightarrow> f e | Poll_timeout \<Rightarrow> m | Poll_ready ev \<Rightarrow> g ev)"
  by (cases r) simp_all

text \<open>The first parts of a sequence, by their form.\<close>

lemma yields_bind_bind: "yields J P (bind m (\<lambda>x. bind (g x) f)) \<Longrightarrow> yields J P (bind (bind m g) f)"
  unfolding yields_def wp_bind .

lemma yields_bind_ret: "yields J P (f x) \<Longrightarrow> yields J P (bind (ret x) f)"
  by (simp add: yields_def wp_bind wp_ret)

lemma yields_bind_if:
  "(b \<Longrightarrow> yields J P (bind m f)) \<Longrightarrow> (\<not> b \<Longrightarrow> yields J P (bind m' f)) \<Longrightarrow> yields J P (bind (if b then m else m') f)"
  by simp

lemma yields_bind_option:
  "(v = None \<Longrightarrow> yields J P (bind m f)) \<Longrightarrow> (\<And>x. v = Some x \<Longrightarrow> yields J P (bind (g x) f)) \<Longrightarrow>
    yields J P (bind (case v of None \<Rightarrow> m | Some x \<Rightarrow> g x) f)"
  by (cases v) simp_all

lemma yields_bind_prod:
  "(\<And>x y. p = (x, y) \<Longrightarrow> yields J P (bind (g x y) f)) \<Longrightarrow> yields J P (bind (case p of (x, y) \<Rightarrow> g x y) f)"
  by (cases p) simp_all

lemma yields_bind_poll:
  "(\<And>e. yields J P (bind (g e) f)) \<Longrightarrow> yields J P (bind m f) \<Longrightarrow> (\<And>ev. yields J P (bind (h ev) f)) \<Longrightarrow>
    yields J P (bind (case r of Poll_error e \<Rightarrow> g e | Poll_timeout \<Rightarrow> m | Poll_ready ev \<Rightarrow> h ev) f)"
  by (cases r) simp_all

lemmas yields_cases =
  yields_bind_bind yields_bind_ret yields_bind_if yields_bind_option yields_bind_prod yields_bind_poll
  yields_if yields_option yields_prod yields_list yields_sysret yields_poll

lemma unbroken_join: "list_all unbroken ws \<Longrightarrow> d \<noteq> LF \<Longrightarrow> unbroken (join_on d ws)"
  by (induction d ws rule: join_on.induct) auto

lemma unbroken_address: "inet_pton4 s = Some bytes \<Longrightarrow> unbroken s"
  using inet_pton4_text [of s bytes] unbroken_join by (auto simp: list_all_iff)

subsection \<open>Calls and messages\<close>

locale log_keeper =
  fixes J :: "'w world_scheme \<Rightarrow> bool"
  assumes tick_ok: "J w \<Longrightarrow> J (w\<lparr>tick := t\<rparr>)"
    and stop_ok: "J w \<Longrightarrow> J (w\<lparr>stop_requested := b\<rparr>)"
    and event_ok: "J w \<Longrightarrow> neat_event e \<Longrightarrow> J (w\<lparr>trace := e # trace w\<rparr>)"
begin

lemma sys_yields: "yields J (\<lambda>_. True) (sys g)" "yields J (\<lambda>_. True) (read_stop E)"
    "yields J (\<lambda>_. True) (monotonic_milliseconds E)"
  by (simp_all add: yields_def wp_sys wp_read_stop wp_monotonic tick_ok stop_ok)

lemma emit_yields: "neat_event e \<Longrightarrow> P () \<Longrightarrow> yields J P (emit e)"
  by (simp add: yields_def wp_emit event_ok)

lemma log_yields: "unbroken_message m \<or> announced m \<Longrightarrow> P () \<Longrightarrow> yields J P (ag_log l m)"
  by (simp add: ag_log_def emit_yields neat_event_def)

lemma close_yields: "P () \<Longrightarrow> yields J P (close_fd fd)"
  by (simp add: close_fd_def emit_yields neat_event_def)

lemmas log_first = yields_bind [where P = "\<lambda>_. True", OF log_yields]
lemmas emit_first = yields_bind [where P = "\<lambda>_. True", OF emit_yields]
lemmas close_first = yields_bind [where P = "\<lambda>_. True", OF close_yields]

lemmas yields_rules =
  yields_cases yields_ret yields_cut yields_gets sys_yields(1) [THEN yields_bind] sys_yields(2) [THEN yields_bind]
  sys_yields(3) [THEN yields_bind] sys_yields log_first emit_first close_first log_yields emit_yields close_yields

lemma send_all_yields: "yields J (\<lambda>_. True) (send_all E n data)"
  by (induction n arbitrary: data) (auto simp: Let_def neat_event_def intro!: yields_rules)

lemma connect_yields: "unbroken (host cfg) \<Longrightarrow> yields J (\<lambda>_. True) (connect_socket E cfg)"
proof -
  have attempt: "yields J (\<lambda>_. True) (try_address E)"
    unfolding try_address_def give_up_def by (auto intro!: yields_rules)
  have "yields J (\<lambda>_. True) (try_addresses E i)" for i
    by (induction i) (auto intro!: yields_rules yields_bind [OF attempt])
  then show "unbroken (host cfg) \<Longrightarrow> yields J (\<lambda>_. True) (connect_socket E cfg)"
    unfolding connect_socket_def
    by (auto simp: unbroken_message_def intro!: yields_rules yields_bind [where P = "\<lambda>_. True" and m = "try_addresses E i" for i])
qed

lemma sleep_yields: "yields J (\<lambda>_. True) (sleep_interruptibly E n seconds)"
proof -
  have interval: "yields J (\<lambda>_. True) (sleep_interval E n)"
    by (induction n) (auto simp: neat_event_def intro!: yields_rules)
  have "yields J (\<lambda>_. True) (sleep_rounds E n i)" for i
    by (induction i) (auto intro!: yields_rules yields_bind [OF interval])
  then show ?thesis unfolding sleep_interruptibly_def .
qed

lemma discovery_yields:
  "yields J (\<lambda>r. \<forall>radio. r = AG_DISCOVERY_MATCHED radio \<longrightarrow> unbroken (radio_host radio)) (ag_discovery_wait E n cfg)"
proof -
  have host: "unbroken (radio_host radio)" if "parse_packet packet = Some radio" for packet radio
    using parse_packet_fits [OF that] unbroken_address by (auto simp: radio_fits_def)
  have "yields J (\<lambda>r. \<forall>radio. r = AG_DISCOVERY_MATCHED radio \<longrightarrow> unbroken (radio_host radio)) (discovery_poll E n cfg fd)" for fd
    by (induction n) (auto simp: unbroken_message_def intro!: yields_rules dest: host)
  then show ?thesis
    unfolding ag_discovery_wait_def by (auto simp: unbroken_message_def intro!: yields_rules)
qed

end

subsection \<open>A connection\<close>

text \<open>All that a connection remembers of the radio is free of line feeds, and so are the names of its antennas.\<close>

definition neat :: "ag_connection \<Rightarrow> bool" where
  "neat c \<longleftrightarrow> list_all neat_event (trace c) \<and> unbroken (host (config c))
     \<and> list_all (\<lambda>p. unbroken (antenna_id p)) (antennas (config c))
     \<and> unbroken (interlock_id c) \<and> unbroken (tx_antenna c) \<and> list_all (\<lambda>r. unbroken (saved_body r)) (saved_responses c)"

interpretation tidy: log_keeper neat
  by unfold_locales (simp_all add: neat_def)

interpretation tidy_world: log_keeper "\<lambda>w. list_all neat_event (trace w)"
  by unfold_locales simp_all

definition neat_answer :: "int \<times> string \<Rightarrow> bool" where
  "neat_answer result \<longleftrightarrow> unbroken (snd result)"

lemma neat_answer_Pair [simp]: "neat_answer (r, s) \<longleftrightarrow> unbroken s"
  by (simp add: neat_answer_def)

lemma unbroken_line:
  assumes "k \<le> length (takeWhile (\<lambda>c. c \<noteq> LF) buffer)"
  shows "unbroken (cstr (take k buffer))"
proof -
  let ?first = "takeWhile (\<lambda>c. c \<noteq> LF) buffer"
  have "take k buffer = take k (takeWhile (\<lambda>c. c \<noteq> LF) buffer @ dropWhile (\<lambda>c. c \<noteq> LF) buffer)" by simp
  also have "\<dots> = take k ?first" using assms by (simp del: takeWhile_dropWhile_id)
  finally have "set (take k buffer) \<subseteq> set ?first" by (metis set_take_subset)
  then show ?thesis by (auto simp: cstr_def dest!: set_takeWhileD)
qed

lemma neat_buffer [simp]: "neat (c\<lparr>receive_buffer := b\<rparr>) = neat c"
  by (simp add: neat_def)

lemma extract_line_yields: "yields neat neat_answer (extract_line k)"
  unfolding extract_line_def Let_def
  by (auto simp: unbroken_message_def cstr_def [of "[]"] intro!: tidy.yields_rules yields_modify unbroken_line)

lemma poll_yields: "yields neat neat_answer (poll_and_receive E n k)"
  by (induction n)
    (auto simp: Let_def unbroken_message_def intro!: tidy.yields_rules yields_modify extract_line_yields)

lemma read_line_yields: "yields neat neat_answer (read_line E n k)"
  unfolding read_line_def
  by (auto simp: unbroken_message_def intro!: tidy.yields_rules poll_yields yields_bind [OF extract_line_yields])

lemma store_unbroken:
  "store_response r rs = Some rs' \<Longrightarrow> unbroken (saved_body r) \<Longrightarrow> list_all (\<lambda>r. unbroken (saved_body r)) rs \<Longrightarrow>
    list_all (\<lambda>r. unbroken (saved_body r)) rs'"
  by (induction rs arbitrary: rs') (auto split: if_splits)

lemma save_yields: "unbroken body \<Longrightarrow> yields neat (\<lambda>_. True) (save_response q code body)"
  unfolding save_response_def
  by (auto simp: unbroken_message_def unbroken_snprintf intro!: tidy.yields_rules yields_modify_only)
    (auto simp: neat_def unbroken_snprintf dest: store_unbroken)

lemma fetch_unbroken:
  "fetch_response q rs = (found, rs') \<Longrightarrow> list_all (\<lambda>r. unbroken (saved_body r)) rs \<Longrightarrow>
    list_all (\<lambda>r. unbroken (saved_body r)) rs' \<and> (\<forall>code body. found = Some (code, body) \<longrightarrow> unbroken body)"
  by (induction rs arbitrary: rs') (auto split: if_splits prod.splits)

lemma take_yields: "yields neat (\<lambda>found. \<forall>code body. found = Some (code, body) \<longrightarrow> unbroken body) (take_response q)"
  unfolding yields_def take_response_def
  by (auto simp: wp_rules neat_def dest: fetch_unbroken split: prod.split)

lemma accept_yields: "unbroken command \<Longrightarrow> unbroken body \<Longrightarrow> yields neat neat_answer (accept_response command code body k)"
  unfolding accept_response_def
  by (auto simp: unbroken_message_def unbroken_snprintf intro!: tidy.yields_rules)

lemma strtoul_end: "set (ul_end (strtoul s base)) \<subseteq> set s"
proof -
  have sign: "set (snd (read_sign t)) \<subseteq> set t" for t by (auto simp: read_sign_def split: list.split)
  have prefix: "set (skip_0x base t) \<subseteq> set t" for t by (auto simp: skip_0x_def split: list.split)
  have space: "set (skip_space t) \<subseteq> set t" for t by (auto simp: skip_space_def dest: set_dropWhileD)
  obtain neg t where t: "read_sign (skip_space s) = (neg, t)" by (cases "read_sign (skip_space s)")
  then have "set (skip_0x base t) \<subseteq> set s" using sign [of "skip_space s"] prefix [of t] space [of s] by auto
  then show ?thesis by (auto simp: strtoul_def Let_def t dest: set_dropWhileD)
qed

lemma response_unbroken: "parse_response line = Some (q, code, body) \<Longrightarrow> unbroken line \<Longrightarrow> unbroken body"
proof -
  assume "parse_response line = Some (q, code, body)" and line: "unbroken line"
  then obtain rest cursor where parts: "line = CHR ''R'' # rest" "ul_end (strtoul rest 10) = CHR ''|'' # cursor"
      "ul_end (strtoul cursor 16) = CHR ''|'' # body"
    by (auto simp: parse_response_def after_bar_def Let_def split: list.splits if_splits)
  have "set body \<subseteq> set cursor" using strtoul_end [of cursor 16] parts(3) by simp
  moreover have "set cursor \<subseteq> set rest" using strtoul_end [of rest 10] parts(2) by simp
  ultimately show ?thesis using line parts(1) by auto
qed

lemma field_raw_set: "field_raw field s = Some v \<Longrightarrow> set v \<subseteq> set s"
proof (induction field s rule: field_raw.induct)
  case (1 field cursor)
  from 1 show ?case
    by (subst (asm) (2) field_raw.simps)
      (fastforce simp: Let_def split: if_splits dest: in_set_dropD set_takeWhileD set_dropWhileD)
qed

lemma field_unbroken: "flex_field_value payload field k = Some v \<Longrightarrow> unbroken payload \<Longrightarrow> unbroken v"
  using field_raw_set by (fastforce simp: flex_field_value_def split: option.splits if_splits dest: in_set_takeD)

lemma payload_unbroken: "unbroken line \<Longrightarrow> unbroken (drop k (status_payload line))"
  by (auto simp: status_payload_def dest!: in_set_dropD set_dropWhileD)

lemma band_unbroken: "unbroken (band (evaluate_context c))"
proof -
  have "list_all (\<lambda>(n, limits). unbroken n) band_limits"
    by (simp add: band_limits_def)
  then have name: "unbroken (b_name (BANDS ! i))" if "i < 11" for i
    using that by (simp add: list_all_length BANDS_nth mk_band_def split_beta)
  show ?thesis
    by (cases rule: band_for_frequency_cases [of "frequency_mhz c"])
      (auto simp: evaluate_context_def ag_policy_evaluate_def Let_def name split: option.split)
qed

text \<open>The functions that send commands, for commands without line feeds.\<close>

definition neat_send :: "send \<Rightarrow> bool" where
  "neat_send send \<longleftrightarrow> (\<forall>command k cleanup. unbroken command \<longrightarrow> yields neat neat_answer (send command k cleanup))"

lemma neat_sendD: "neat_send send \<Longrightarrow> unbroken command \<Longrightarrow> yields neat neat_answer (send command k cleanup)"
  by (simp add: neat_send_def)

lemma interlock_unbroken: "unbroken i \<Longrightarrow> unbroken (interlock_command b i)" "unbroken i \<Longrightarrow> unbroken (remove_command i)"
  by (simp_all add: interlock_command_def remove_command_def unbroken_snprintf)

lemma set_interlock_yields: "neat_send send \<Longrightarrow> yields neat (\<lambda>_. True) (set_interlock send b)"
  unfolding set_interlock_def
  by (auto intro!: tidy.yields_rules yields_modify yields_bind [OF neat_sendD] interlock_unbroken) (auto simp: neat_def)

lemma neat_texts: "neat c \<Longrightarrow> unbroken (tx_antenna c)" "neat c \<Longrightarrow> unbroken (interlock_id c)"
  by (simp_all add: neat_def)

lemma handle_transmit_yields:
  assumes "neat_send send" "unbroken p"
  shows "yields neat (\<lambda>_. True) (handle_transmit send p)"
proof -
  have freq: "neat (set_frequency v c) = neat c" for v c
    by (simp add: set_frequency_def Let_def neat_def)
  have antenna: "yields neat (\<lambda>_. True) (set_antenna v)" if "unbroken v" for v
    unfolding set_antenna_def
    by (intro tidy.yields_rules yields_modify_only) (use that in \<open>simp_all add: neat_def unbroken_message_def\<close>)
  show ?thesis unfolding handle_transmit_def
    by (intro tidy.yields_rules yields_modify yields_bind [OF antenna] set_interlock_yields assms)
      (simp_all add: freq field_unbroken [OF _ assms(2)])
qed

lemma handle_interlock_yields:
  assumes "neat_send send"
  shows "yields neat (\<lambda>_. True) (handle_interlock send p)"
  unfolding handle_interlock_def log_decision_def
  by (intro tidy.yields_rules set_interlock_yields assms)
    (simp_all add: unbroken_message_def band_unbroken neat_texts)

lemma handle_status_yields:
  assumes send: "neat_send send" and line: "unbroken line"
  shows "yields neat (\<lambda>_. True) (handle_status send line)"
  unfolding status_dispatch
  by (intro yields_if handle_transmit_yields handle_interlock_yields send payload_unbroken line yields_ret TrueI)

lemma await_yields:
  assumes send: "neat_send send" and command: "unbroken command"
  shows "yields neat neat_answer (await_response E send n command k cleanup q deadline)"
proof (induction n)
  case (Suc n)
  show ?case unfolding await_response.simps
    by (intro tidy.yields_rules yields_bind [OF take_yields] yields_bind [OF read_line_yields] yields_bind [OF save_yields]
        yields_bind [OF handle_status_yields [OF send]] accept_yields command Suc.IH)
      (auto simp: unbroken_message_def dest: response_unbroken)
qed (simp add: yields_cut)

lemma once_yields:
  assumes send: "neat_send send" and command: "unbroken command"
  shows "yields neat neat_answer (send_command_once E send n command k cleanup)"
  unfolding send_command_once_def
  by (intro tidy.yields_rules yields_modify yields_bind [OF tidy.send_all_yields] await_yields send command)
    (simp_all add: unbroken_message_def command neat_def)

lemma drain_yields:
  assumes send: "neat_send send"
  shows "yields neat (\<lambda>_. True) (drain_interlock E send n)"
proof (induction n)
  case 0
  show ?case unfolding drain_interlock.simps by (intro tidy.yields_rules) simp_all
next
  case (Suc n)
  show ?case unfolding drain_interlock.simps
    by (intro tidy.yields_rules yields_modify yields_bind [OF once_yields [OF send]] interlock_unbroken Suc.IH)
      (simp_all add: neat_def)
qed

lemma send_command_yields: "neat_send (send_command E n)"
proof (induction n)
  case (Suc n)
  show ?case unfolding neat_send_def send_command.simps
    by (intro allI impI tidy.yields_rules yields_modify yields_bind [OF once_yields [OF Suc.IH]]
        yields_bind [OF drain_yields [OF Suc.IH]]) (simp_all add: neat_def unbroken_message_def)
qed (simp add: neat_send_def yields_cut)

lemma send_commands_yields:
  "neat_send send \<Longrightarrow> list_all unbroken cs \<Longrightarrow> yields neat (\<lambda>_. True) (send_commands send cs)"
  by (induction cs) (auto intro!: tidy.yields_rules yields_bind [OF neat_sendD])

lemma antenna_list_unbroken:
  "antenna_list i acc ps = Some names \<Longrightarrow> unbroken acc \<Longrightarrow> list_all (\<lambda>p. unbroken (antenna_id p)) ps \<Longrightarrow> unbroken names"
  by (induction i acc ps rule: antenna_list.induct) (auto simp: Let_def split: if_splits)

lemma arm_yields:
  assumes "neat_send send" "unbroken body"
  shows "yields neat (\<lambda>_. True) (arm_interlock send body)"
  unfolding arm_interlock_def Let_def
  by (intro tidy.yields_rules yields_modify yields_bind [OF set_interlock_yields] assms)
    (use assms(2) in \<open>auto simp: neat_def unbroken_message_def dest: set_takeWhileD\<close>)

lemma initialize_yields:
  assumes send: "neat_send send"
  shows "yields neat (\<lambda>_. True) (initialize_session send)"
proof -
  have commands: "list_all unbroken subscriptions" by (simp add: subscriptions_def)
  have create: "unbroken (create_command names)" if "antenna_list 0 [] (antennas (config c)) = Some names" "neat c" for c names
    using antenna_list_unbroken [OF that(1)] that(2) by (simp add: create_command_def neat_def)
  show ?thesis unfolding initialize_session_def
    by (intro tidy.yields_rules yields_bind [OF send_commands_yields] yields_bind [OF neat_sendD] arm_yields send commands create)
      (simp_all add: unbroken_message_def neat_answer_def)
qed

lemma session_loop_yields:
  assumes send: "neat_send send"
  shows "yields neat (\<lambda>_. True) (session_loop E send n)"
proof (induction n)
  case 0
  show ?case unfolding session_loop.simps by (intro tidy.yields_rules) simp_all
next
  case (Suc n)
  show ?case unfolding session_loop.simps
    by (intro tidy.yields_rules yields_bind [OF read_line_yields] yields_bind [OF handle_status_yields [OF send]] Suc.IH)
      (auto simp: unbroken_message_def)
qed

lemma close_session_yields: "yields neat (\<lambda>_. True) (close_session (send_command E n))"
  unfolding close_session_def remove_interlock_def
  by (intro tidy.yields_rules yields_modify_only yields_bind [OF neat_sendD [OF send_command_yields]] yields_modify interlock_unbroken)
    (simp_all add: neat_def unbroken_message_def)

lemma session_program_yields: "yields neat (\<lambda>_. True) (session_program E n attempt)"
proof -
  have connect: "yields neat (\<lambda>_. True) (connect_socket E (config c))" if "neat c" for c
    using that by (intro tidy.connect_yields) (simp add: neat_def)
  have "yields neat (\<lambda>_. True) (connected_session E n)"
    unfolding connected_session_def
    by (intro tidy.yields_rules yields_bind [OF initialize_yields] yields_bind [OF session_loop_yields]
        yields_bind [OF close_session_yields] send_command_yields) simp_all
  then show ?thesis
    unfolding session_program_def
    by (intro tidy.yields_rules yields_bind [OF connect] yields_modify) (simp_all add: neat_def unbroken_message_def)
qed

subsection \<open>The program\<close>

abbreviation neat_log :: "world \<Rightarrow> bool" where
  "neat_log w \<equiv> list_all neat_event (trace w)"

definition unbroken_config :: "ag_config \<Rightarrow> bool" where
  "unbroken_config cfg \<longleftrightarrow> unbroken (host cfg) \<and> list_all (\<lambda>p. unbroken (antenna_id p)) (antennas cfg)"

lemma run_session_yields:
  assumes "unbroken_config cfg"
  shows "yields neat_log (\<lambda>_. True) (ag_flex_run_session E n cfg obs attempt)"
  unfolding yields_def
proof (intro allI impI)
  fix w assume "neat_log w"
  moreover have "list_all (\<lambda>r. unbroken (saved_body r)) (replicate AG_SAVED_RESPONSES free_slot)"
    by (simp add: list_all_iff free_slot_def)
  ultimately have "neat (new_connection cfg obs w)"
    using assms by (simp add: neat_def new_connection_def unbroken_config_def)
  from yieldsD [OF session_program_yields this, of E n attempt]
  show "wp (ag_flex_run_session E n cfg obs attempt) (\<lambda>_ w'. neat_log w' \<and> True) neat_log w"
    by (cases "session_program E n attempt (new_connection cfg obs w)")
      (auto simp: wp_def ag_flex_run_session_def neat_def split: option.splits)
qed

lemma stopped_yields: "yields neat_log (\<lambda>_. True) stopped"
  unfolding stopped_def by (intro tidy_world.yields_rules) (simp_all add: unbroken_message_def)

lemma discovery_loop_yields:
  assumes "unbroken_config cfg"
  shows "yields neat_log (\<lambda>_. True) (discovery_loop E n k cfg opts attempt)"
proof (induction k arbitrary: attempt)
  case 0
  show ?case unfolding discovery_loop.simps by (intro tidy_world.yields_rules stopped_yields)
next
  case (Suc k)
  have session: "yields neat_log (\<lambda>_. True) (ag_flex_run_session E n (session_config cfg radio) obs b)"
    if "unbroken (radio_host radio)" for radio obs b
    by (rule run_session_yields) (use assms that in \<open>simp add: unbroken_config_def session_config_def unbroken_snprintf\<close>)
  have rest: "yields neat_log (\<lambda>_. True) (bind (log_discovered radio) f)"
    if "yields neat_log (\<lambda>_. True) (f ())" for radio f
    unfolding log_discovered_def
    by (intro tidy_world.yields_rules) (use that in \<open>simp_all add: announced_def\<close>)
  show ?case
    unfolding discovery_loop.simps
  proof (intro tidy_world.yields_rules stopped_yields yields_bind [OF tidy_world.discovery_yields], goal_cases)
    case (1 x xa)
    then show ?case
      by (cases xa) (auto intro!: tidy_world.yields_rules stopped_yields rest yields_bind [OF session] Suc.IH simp: unbroken_message_def)
  qed
qed

lemma direct_loop_yields:
  assumes "unbroken_config cfg"
  shows "yields neat_log (\<lambda>_. True) (direct_loop E n k cfg opts delay next_log attempt)"
proof (induction k arbitrary: delay next_log attempt)
  case 0
  show ?case unfolding direct_loop.simps by (intro tidy_world.yields_rules stopped_yields)
next
  case (Suc k)
  show ?case unfolding direct_loop.simps
    by (intro tidy_world.yields_rules stopped_yields yields_bind [OF run_session_yields [OF assms]]
        yields_bind [OF tidy_world.sleep_yields] Suc.IH) (simp_all add: unbroken_message_def)
qed

lemma options_neat:
  assumes "parse_options version args opts = Inl (output, status)"
  shows "list_all neat_event output"
proof -
  have "neat_event e" if "printed e" for e using that by (cases e) (simp_all add: neat_event_def)
  then show ?thesis using parse_options_output [OF assms] by (auto simp: list_all_iff)
qed

lemma emit_all_yields: "list_all neat_event es \<Longrightarrow> yields neat_log (\<lambda>_. True) (emit_all es)"
  by (induction es) (auto intro!: tidy_world.yields_rules)

lemma valid_id_unbroken: "valid_antenna_id i \<Longrightarrow> unbroken i"
proof -
  have "\<not> isalnum LF" by code_simp
  then show "valid_antenna_id i \<Longrightarrow> unbroken i" by (auto simp: valid_antenna_id_def list_all_iff)
qed

lemma main_yields:
  assumes "\<And>opts cfg. parse_options version args default_options = Inr opts \<Longrightarrow>
    load_config (config_path opts) (files (config_path opts)) = Inr cfg \<Longrightarrow> unbroken (host cfg)"
  shows "yields neat_log (\<lambda>_. True) (main E n version files args)"
proof -
  have loaded: "unbroken_config cfg"
    if "parse_options version args default_options = Inr opts" "load_config (config_path opts) (files (config_path opts)) = Inr cfg"
    for opts cfg
  proof -
    have "antennas_valid (antennas cfg)"
      using that(2) unfolding load_config_def by (auto dest: cjson.load_valid simp: config_valid_def)
    then have "list_all (\<lambda>p. unbroken (antenna_id p)) (antennas cfg)"
      using valid_id_unbroken by (auto simp: antennas_valid_def list_all_iff)
    then show ?thesis using assms [OF that] by (simp add: unbroken_config_def)
  qed
  have guard: "yields neat_log (\<lambda>_. True) (guard_radio E n opts cfg)" if "unbroken_config cfg" for opts cfg
    unfolding guard_radio_def
    by (intro tidy_world.yields_rules discovery_loop_yields direct_loop_yields that)
      (simp_all add: unbroken_message_def neat_event_def)
  show ?thesis
    unfolding main_def
    by (auto intro!: tidy_world.yields_rules yields_bind [OF emit_all_yields] guard loaded
        simp: neat_event_def dest: options_neat split: sum.split)
qed

subsection \<open>Properties\<close>

text \<open>What a call of \<^verbatim>\<open>ag_log\<close> writes is nothing, or one line.\<close>

definition one_line :: "string \<Rightarrow> bool" where
  "one_line s \<longleftrightarrow> s = [] \<or> (\<exists>line. s = line @ [LF] \<and> unbroken line)"

lemma log_line_unbroken:
  assumes "unbroken_message m" "unbroken version" "unbroken error" "unbroken stamp"
  shows "one_line (log_line version error st stamp level m)"
proof -
  obtain t where t: "message_text version error m = Some t" using message_text_defined by blast
  have "unbroken t" by (rule message_unbroken [OF assms(1-3) t])
  moreover have "unbroken (pad_right 5 (log_label level))" by (cases level) (simp_all add: pad_right_def)
  ultimately have "unbroken (stamp @ '' '' @ pad_right 5 (log_label level) @ '' '' @ t)" using assms(4) by simp
  then show ?thesis
    by (cases "level = AG_LOG_DEBUG \<and> \<not> verbose_enabled st") (auto simp: log_line_def t ag_log_output_def one_line_def)
qed

text \<open>
  C16. The log cannot be forged over the connection to the radio. In every run of the program, whatever the radio, the
  network and the other hosts send, each call of \<^verbatim>\<open>ag_log\<close> prints exactly one line, or nothing: no status line,
  answer, antenna name or interlock identifier of the radio brings a line feed into it, provided that the host name in
  the configuration has none. The only exception is the message about a discovered radio.
\<close>

theorem log_lines_unbroken:
  fixes st :: log_state
  assumes "\<And>opts cfg. parse_options version args default_options = Inr opts \<Longrightarrow>
      load_config (config_path opts) (files (config_path opts)) = Inr cfg \<Longrightarrow> LF \<notin> set (host cfg)"
    and "trace w = []" "LF \<notin> set version" "LF \<notin> set error" "LF \<notin> set stamp"
  defines "lines \<equiv> \<lambda>w'. \<forall>level m. Log level m \<in> set (trace w') \<longrightarrow> announced m \<or> one_line (log_line version error st stamp level m)"
  shows "wp (main E n version files args) (\<lambda>status. lines) lines w"
proof -
  have lines: "lines w'" if "neat_log w'" for w'
    using that log_line_unbroken [OF _ assms(3-5)] by (fastforce simp: lines_def list_all_iff neat_event_def)
  have "neat_log w" by (simp add: assms(2))
  from yieldsD [OF main_yields [OF assms(1)] this] show ?thesis
    by (rule wp_mono) (use lines in auto)
qed

lemma log_lines_unbroken_witness:
  "wp (main (answering (''S7|transmit freq=1.9 tx_antenna=ANT1'' @ [LF])) 50 ''1'' (\<lambda>_. file_of sample_text) [''-c'', ''c.json''])
    (\<lambda>status w'. \<forall>level m. Log level m \<in> set (trace w') \<longrightarrow> announced m
       \<or> one_line (log_line ''1'' ''EIO'' \<lparr>verbose_enabled = True\<rparr> ''12:00:00'' level m))
    (\<lambda>w'. \<forall>level m. Log level m \<in> set (trace w') \<longrightarrow> announced m
       \<or> one_line (log_line ''1'' ''EIO'' \<lparr>verbose_enabled = True\<rparr> ''12:00:00'' level m))
    start_world"
proof (rule log_lines_unbroken)
  fix opts cfg
  assume "parse_options ''1'' [''-c'', ''c.json''] default_options = Inr opts"
    and "load_config (config_path opts) (file_of sample_text) = Inr cfg"
  then have "cfg = sample_config" using sample_runs by (simp add: runs_with_def split: if_splits)
  then show "LF \<notin> set (host cfg)" by (simp add: sample_config_def)
qed (simp_all add: start_world_def)

text \<open>
  C25. The exception: any host on the network can break the line that reports a discovered radio. The announcement of a
  radio whose name has a line feed passes every check of \<^verbatim>\<open>parse_packet\<close>, and the message that is logged
  when it is selected prints more than one line.
\<close>

theorem announced_name_breaks_the_log:
  assumes "radio_fits radio" "plain_radio radio" "LF \<in> set (radio_name radio)"
  shows "\<exists>packet m. parse_packet packet = Some radio
    \<and> log_discovered radio w = (Some (), w\<lparr>trace := Log AG_LOG_INFO m # trace w\<rparr>)
    \<and> \<not> one_line (log_line version error st stamp AG_LOG_INFO m)"
proof -
  define m where "m = Msg_discovered (if model radio = [] then ''Flex radio'' else model radio) (radio_name radio) (serial radio)
    (radio_host radio) (radio_port radio)"
  have logged: "log_discovered radio w = (Some (), w\<lparr>trace := Log AG_LOG_INFO m # trace w\<rparr>)"
    by (simp add: log_discovered_def ag_log_def emit_def modify_def m_def)
  obtain t where t: "message_text version error m = Some t" "LF \<in> set t"
    using assms(3) by (simp add: m_def message_text_def starts_with_def)
  then have "\<not> one_line (log_line version error st stamp AG_LOG_INFO m)"
    by (simp add: log_line_def ag_log_output_def one_line_def)
  moreover have "parse_packet (announcement 0 0 0 [] (render_fields (radio_fields radio)) @ []) = Some radio"
    using packet_payload_announcement [of 0 0 0 "[]", OF _ _ _ _ radio_payload [OF assms(1,2)], of "[]"]
    by (simp add: parse_packet_def parse_fields_radio assms(1,2) stamps_length_def)
  ultimately show ?thesis using logged by blast
qed

lemma announced_name_breaks_the_log_witness:
  "\<exists>packet m. parse_packet packet = Some (example_radio\<lparr>radio_name := ''x'' @ [LF] @ ''forged''\<rparr>)
    \<and> log_discovered (example_radio\<lparr>radio_name := ''x'' @ [LF] @ ''forged''\<rparr>) start_world
      = (Some (), start_world\<lparr>trace := Log AG_LOG_INFO m # trace start_world\<rparr>)
    \<and> \<not> one_line (log_line ''1'' ''EIO'' \<lparr>verbose_enabled = False\<rparr> ''12:00:00'' AG_LOG_INFO m)"
proof (rule announced_name_breaks_the_log)
  show "radio_fits (example_radio\<lparr>radio_name := ''x'' @ [LF] @ ''forged''\<rparr>)"
    and "plain_radio (example_radio\<lparr>radio_name := ''x'' @ [LF] @ ''forged''\<rparr>)"
    using example_radio_ok by (simp_all add: radio_fits_def plain_radio_def plain_text_def NUL_def AG_MAX_RADIO_NAME_def)
qed simp

end
